(* ===== verification/Prelude.thy ===== *)
theory Prelude
  imports Main "HOL-Library.Word" "HOL-Library.Multiset"
begin

text \<open>
  What every component of the Homa development shares: the widths of the C++ integer types,
  the ways a C++ call can fail and the result type that carries them, the byte copies, the
  generic lemmas on lists and words, and the locale of a guarded transition system in which
  an invariant of a component is proved once for every sequence of its operations.
\<close>

unbundle bit_operations_syntax

section \<open>Integer types\<close>

type_synonym u8 = "8 word"
type_synonym u16 = "16 word"
type_synonym u32 = "32 word"
type_synonym u64 = "64 word"
type_synonym addr = nat
type_synonym bytes = "u8 list"

text \<open>A value of the C++ type \<open>int\<close> is an \<^typ>\<open>int\<close>; signed overflow is undefined, so the model
  stops with an error where a sum leaves the range below.\<close>

definition in_int32 :: "int \<Rightarrow> bool" where
  "in_int32 x \<longleftrightarrow> - (2 ^ 31) \<le> x \<and> x < 2 ^ 31"

lemma in_int32I: "- 2147483648 \<le> x \<Longrightarrow> x < 2147483648 \<Longrightarrow> in_int32 x"
  by (simp add: in_int32_def)

text \<open>The conversion from an unsigned 32-bit value to \<open>int\<close>, and the one from a 64-bit value,
  which first drops the upper half.\<close>

definition int_of_u32 :: "u32 \<Rightarrow> int" where
  "int_of_u32 w = sint w"

definition int_of_u64 :: "u64 \<Rightarrow> int" where
  "int_of_u64 w = sint (ucast w :: u32)"

text \<open>Division and remainder of C++ truncate toward zero.\<close>

definition cdiv :: "int \<Rightarrow> int \<Rightarrow> int" where
  "cdiv a b = sgn a * sgn b * (\<bar>a\<bar> div \<bar>b\<bar>)"

definition cmod :: "int \<Rightarrow> int \<Rightarrow> int" where
  "cmod a b = a - cdiv a b * b"

lemma cdiv_nonneg [simp]: "0 \<le> a \<Longrightarrow> 0 < b \<Longrightarrow> cdiv a b = a div b"
  by (cases "a = 0") (simp_all add: cdiv_def)

lemma cmod_nonneg [simp]: "0 \<le> a \<Longrightarrow> 0 < b \<Longrightarrow> cmod a b = a mod b"
  by (simp add: cmod_def minus_div_mult_eq_mod)

lemma cdiv_int: "0 < p \<Longrightarrow> cdiv (int x) (int p) = int (x div p)"
  by (simp add: zdiv_int)

text \<open>Counting up without wrap-around.\<close>

lemma unat_increment:
  assumes "(w :: u64) \<noteq> - 1"
  shows "unat (w + 1) = Suc (unat w)"
proof -
  have "unat w \<noteq> unat (- 1 :: u64)" using assms by (simp only: word_unat_eq_iff not_False_eq_True)
  moreover have "unat (- 1 :: u64) = 2 ^ 64 - 1" by (simp add: unsigned_minus_1_eq_mask mask_eq_exp_minus_1)
  moreover have "unat w < 2 ^ 64" using unsigned_less [of w] by simp
  ultimately have "unat w + unat (1 :: u64) < 2 ^ LENGTH(64)" by simp
  then show ?thesis using unat_add_lem [of w 1] by simp
qed

lemma less_increment: "(w :: u64) \<noteq> - 1 \<Longrightarrow> w < w + 1"
  by (simp add: word_less_nat_alt unat_increment)

section \<open>Failure as a value\<close>

text \<open>\<open>Undefined\<close> stands for behaviour that the language leaves undefined and that has no name of its own,
  such as reading a variable that was never set. \<open>Misuse\<close> is not raised by the code: it marks a
  call outside of the contract documented in include/Homa/Homa.h in the transition systems of the
  components.\<close>

datatype error =
    AssertionFailed
  | OutOfRange
  | Panic
  | SignedOverflow
  | NullDereference
  | DivideByZero
  | BadAlloc
  | BadAddress
  | Undefined
  | Misuse
  | OutOfFuel

type_synonym 'a res = "error + 'a"

definition require :: "error \<Rightarrow> bool \<Rightarrow> 'a res \<Rightarrow> 'a res" where
  "require e b r = (if b then r else Inl e)"

definition bindr :: "'a res \<Rightarrow> ('a \<Rightarrow> 'b res) \<Rightarrow> 'b res" where
  "bindr r f = (case r of Inl e \<Rightarrow> Inl e | Inr x \<Rightarrow> f x)"

named_theorems res_simps \<open>the equations of the result type\<close>

lemma bindr_Inr [simp, res_simps]: "bindr (Inr x) f = f x"
  by (simp add: bindr_def)

lemma bindr_Inl [simp, res_simps]: "bindr (Inl e) f = Inl e"
  by (simp add: bindr_def)

lemma bindr_eq_Inr [res_simps]: "bindr r f = Inr y \<longleftrightarrow> (\<exists>x. r = Inr x \<and> f x = Inr y)"
  by (cases r) simp_all

lemma bindr_assoc: "bindr (bindr r f) g = bindr r (\<lambda>x. bindr (f x) g)"
  by (cases r) simp_all

lemma require_True [simp, res_simps]: "require e True r = r"
  by (simp add: require_def)

lemma require_False [simp, res_simps]: "require e False r = Inl e"
  by (simp add: require_def)

lemma require_holds: "b \<Longrightarrow> require e b r = r"
  by simp

lemma require_fails: "\<not> b \<Longrightarrow> require e b r = Inl e"
  by simp

lemma require_eq_Inr [res_simps]: "require e b r = Inr x \<longleftrightarrow> b \<and> r = Inr x"
  by (cases b) simp_all

lemma require_cong [fundef_cong]:
  "\<lbrakk>e = e'; b = b'; b' \<Longrightarrow> r = r'\<rbrakk> \<Longrightarrow> require e b r = require e' b' r'"
  by (cases b') simp_all

lemma bindr_cong [fundef_cong]:
  "\<lbrakk>r = r'; \<And>x. r' = Inr x \<Longrightarrow> f x = f' x\<rbrakk> \<Longrightarrow> bindr r f = bindr r' f'"
  by (cases r') simp_all

text \<open>\<open>ensures Q x\<close>: a successful \<open>x\<close> satisfies \<open>Q\<close>. The rules follow the structure of an operation.\<close>

definition ensures :: "('a \<Rightarrow> bool) \<Rightarrow> 'a res \<Rightarrow> bool" where
  "ensures Q x \<longleftrightarrow> (\<forall>y. x = Inr y \<longrightarrow> Q y)"

lemma ensuresD: "ensures Q x \<Longrightarrow> x = Inr y \<Longrightarrow> Q y"
  by (simp add: ensures_def)

lemma ensures_Inr [simp]: "ensures Q (Inr y) \<longleftrightarrow> Q y"
  by (simp add: ensures_def)

lemma ensures_Inl [simp]: "ensures Q (Inl e)"
  by (simp add: ensures_def)

lemma ensures_require: "(b \<Longrightarrow> ensures Q x) \<Longrightarrow> ensures Q (require e b x)"
  by (cases b) simp_all

lemma ensures_bindr: "ensures (\<lambda>x. ensures Q (f x)) r \<Longrightarrow> ensures Q (bindr r f)"
  by (cases r) simp_all

lemma ensures_read: "(\<And>x. r = Inr x \<Longrightarrow> ensures Q (f x)) \<Longrightarrow> ensures Q (bindr r f)"
  by (cases r) simp_all

lemma ensures_mono: "ensures P x \<Longrightarrow> (\<And>y. P y \<Longrightarrow> Q y) \<Longrightarrow> ensures Q x"
  by (simp add: ensures_def)

lemma ensures_if: "(b \<Longrightarrow> ensures Q x) \<Longrightarrow> (\<not> b \<Longrightarrow> ensures Q y) \<Longrightarrow> ensures Q (if b then x else y)"
  by simp

lemma ensures_option:
  "ensures Q x \<Longrightarrow> (\<And>y. v = Some y \<Longrightarrow> ensures Q (f y)) \<Longrightarrow> ensures Q (case v of None \<Rightarrow> x | Some y \<Rightarrow> f y)"
  by (cases v) simp_all

lemma ensures_list:
  "ensures Q x \<Longrightarrow> (\<And>y ys. v = y # ys \<Longrightarrow> ensures Q (f y ys)) \<Longrightarrow> ensures Q (case v of [] \<Rightarrow> x | y # ys \<Rightarrow> f y ys)"
  by (cases v) simp_all

lemma ensures_Let: "ensures Q (f v) \<Longrightarrow> ensures Q (let x = v in f x)"
  by (simp add: Let_def)

lemma ensures_pair: "(\<And>x y. z = (x, y) \<Longrightarrow> ensures Q (f x y)) \<Longrightarrow> ensures Q (case z of (x, y) \<Rightarrow> f x y)"
  by (cases z) simp

lemmas ensures_rules = ensures_require ensures_if ensures_option ensures_list ensures_Let ensures_pair

section \<open>Byte copies\<close>

definition memcpy :: "bytes \<Rightarrow> nat \<Rightarrow> bytes \<Rightarrow> bytes" where
  "memcpy dst off src = take off dst @ src @ drop (off + length src) dst"

lemma length_memcpy [simp]:
  "off + length src \<le> length dst \<Longrightarrow> length (memcpy dst off src) = length dst"
  by (simp add: memcpy_def)

lemma take_memcpy_before:
  "n \<le> off \<Longrightarrow> off \<le> length dst \<Longrightarrow> take n (memcpy dst off src) = take n dst"
  by (simp add: memcpy_def min_def)

lemma take_drop_memcpy:
  "off \<le> length dst \<Longrightarrow> take (length src) (drop off (memcpy dst off src)) = src"
  by (simp add: memcpy_def)

lemma drop_memcpy_after:
  "off \<le> length dst \<Longrightarrow> off + length src \<le> n \<Longrightarrow> drop n (memcpy dst off src) = drop n dst"
  by (simp add: memcpy_def)

lemma nth_memcpy:
  "off + length bs \<le> length dst \<Longrightarrow> k < length dst \<Longrightarrow>
   memcpy dst off bs ! k = (if off \<le> k \<and> k < off + length bs then bs ! (k - off) else dst ! k)"
  by (auto simp: memcpy_def nth_append min_def)

lemma memcpy_Nil [simp]: "memcpy dst off [] = dst"
  by (simp add: memcpy_def)

section \<open>Lists\<close>

lemma distinct_split_unique:
  assumes "distinct (as @ x # bs)" and "as @ x # bs = cs @ x # ds"
  shows "as = cs \<and> bs = ds"
proof -
  from assms(1) have "x \<notin> set as" "x \<notin> set bs"
    by auto
  with assms(2) show ?thesis
    by (simp add: append_Cons_eq_iff)
qed

lemma takeWhile_neq_append: "x \<notin> set as \<Longrightarrow> takeWhile (\<lambda>y. y \<noteq> x) (as @ x # bs) = as"
  by (induction as) auto

lemma dropWhile_neq_append: "x \<notin> set as \<Longrightarrow> dropWhile (\<lambda>y. y \<noteq> x) (as @ x # bs) = x # bs"
  by (induction as) auto

lemma remove1_append_Cons: "x \<notin> set as \<Longrightarrow> remove1 x (as @ x # bs) = as @ bs"
  by (simp add: remove1_append)

lemma sorted_wrt_remove1: "sorted_wrt P xs \<Longrightarrow> sorted_wrt P (remove1 x xs)"
proof (induction xs)
  case (Cons y ys)
  then show ?case using set_remove1_subset [of x ys] by auto
qed simp

lemma sorted_wrt_insert_between:
  assumes "sorted_wrt P (as @ bs)" and "\<forall>a\<in>set as. P a x" and "\<forall>b\<in>set bs. P x b"
  shows "sorted_wrt P (as @ x # bs)"
  using assms by (auto simp: sorted_wrt_append)

lemma map_fst_remove1_subset: "set (remove1 x xs) \<subseteq> set xs"
  by (rule set_remove1_subset)

section \<open>Numbers\<close>

lemma div_mod_parts:
  "b < (p :: nat) \<Longrightarrow> (a * p + b) div p = a" "b < p \<Longrightarrow> (a * p + b) mod p = b"
  by simp_all



lemma unat_and_mask_less: "unat (w AND mask n :: 'a::len word) < 2 ^ n"
  by (simp flip: take_bit_eq_mask add: unsigned_take_bit_eq)

section \<open>Guarded transition systems\<close>

text \<open>
  A component is a start state and a step function that maps an operation and a state to the
  next state or to an error. An invariant that holds at the start and is kept by every step
  holds in every reachable state.
\<close>

locale component =
  fixes start :: "'s \<Rightarrow> bool"
    and step :: "'op \<Rightarrow> 's \<Rightarrow> 's res"
    and inv :: "'s \<Rightarrow> bool"
  assumes inv_start: "start s \<Longrightarrow> inv s"
    and inv_step: "inv s \<Longrightarrow> step op s = Inr s' \<Longrightarrow> inv s'"
begin

inductive reachable :: "'s \<Rightarrow> bool" where
  reach_start: "start s \<Longrightarrow> reachable s"
| reach_step: "reachable s \<Longrightarrow> step op s = Inr s' \<Longrightarrow> reachable s'"

lemma reachable_inv: "reachable s \<Longrightarrow> inv s"
  by (induction rule: reachable.induct) (auto intro: inv_start inv_step)

end

end
