(* ===== verification/Protocol.thy ===== *)
theory Protocol
  imports Prelude
begin

text \<open>
  The wire format of src/Protocol.h: message identifiers and their hash, the opcodes, the packed
  header structures and the bytes they occupy. The structures are packed and the target is
  little endian, so an integer field is its bytes from the least significant one; the ports
  alone are stored in network byte order. \<open>encode_\<dots>\<close> is what placement-new of a header writes
  into a payload, \<open>decode_\<dots>\<close> what reading the fields through the cast pointer returns.
\<close>

section \<open>Integers as bytes\<close>

definition to_le :: "nat \<Rightarrow> 'a::len word \<Rightarrow> bytes" where
  "to_le n w = map (\<lambda>i. ucast (drop_bit (8 * i) w)) [0..<n]"

fun from_le :: "bytes \<Rightarrow> 'a::len word" where
  "from_le [] = 0"
| "from_le (b # bs) = ucast b OR push_bit 8 (from_le bs)"

definition field :: "nat \<Rightarrow> nat \<Rightarrow> bytes \<Rightarrow> 'a::len word" where
  "field off n bs = from_le (take n (drop off bs))"

lemma length_to_le [simp]: "length (to_le n w) = n"
  by (simp add: to_le_def)

lemma bit_from_le:
  "bit (from_le bs :: 'a::len word) i \<longleftrightarrow>
     i < LENGTH('a) \<and> i div 8 < length bs \<and> bit (bs ! (i div 8)) (i mod 8)"
proof (induction bs arbitrary: i)
  case (Cons b bs)
  show ?case
  proof (cases "i < 8")
    case True
    then show ?thesis
      by (auto simp: bit_or_iff bit_push_bit_iff bit_simps)
  next
    case False
    then have "i div 8 = Suc ((i - 8) div 8)" "(i - 8) mod 8 = i mod 8"
      by (simp_all add: le_div_geq le_mod_geq not_less)
    moreover have "\<not> bit b i"
      using False bit_imp_le_length [of b i] by auto
    ultimately show ?thesis
      using False Cons.IH [of "i - 8"] by (auto simp: bit_or_iff bit_push_bit_iff bit_simps not_less)
  qed
qed simp

lemma from_le_to_le:
  assumes "LENGTH('a) \<le> 8 * n"
  shows "from_le (to_le n (w :: 'a::len word)) = w"
proof (rule bit_word_eqI)
  fix i assume i: "i < LENGTH('a)"
  with assms have "i div 8 < n" by auto
  then show "bit (from_le (to_le n w) :: 'a word) i = bit w i"
    using i by (simp add: bit_from_le to_le_def bit_simps)
qed

lemma field_append_left: "off + n \<le> length as \<Longrightarrow> field off n (as @ bs) = field off n as"
  by (simp add: field_def)

lemma field_skip: "off = length as + k \<Longrightarrow> field off n (as @ bs) = field k n bs"
  by (simp add: field_def)

lemma field_here: "LENGTH('a) \<le> 8 * n \<Longrightarrow> field 0 n (to_le n (w :: 'a::len word) @ bs) = w"
  by (simp add: field_def from_le_to_le)

lemma field_here_end: "LENGTH('a) \<le> 8 * n \<Longrightarrow> field 0 n (to_le n (w :: 'a::len word)) = w"
  using field_here [of n w "[]"] by simp

text \<open>\<open>htobe16\<close> and \<open>be16toh\<close> on a little endian host swap the two bytes.\<close>

definition htobe16 :: "u16 \<Rightarrow> u16" where
  "htobe16 w = push_bit 8 w OR drop_bit 8 w"

definition be16toh :: "u16 \<Rightarrow> u16" where
  "be16toh w = push_bit 8 w OR drop_bit 8 w"

lemma be16toh_htobe16 [simp]: "be16toh (htobe16 w) = w"
proof (rule bit_word_eqI)
  fix i assume i: "i < LENGTH(16)"
  have "bit w j \<Longrightarrow> j < 16" for j
    using bit_imp_le_length [of w j] by simp
  with i show "bit (be16toh (htobe16 w)) i = bit w i"
    by (auto simp: be16toh_def htobe16_def bit_simps)
qed

section \<open>Message identifiers\<close>

record messageId =
  transportId :: u64
  sequence :: u64

definition messageId_less :: "messageId \<Rightarrow> messageId \<Rightarrow> bool" where
  "messageId_less a b \<longleftrightarrow>
     transportId a < transportId b \<or> transportId a = transportId b \<and> sequence a < sequence b"

definition messageId_eq :: "messageId \<Rightarrow> messageId \<Rightarrow> bool" where
  "messageId_eq a b \<longleftrightarrow> transportId a = transportId b \<and> sequence a = sequence b"

text \<open>\<open>std::hash\<close> of an unsigned integer is the integer itself in libstdc++.\<close>

definition std_hash :: "u64 \<Rightarrow> u64" where
  "std_hash w = w"

definition Hasher :: "messageId \<Rightarrow> u64" where
  "Hasher i = std_hash (transportId i) XOR push_bit 1 (std_hash (sequence i))"

lemma messageId_less_total: "messageId_less a b \<or> messageId_eq a b \<or> messageId_less b a"
  unfolding messageId_less_def messageId_eq_def by auto

lemma messageId_eq_iff [simp]: "messageId_eq a b \<longleftrightarrow> a = b"
  by (auto simp: messageId_eq_def)

lemma messageId_less_irrefl: "\<not> messageId_less a a"
  by (auto simp: messageId_less_def)

lemma messageId_less_trans: "messageId_less a b \<Longrightarrow> messageId_less b c \<Longrightarrow> messageId_less a c"
  by (auto simp: messageId_less_def)

section \<open>Headers\<close>

datatype opcode = DATA | GRANT | DONE | RESEND | BUSY | PING | UNKNOWN | ERROR

fun opcode_value :: "opcode \<Rightarrow> u8" where
  "opcode_value DATA = 21"
| "opcode_value GRANT = 22"
| "opcode_value DONE = 23"
| "opcode_value RESEND = 24"
| "opcode_value BUSY = 25"
| "opcode_value PING = 26"
| "opcode_value UNKNOWN = 27"
| "opcode_value ERROR = 28"

record headerPrefix =
  sport :: u16
  dport :: u16
  hversion :: u8

record commonHeader =
  prefix :: headerPrefix
  hopcode :: u8
  hmessageId :: messageId

definition CommonHeader :: "opcode \<Rightarrow> messageId \<Rightarrow> commonHeader" where
  "CommonHeader op i =
     \<lparr>prefix = \<lparr>sport = 0, dport = 0, hversion = 1\<rparr>, hopcode = opcode_value op, hmessageId = i\<rparr>"

record dataHeader =
  dh_common :: commonHeader
  totalLength :: u32
  policyVersion :: u8
  unscheduledIndexLimit :: u16
  dh_index :: u16

definition DataHeader ::
  "u16 \<Rightarrow> u16 \<Rightarrow> messageId \<Rightarrow> u32 \<Rightarrow> u8 \<Rightarrow> u16 \<Rightarrow> u16 \<Rightarrow> dataHeader" where
  "DataHeader sp dp i len pv limit ix =
     (let c = CommonHeader DATA i
      in \<lparr>dh_common = c\<lparr>prefix := (prefix c)\<lparr>sport := htobe16 sp, dport := htobe16 dp\<rparr>\<rparr>,
          totalLength = len, policyVersion = pv, unscheduledIndexLimit = limit, dh_index = ix\<rparr>)"

record grantHeader =
  gh_common :: commonHeader
  byteLimit :: u32
  gh_priority :: u8

definition GrantHeader :: "messageId \<Rightarrow> u32 \<Rightarrow> u8 \<Rightarrow> grantHeader" where
  "GrantHeader i limit prio = \<lparr>gh_common = CommonHeader GRANT i, byteLimit = limit, gh_priority = prio\<rparr>"

record resendHeader =
  rh_common :: commonHeader
  rh_index :: u16
  rh_num :: u16
  rh_priority :: u8

definition ResendHeader :: "messageId \<Rightarrow> u16 \<Rightarrow> u16 \<Rightarrow> u8 \<Rightarrow> resendHeader" where
  "ResendHeader i ix n prio =
     \<lparr>rh_common = CommonHeader RESEND i, rh_index = ix, rh_num = n, rh_priority = prio\<rparr>"

text \<open>The other control packets carry the common header only.\<close>

definition DoneHeader :: "messageId \<Rightarrow> commonHeader" where
  "DoneHeader i = CommonHeader DONE i"

definition BusyHeader :: "messageId \<Rightarrow> commonHeader" where
  "BusyHeader i = CommonHeader BUSY i"

definition PingHeader :: "messageId \<Rightarrow> commonHeader" where
  "PingHeader i = CommonHeader PING i"

definition UnknownHeader :: "messageId \<Rightarrow> commonHeader" where
  "UnknownHeader i = CommonHeader UNKNOWN i"

definition ErrorHeader :: "messageId \<Rightarrow> commonHeader" where
  "ErrorHeader i = CommonHeader ERROR i"

section \<open>Headers as bytes\<close>

definition encode_common :: "commonHeader \<Rightarrow> bytes" where
  "encode_common c =
     to_le 2 (sport (prefix c)) @ to_le 2 (dport (prefix c)) @ to_le 1 (hversion (prefix c)) @
     to_le 1 (hopcode c) @ to_le 8 (transportId (hmessageId c)) @ to_le 8 (sequence (hmessageId c))"

definition decode_common :: "bytes \<Rightarrow> commonHeader" where
  "decode_common bs =
     \<lparr>prefix = \<lparr>sport = field 0 2 bs, dport = field 2 2 bs, hversion = field 4 1 bs\<rparr>,
      hopcode = field 5 1 bs,
      hmessageId = \<lparr>transportId = field 6 8 bs, sequence = field 14 8 bs\<rparr>\<rparr>"

definition encode_data :: "dataHeader \<Rightarrow> bytes" where
  "encode_data h =
     encode_common (dh_common h) @ to_le 4 (totalLength h) @ to_le 1 (policyVersion h) @
     to_le 2 (unscheduledIndexLimit h) @ to_le 2 (dh_index h)"

definition decode_data :: "bytes \<Rightarrow> dataHeader" where
  "decode_data bs =
     \<lparr>dh_common = decode_common bs, totalLength = field 22 4 bs, policyVersion = field 26 1 bs,
      unscheduledIndexLimit = field 27 2 bs, dh_index = field 29 2 bs\<rparr>"

definition encode_grant :: "grantHeader \<Rightarrow> bytes" where
  "encode_grant h = encode_common (gh_common h) @ to_le 4 (byteLimit h) @ to_le 1 (gh_priority h)"

definition decode_grant :: "bytes \<Rightarrow> grantHeader" where
  "decode_grant bs =
     \<lparr>gh_common = decode_common bs, byteLimit = field 22 4 bs, gh_priority = field 26 1 bs\<rparr>"

definition encode_resend :: "resendHeader \<Rightarrow> bytes" where
  "encode_resend h =
     encode_common (rh_common h) @ to_le 2 (rh_index h) @ to_le 2 (rh_num h) @ to_le 1 (rh_priority h)"

definition decode_resend :: "bytes \<Rightarrow> resendHeader" where
  "decode_resend bs =
     \<lparr>rh_common = decode_common bs, rh_index = field 22 2 bs, rh_num = field 24 2 bs,
      rh_priority = field 26 1 bs\<rparr>"

text \<open>\<open>sizeof\<close> of the header structures.\<close>

definition sizeof_CommonHeader :: nat where "sizeof_CommonHeader = 22"
definition sizeof_DataHeader :: nat where "sizeof_DataHeader = 31"
definition sizeof_GrantHeader :: nat where "sizeof_GrantHeader = 27"
definition sizeof_ResendHeader :: nat where "sizeof_ResendHeader = 27"

lemma length_encode [simp]:
  "length (encode_common c) = sizeof_CommonHeader"
  "length (encode_data d) = sizeof_DataHeader"
  "length (encode_grant g) = sizeof_GrantHeader"
  "length (encode_resend r) = sizeof_ResendHeader"
  by (simp_all add: encode_common_def encode_data_def encode_grant_def encode_resend_def
      sizeof_CommonHeader_def sizeof_DataHeader_def sizeof_GrantHeader_def sizeof_ResendHeader_def)

lemma field_past: "n \<le> off \<Longrightarrow> field off m (to_le n w @ bs) = field (off - n) m bs"
  by (simp add: field_def)

lemma field_past_end: "n \<le> off \<Longrightarrow> field off m (to_le n w) = field (off - n) m []"
  by (simp add: field_def)

lemmas field_rules = field_here field_here_end field_past field_past_end

lemma decode_encode_common [simp]: "decode_common (encode_common c @ rest) = c"
  by (simp add: decode_common_def encode_common_def field_rules)

lemma decode_encode_data [simp]: "decode_data (encode_data h @ rest) = h"
proof -
  have "decode_common (encode_data h @ rest) = dh_common h"
    by (simp add: encode_data_def)
  moreover have "decode_data (encode_data h @ rest) = h\<lparr>dh_common := decode_common (encode_data h @ rest)\<rparr>"
    by (simp add: decode_data_def encode_data_def encode_common_def field_rules)
  ultimately show ?thesis by simp
qed

lemma decode_encode_grant [simp]: "decode_grant (encode_grant h @ rest) = h"
proof -
  have "decode_common (encode_grant h @ rest) = gh_common h"
    by (simp add: encode_grant_def)
  moreover have "decode_grant (encode_grant h @ rest) = h\<lparr>gh_common := decode_common (encode_grant h @ rest)\<rparr>"
    by (simp add: decode_grant_def encode_grant_def encode_common_def field_rules)
  ultimately show ?thesis by simp
qed

lemma decode_encode_resend [simp]: "decode_resend (encode_resend h @ rest) = h"
proof -
  have "decode_common (encode_resend h @ rest) = rh_common h"
    by (simp add: encode_resend_def)
  moreover have "decode_resend (encode_resend h @ rest) = h\<lparr>rh_common := decode_common (encode_resend h @ rest)\<rparr>"
    by (simp add: decode_resend_def encode_resend_def encode_common_def field_rules)
  ultimately show ?thesis by simp
qed

lemma decode_common_of_header [simp]:
  "decode_common (encode_data d @ rest) = dh_common d"
  "decode_common (encode_grant g @ rest) = gh_common g"
  "decode_common (encode_resend r @ rest) = rh_common r"
  by (simp_all add: encode_data_def encode_grant_def encode_resend_def)

text \<open>Fields written in place.\<close>

lemma field_memcpy_other:
  assumes "off + n \<le> at \<or> at + length src \<le> off" "at + length src \<le> length bs"
  shows "field off n (memcpy bs at src) = field off n bs"
proof -
  have "take n (drop off (memcpy bs at src)) = take n (drop off bs)"
    using assms by (intro nth_equalityI) (auto simp: nth_memcpy)
  then show ?thesis by (simp add: field_def)
qed

lemma field_memcpy_same:
  "at \<le> length bs \<Longrightarrow> LENGTH('a) \<le> 8 * n \<Longrightarrow> field at n (memcpy bs at (to_le n (w :: 'a::len word))) = w"
  using take_drop_memcpy [of at bs "to_le n w"] by (simp add: field_def from_le_to_le)

end
