(* ===== verification/Perf.thy ===== *)
theory Perf
  imports Prelude
begin

text \<open>
  The performance counters of src/Perf.h and src/Perf.cc. A set of counters is a function from
  the counter's name to its 64-bit value; a running thread owns one set, a thread that exits
  adds its set to the global one. The theorems show that a snapshot is the sum over all
  threads, dead or alive, in whatever order the unordered set of threads is visited.
\<close>

datatype counter =
    total_cycles | active_cycles
  | allocated_rx_messages | received_rx_messages | delivered_rx_messages | destroyed_rx_messages
  | allocated_tx_messages | released_tx_messages | destroyed_tx_messages
  | tx_bytes | rx_bytes
  | tx_data_pkts | rx_data_pkts
  | tx_grant_pkts | rx_grant_pkts
  | tx_done_pkts | rx_done_pkts
  | tx_resend_pkts | rx_resend_pkts
  | tx_busy_pkts | rx_busy_pkts
  | tx_ping_pkts | rx_ping_pkts
  | tx_unknown_pkts | rx_unknown_pkts
  | tx_error_pkts | rx_error_pkts

type_synonym counters = "counter \<Rightarrow> u64"

definition Counters :: counters where
  "Counters = (\<lambda>_. 0)"

definition Stat_add :: "counter \<Rightarrow> u64 \<Rightarrow> counters \<Rightarrow> counters" where
  "Stat_add c val cs = cs(c := cs c + val)"

definition Counters_add :: "counters \<Rightarrow> counters \<Rightarrow> counters" where
  "Counters_add other cs = (\<lambda>c. cs c + other c)"

text \<open>The statistics handed to the application: the counters, with the idle cycles in place of
  the total, and the two time values of the call.\<close>

datatype stat = Idle_cycles | Counter counter

record 'f stats =
  timestamp :: u64
  cycles_per_second :: 'f
  stat_values :: "stat \<Rightarrow> u64"

definition dumpStats :: "counters \<Rightarrow> stat \<Rightarrow> u64" where
  "dumpStats cs = (\<lambda>s. case s of
     Idle_cycles \<Rightarrow> cs total_cycles - cs active_cycles
   | Counter c \<Rightarrow> cs c)"

record perf =
  globalCounters :: counters
  perThreadCounters :: "nat list"
  threadCounters :: "nat \<Rightarrow> counters"

definition ThreadCounters_construct :: "nat \<Rightarrow> perf \<Rightarrow> perf" where
  "ThreadCounters_construct t p =
     p\<lparr>perThreadCounters := List.insert t (perThreadCounters p),
       threadCounters := (threadCounters p)(t := Counters)\<rparr>"

definition ThreadCounters_destruct :: "nat \<Rightarrow> perf \<Rightarrow> perf" where
  "ThreadCounters_destruct t p =
     p\<lparr>globalCounters := Counters_add (threadCounters p t) (globalCounters p),
       perThreadCounters := remove1 t (perThreadCounters p)\<rparr>"

definition thread_add :: "nat \<Rightarrow> counter \<Rightarrow> u64 \<Rightarrow> perf \<Rightarrow> perf" where
  "thread_add t c val p =
     p\<lparr>threadCounters := (threadCounters p)(t := Stat_add c val (threadCounters p t))\<rparr>"

definition getStats_counters :: "perf \<Rightarrow> counters" where
  "getStats_counters p =
     fold (\<lambda>t. Counters_add (threadCounters p t)) (perThreadCounters p)
       (Counters_add (globalCounters p) Counters)"

definition getStats :: "u64 \<Rightarrow> 'f \<Rightarrow> perf \<Rightarrow> 'f stats" where
  "getStats rdtsc perSecond p =
     \<lparr>timestamp = rdtsc, cycles_per_second = perSecond, stat_values = dumpStats (getStats_counters p)\<rparr>"

text \<open>\<open>Perf::Timer\<close>: the time stamp of the last split; \<open>split\<close> returns the cycles since then.\<close>

definition Timer_split :: "u64 \<Rightarrow> u64 \<Rightarrow> u64 \<times> u64" where
  "Timer_split now split_tsc = (now - split_tsc, now)"

section \<open>A snapshot is a sum\<close>

lemma fold_Counters_add:
  "fold (\<lambda>t. Counters_add (f t)) ts acc c = acc c + sum_list (map (\<lambda>t. f t c) ts)"
  by (induction ts arbitrary: acc) (simp_all add: Counters_add_def add.assoc)

lemma getStats_counters_sum:
  "getStats_counters p c =
     globalCounters p c + sum_list (map (\<lambda>t. threadCounters p t c) (perThreadCounters p))"
  by (simp add: getStats_counters_def fold_Counters_add Counters_add_def Counters_def)

lemma sum_list_remove1:
  "x \<in> set xs \<Longrightarrow> sum_list (map f xs) = f x + sum_list (map f (remove1 x xs) :: 'a::ab_group_add list)"
  by (induction xs) (auto simp: algebra_simps)

text \<open>No count is lost when a thread exits, and a new thread starts at zero.\<close>

lemma getStats_thread_exit:
  assumes "t \<in> set (perThreadCounters p)"
  shows "getStats_counters (ThreadCounters_destruct t p) = getStats_counters p"
proof
  fix c
  show "getStats_counters (ThreadCounters_destruct t p) c = getStats_counters p c"
    using sum_list_remove1 [OF assms, of "\<lambda>t. threadCounters p t c"]
    by (simp add: getStats_counters_sum ThreadCounters_destruct_def Counters_add_def)
qed

lemma sum_list_cong:
  "(\<And>x. x \<in> set xs \<Longrightarrow> f x = g x) \<Longrightarrow> sum_list (map f xs) = sum_list (map g xs)"
  by (metis map_cong)

lemma getStats_thread_start:
  assumes "t \<notin> set (perThreadCounters p)"
  shows "getStats_counters (ThreadCounters_construct t p) = getStats_counters p"
proof
  fix c
  have "sum_list (map (\<lambda>u. threadCounters (ThreadCounters_construct t p) u c) (perThreadCounters p)) =
        sum_list (map (\<lambda>u. threadCounters p u c) (perThreadCounters p))"
    using assms by (intro sum_list_cong) (auto simp: ThreadCounters_construct_def)
  with assms show "getStats_counters (ThreadCounters_construct t p) c = getStats_counters p c"
    by (simp add: getStats_counters_sum ThreadCounters_construct_def Counters_def List.insert_def)
qed

lemma getStats_thread_add:
  assumes "t \<in> set (perThreadCounters p)" "distinct (perThreadCounters p)"
  shows "getStats_counters (thread_add t c val p) = (getStats_counters p)(c := getStats_counters p c + val)"
proof
  fix k
  let ?f = "\<lambda>u. threadCounters (thread_add t c val p) u k"
  let ?g = "\<lambda>u. threadCounters p u k"
  have "sum_list (map ?f (remove1 t (perThreadCounters p))) = sum_list (map ?g (remove1 t (perThreadCounters p)))"
    using assms by (intro sum_list_cong) (auto simp: thread_add_def)
  moreover have "?f t = ?g t + (if k = c then val else 0)"
    by (simp add: thread_add_def Stat_add_def)
  ultimately have "sum_list (map ?f (perThreadCounters p)) =
      (if k = c then val else 0) + sum_list (map ?g (perThreadCounters p))"
    using sum_list_remove1 [OF assms(1), of ?f] sum_list_remove1 [OF assms(1), of ?g]
    by (simp add: algebra_simps)
  then show "getStats_counters (thread_add t c val p) k =
      ((getStats_counters p)(c := getStats_counters p c + val)) k"
    unfolding getStats_counters_sum by (simp add: thread_add_def getStats_counters_sum)
qed

end
