(* ===== verification/Driver.thy ===== *)
theory Driver
  imports Protocol Perf
begin

text \<open>
  The packets a driver hands out and takes back (include/Homa/Driver.h), the addresses
  (include/Homa/Homa.h), the checked integer conversion of include/Homa/Util.h and the helper
  that sends a control packet (src/ControlPacket.h).

  \<open>Driver\<close> is an abstract class. What the core asks of it without a change of state is a record
  of values; what it does to it is an event, and an operation of the core appends the events
  it causes, in order, to the log of its component. \<open>fresh\<close> holds the bytes a buffer carries
  when it is handed out: they are arbitrary.
\<close>

section \<open>Checked conversions\<close>

text \<open>\<open>Util::downCast\<close> asserts \<open>large - small == 0\<close>, and the difference is computed in the common
  type of the two operands: 64 bits unsigned for \<open>size_t\<close> to \<open>int\<close>, \<open>int\<close> for \<open>int\<close> to
  \<open>uint16_t\<close>, 32 bits unsigned for \<open>int\<close> to \<open>uint32_t\<close>, where the check can not fail.\<close>

definition downCast_int :: "u64 \<Rightarrow> int res" where
  "downCast_int large =
     (let small = int_of_u64 large
      in require AssertionFailed (large - word_of_int small = 0) (Inr small))"

definition downCast_u16 :: "int \<Rightarrow> u16 res" where
  "downCast_u16 large =
     (let small = word_of_int large
      in require AssertionFailed (large - uint small = 0) (Inr small))"

definition downCast_u32 :: "int \<Rightarrow> u32 res" where
  "downCast_u32 large =
     (let small = word_of_int large
      in require AssertionFailed (word_of_int large - small = 0) (Inr small))"

definition downCast_size :: "int \<Rightarrow> u64 res" where
  "downCast_size large =
     (let small = word_of_int large
      in require AssertionFailed (word_of_int large - small = 0) (Inr small))"

definition isPowerOfTwo :: "int \<Rightarrow> bool" where
  "isPowerOfTwo n \<longleftrightarrow> n > 0 \<and> n AND (n - 1) = 0"

lemma downCast_int_small: "unat w < 2 ^ 31 \<Longrightarrow> downCast_int w = Inr (int (unat w))"
proof -
  assume w: "unat w < 2 ^ 31"
  have "unat (ucast w :: u32) = unat w"
    using w by (simp add: unsigned_ucast_eq take_bit_nat_eq_self)
  then have u: "uint (ucast w :: u32) = int (unat w)"
    by (metis uint_nat)
  have "int (unat w) < 2 ^ 31"
    using w by (metis of_nat_less_iff of_nat_numeral of_nat_power)
  then have "signed_take_bit 31 (int (unat w)) = int (unat w)"
    using order_trans [of "- (2 ^ 31)" 0 "int (unat w)"]
    by (intro signed_take_bit_int_eq_self) simp_all
  then have "sint (ucast w :: u32) = int (unat w)"
    by (simp add: sint_uint u del: int_nat_eq)
  then have "int_of_u64 w = int (unat w)"
    by (simp add: int_of_u64_def)
  then show ?thesis
    by (simp add: downCast_int_def)
qed

lemma int_of_u32_small: "unat w < 2 ^ 31 \<Longrightarrow> int_of_u32 w = int (unat w)"
proof -
  assume "unat w < 2 ^ 31"
  then have "int (unat w) < 2 ^ 31"
    by (metis of_nat_less_iff of_nat_numeral of_nat_power)
  moreover have "- (2 ^ 31) \<le> int (unat w)"
    using order_trans [of "- (2 ^ 31)" 0 "int (unat w)"] by simp
  ultimately have "signed_take_bit 31 (int (unat w)) = int (unat w)"
    by (intro signed_take_bit_int_eq_self) simp_all
  then show ?thesis
    by (simp add: int_of_u32_def sint_uint)
qed

lemma downCast_u16_iff:
  "downCast_u16 n = (if 0 \<le> n \<and> n < 2 ^ 16 then Inr (word_of_int n) else Inl AssertionFailed)"
proof -
  have "n - uint (word_of_int n :: u16) = 0 \<longleftrightarrow> 0 \<le> n \<and> n < 2 ^ 16"
    using pos_mod_bound [of "2 ^ 16" n] pos_mod_sign [of "2 ^ 16" n]
    by (auto simp: uint_word_of_int mod_pos_pos_trivial)
  then show ?thesis
    by (simp add: downCast_u16_def require_def)
qed

lemma downCast_unsigned [simp]:
  "downCast_u32 n = Inr (word_of_int n)" "downCast_size n = Inr (word_of_int n)"
  by (simp_all add: downCast_u32_def downCast_size_def)

section \<open>Addresses, packets and events\<close>

record ipAddress =
  ip_addr :: u32

definition ip_eq :: "ipAddress \<Rightarrow> ipAddress \<Rightarrow> bool" where
  "ip_eq a b \<longleftrightarrow> ip_addr a = ip_addr b"

definition ip_Hasher :: "ipAddress \<Rightarrow> u64" where
  "ip_Hasher a = ucast (ip_addr a)"

record socketAddress =
  sa_ip :: ipAddress
  sa_port :: u16

record packet =
  payload :: bytes
  plength :: int

record driver =
  maxPayloadSize :: u32
  localAddress :: ipAddress
  highestPacketPriority :: int
  bandwidth :: u32
  fresh :: "nat \<Rightarrow> bytes"

datatype event =
    SendPacket packet ipAddress int
  | ReleasePackets "packet list"
  | PerfAdd counter u64
  | Cork
  | Uncork

text \<open>What the core relies on: a buffer holds a full payload, a full payload holds a header and
  some data and its size is an \<open>int\<close>, priorities start at 0.\<close>

definition driver_ok :: "driver \<Rightarrow> bool" where
  "driver_ok d \<longleftrightarrow>
     sizeof_DataHeader < unat (maxPayloadSize d) \<and> unat (maxPayloadSize d) < 2 ^ 16 \<and>
     (\<forall>i. length (fresh d i) = unat (maxPayloadSize d)) \<and> 0 \<le> highestPacketPriority d"

definition allocPacket :: "driver \<Rightarrow> nat \<Rightarrow> packet" where
  "allocPacket d i = \<lparr>payload = fresh d i, plength = 0\<rparr>"

definition put_header :: "bytes \<Rightarrow> packet \<Rightarrow> packet" where
  "put_header h p = p\<lparr>payload := memcpy (payload p) 0 h\<rparr>"

lemma plength_put_header [simp]: "plength (put_header h p) = plength p"
  by (simp add: put_header_def)

lemma length_put_header [simp]:
  "length h \<le> length (payload p) \<Longrightarrow> length (payload (put_header h p)) = length (payload p)"
  by (simp add: put_header_def)

lemma nth_put_header:
  "length h \<le> n \<Longrightarrow> n < length (payload p) \<Longrightarrow> payload (put_header h p) ! n = payload p ! n"
  by (simp add: put_header_def memcpy_def nth_append)

section \<open>Control packets\<close>

definition ControlPacket_send :: "driver \<Rightarrow> ipAddress \<Rightarrow> bytes \<Rightarrow> event list" where
  "ControlPacket_send d address header =
     (let p = (put_header header (allocPacket d 0))\<lparr>plength := int (length header)\<rparr>
      in [PerfAdd tx_bytes (word_of_int (plength p)),
          SendPacket p address (highestPacketPriority d),
          ReleasePackets [p]])"

text \<open>The bytes of the packets an event list puts on the wire.\<close>

fun sent_packets :: "event list \<Rightarrow> packet list" where
  "sent_packets [] = []"
| "sent_packets (SendPacket p _ _ # es) = p # sent_packets es"
| "sent_packets (_ # es) = sent_packets es"

lemma sent_packets_append [simp]: "sent_packets (as @ bs) = sent_packets as @ sent_packets bs"
  by (induction as rule: sent_packets.induct) simp_all

fun sent_priorities :: "event list \<Rightarrow> int list" where
  "sent_priorities [] = []"
| "sent_priorities (SendPacket _ _ q # es) = q # sent_priorities es"
| "sent_priorities (_ # es) = sent_priorities es"

lemma sent_priorities_append [simp]:
  "sent_priorities (as @ bs) = sent_priorities as @ sent_priorities bs"
  by (induction as rule: sent_priorities.induct) simp_all

lemma ControlPacket_send_wire:
  "driver_ok d \<Longrightarrow> length header \<le> sizeof_DataHeader \<Longrightarrow>
   \<exists>p. sent_packets (ControlPacket_send d a header) = [p] \<and>
       take (length header) (payload p) = header \<and> plength p = int (length header) \<and>
       length (payload p) = unat (maxPayloadSize d)"
  by (auto simp: ControlPacket_send_def Let_def put_header_def allocPacket_def driver_ok_def memcpy_def)

section \<open>Data of a message in packets\<close>

text \<open>\<open>pdl d\<close> bytes of data fit in a packet; packet \<open>i\<close> of a message of \<open>len\<close> bytes carries
  \<open>chunk d len i\<close> of them, and there are \<open>packets_for d len\<close> packets.\<close>

definition pdl :: "driver \<Rightarrow> nat" where
  "pdl d = unat (maxPayloadSize d) - sizeof_DataHeader"

definition chunk :: "driver \<Rightarrow> nat \<Rightarrow> nat \<Rightarrow> nat" where
  "chunk d len i = min (pdl d) (len - i * pdl d)"

definition packets_for :: "driver \<Rightarrow> nat \<Rightarrow> nat" where
  "packets_for d len = (len + pdl d - 1) div pdl d"

lemma pdl_pos: "driver_ok d \<Longrightarrow> 0 < pdl d"
  by (simp add: pdl_def driver_ok_def)

lemma pdl_bound: "driver_ok d \<Longrightarrow> pdl d + sizeof_DataHeader = unat (maxPayloadSize d) \<and> pdl d < 2 ^ 16"
  by (auto simp: pdl_def driver_ok_def)

lemma packets_for_iff: "0 < pdl d \<Longrightarrow> i < packets_for d len \<longleftrightarrow> i * pdl d < len"
proof -
  assume p: "0 < pdl d"
  have "i < packets_for d len \<longleftrightarrow> Suc i \<le> (len + pdl d - 1) div pdl d"
    by (simp add: packets_for_def less_eq_Suc_le)
  also have "\<dots> \<longleftrightarrow> Suc i * pdl d \<le> len + pdl d - 1"
    using p by (rule less_eq_div_iff_mult_less_eq)
  also have "\<dots> \<longleftrightarrow> i * pdl d < len"
    using p by auto
  finally show ?thesis .
qed

lemma packets_for_le: "0 < pdl d \<Longrightarrow> len \<le> n * pdl d \<Longrightarrow> packets_for d len \<le> n"
  using packets_for_iff [of d n len] by auto

lemma packets_for_unique:
  "0 < pdl d \<Longrightarrow> (\<And>i. i * pdl d < len \<longleftrightarrow> i < n) \<Longrightarrow> packets_for d len = n"
  using packets_for_iff [of d] by (metis linorder_neqE_nat less_irrefl)

lemma packets_for_grow:
  assumes "0 < pdl d" "0 < n" "len mod pdl d + n \<le> pdl d"
  shows "packets_for d (len + n) = len div pdl d + 1"
proof (rule packets_for_unique [OF assms(1)])
  fix i
  have l: "len = len div pdl d * pdl d + len mod pdl d" by simp
  show "i * pdl d < len + n \<longleftrightarrow> i < len div pdl d + 1"
  proof
    assume "i * pdl d < len + n"
    also have "\<dots> \<le> (len div pdl d + 1) * pdl d"
      using l assms(3) unfolding add_mult_distrib by linarith
    finally show "i < len div pdl d + 1" using mult_less_cancel2 by blast
  next
    assume "i < len div pdl d + 1"
    then have "i * pdl d \<le> len div pdl d * pdl d" by simp
    with l assms(2) show "i * pdl d < len + n" by linarith
  qed
qed

lemma packets_for_div:
  assumes "0 < pdl d"
  shows "packets_for d len = (if len mod pdl d = 0 then len div pdl d else len div pdl d + 1)"
proof (rule packets_for_unique [OF assms])
  fix i
  have "i < len div pdl d + 1 \<longleftrightarrow> i * pdl d \<le> len"
    using assms less_eq_div_iff_mult_less_eq [of "pdl d" i len] by (simp add: less_Suc_eq_le)
  moreover have "i * pdl d = len \<Longrightarrow> len mod pdl d = 0" by auto
  moreover have "i = len div pdl d \<Longrightarrow> len mod pdl d = 0 \<Longrightarrow> i * pdl d = len"
    by (metis add_0_right div_mult_mod_eq)
  moreover have "i * pdl d = len \<Longrightarrow> i = len div pdl d"
    using assms by auto
  ultimately show "i * pdl d < len \<longleftrightarrow> i < (if len mod pdl d = 0 then len div pdl d else len div pdl d + 1)"
    by (smt (verit) less_Suc_eq Suc_eq_plus1 le_neq_implies_less less_imp_le_nat nat_less_le)
qed

lemma chunk_grow:
  assumes "0 < pdl d" "len mod pdl d + n \<le> pdl d"
  shows "i < len div pdl d \<Longrightarrow> chunk d (len + n) i = chunk d len i"
    and "chunk d (len + n) (len div pdl d) = len mod pdl d + n"
proof -
  have l: "len - len div pdl d * pdl d = len mod pdl d"
    by (rule minus_div_mult_eq_mod)
  show "chunk d (len + n) i = chunk d len i" if "i < len div pdl d"
  proof -
    from that have "Suc i * pdl d \<le> len div pdl d * pdl d"
      by (intro mult_le_mono) auto
    also have "\<dots> \<le> len" by simp
    finally have "pdl d \<le> len - i * pdl d" by simp
    then show ?thesis by (simp add: chunk_def)
  qed
  have "len + n - len div pdl d * pdl d = len mod pdl d + n"
    using l by (metis Nat.diff_add_assoc2 div_times_less_eq_dividend)
  with assms(2) show "chunk d (len + n) (len div pdl d) = len mod pdl d + n"
    by (simp add: chunk_def)
qed

lemma sum_chunks: "0 < pdl d \<Longrightarrow> (\<Sum>i\<leftarrow>[0..<n]. chunk d len i) = min len (n * pdl d)"
  by (induction n) (auto simp: chunk_def min_def)

lemma sum_all_chunks:
  assumes "0 < pdl d"
  shows "(\<Sum>i<packets_for d len. chunk d len i) = len"
proof -
  have "\<not> packets_for d len * pdl d < len"
    using packets_for_iff [OF assms, of "packets_for d len" len] by simp
  then have "(\<Sum>i\<leftarrow>[0..<packets_for d len]. chunk d len i) = len"
    using sum_chunks [OF assms, of len "packets_for d len"] by simp
  then show ?thesis by (simp add: interv_sum_list_conv_sum_set_nat atLeast0LessThan)
qed

definition MAX_MESSAGE_PACKETS :: nat where "MAX_MESSAGE_PACKETS = 1024"

text \<open>The position of a loop that copies \<open>rest\<close> more bytes at byte \<open>len\<close> of a message.\<close>

definition fits :: "driver \<Rightarrow> nat \<Rightarrow> nat \<Rightarrow> int \<Rightarrow> int \<Rightarrow> bool" where
  "fits d len rest packetIndex packetOffset \<longleftrightarrow>
     (0 < rest \<longrightarrow> packetIndex = int (len div pdl d) \<and> packetOffset = int (len mod pdl d)) \<and>
     len + rest \<le> MAX_MESSAGE_PACKETS * pdl d"

lemma fits_advance:
  assumes "0 < pdl d" "fits d len rest pi po" "0 < rest" "n = min rest (pdl d - len mod pdl d)"
  shows "fits d (len + n) (rest - n) (pi + 1) 0" "0 < n" "n \<le> rest" "len mod pdl d + n \<le> pdl d"
proof -
  have m: "len mod pdl d < pdl d" using assms(1) by simp
  with assms(3,4) show "0 < n" "n \<le> rest" and le: "len mod pdl d + n \<le> pdl d"
    by auto
  have "(len + n) div pdl d = len div pdl d + 1 \<and> (len + n) mod pdl d = 0" if "n < rest"
  proof -
    from that assms(4) have n: "len mod pdl d + n = pdl d" using m by auto
    have "len + n = (len div pdl d + 1) * pdl d"
      using n div_mult_mod_eq [of len "pdl d"] unfolding add_mult_distrib by linarith
    then show ?thesis using assms(1) by simp
  qed
  with assms(2,3) \<open>n \<le> rest\<close> show "fits d (len + n) (rest - n) (pi + 1) 0"
    by (auto simp: fits_def)
qed

lemma int_min_chunk:
  "(rest :: int) = int r \<Longrightarrow> m \<le> p \<Longrightarrow> min rest (int p - int m) = int (min r (p - m))"
  by (auto simp: min_def of_nat_diff)

end
