(* ===== verification/Out_Message.thy ===== *)
theory Out_Message
  imports Driver
begin

text \<open>
  \<open>Sender::Message\<close> of src/Sender.h and src/Sender.cc as a container of bytes: its fields, the
  packets it fills and the operations by which an application builds its contents (\<open>append\<close>,
  \<open>prepend\<close>, \<open>reserve\<close>, \<open>length\<close>). The \<open>occupied\<close> bit set and the packet array are one partial
  function; \<open>std::bitset::test\<close> throws outside of the 1024 slots. A copy outside of a buffer, a
  signed overflow and a division by zero are undefined in C++ and are errors here.
\<close>

datatype status = NOT_STARTED | IN_PROGRESS | CANCELED | SENT | COMPLETED | FAILED

definition NONE :: u32 where "NONE = 0"
definition NO_RETRY :: u32 where "NO_RETRY = push_bit 0 1"
definition NO_KEEP_ALIVE :: u32 where "NO_KEEP_ALIVE = push_bit 1 1"

definition has_option :: "u32 \<Rightarrow> u32 \<Rightarrow> bool" where
  "has_option options flag \<longleftrightarrow> options AND flag \<noteq> 0"

definition combine_options :: "u32 \<Rightarrow> u32 \<Rightarrow> u32" where
  "combine_options lhs rhs = lhs OR rhs"

record queuedMessageInfo =
  qi_id :: messageId
  qi_destination :: socketAddress
  qi_packets :: "addr option"
  unsentBytes :: int
  packetsGranted :: int
  qi_priority :: int
  packetsSent :: int

definition null_address :: socketAddress where
  "null_address = \<lparr>sa_ip = \<lparr>ip_addr = 0\<rparr>, sa_port = 0\<rparr>"

definition QueuedMessageInfo :: queuedMessageInfo where
  "QueuedMessageInfo =
     \<lparr>qi_id = \<lparr>transportId = 0, sequence = 0\<rparr>, qi_destination = null_address, qi_packets = None,
      unsentBytes = 0, packetsGranted = 0, qi_priority = 0, packetsSent = 0\<rparr>"

record outMessage =
  om_TRANSPORT_HEADER_LENGTH :: int
  om_PACKET_DATA_LENGTH :: int
  om_id :: messageId
  om_source :: socketAddress
  om_destination :: socketAddress
  om_options :: u32
  om_held :: bool
  om_start :: int
  om_messageLength :: int
  om_numPackets :: int
  om_packets :: "nat \<rightharpoonup> packet"
  om_state :: status
  om_info :: queuedMessageInfo

definition OutMessage :: "driver \<Rightarrow> u16 \<Rightarrow> outMessage" where
  "OutMessage d sourcePort =
     \<lparr>om_TRANSPORT_HEADER_LENGTH = int sizeof_DataHeader,
      om_PACKET_DATA_LENGTH = int_of_u32 (maxPayloadSize d - of_nat sizeof_DataHeader),
      om_id = \<lparr>transportId = 0, sequence = 0\<rparr>,
      om_source = \<lparr>sa_ip = localAddress d, sa_port = sourcePort\<rparr>,
      om_destination = null_address, om_options = NONE, om_held = True, om_start = 0,
      om_messageLength = 0, om_numPackets = 0, om_packets = Map.empty, om_state = NOT_STARTED,
      om_info = QueuedMessageInfo\<rparr>"

section \<open>Packets of a message\<close>

definition getPacket :: "int \<Rightarrow> outMessage \<Rightarrow> packet option res" where
  "getPacket index m =
     require OutOfRange (0 \<le> index \<and> index < int MAX_MESSAGE_PACKETS) (Inr (om_packets m (nat index)))"

definition getOrAllocPacket :: "driver \<Rightarrow> int \<Rightarrow> outMessage \<Rightarrow> (packet \<times> outMessage) res" where
  "getOrAllocPacket d index m =
     require OutOfRange (0 \<le> index \<and> index < int MAX_MESSAGE_PACKETS)
       (case om_packets m (nat index) of
          Some p \<Rightarrow> Inr (p, m)
        | None \<Rightarrow>
            let p = (allocPacket d (nat index))\<lparr>plength := om_TRANSPORT_HEADER_LENGTH m\<rparr>
            in Inr (p, m\<lparr>om_packets := (om_packets m)(nat index \<mapsto> p),
                         om_numPackets := om_numPackets m + 1\<rparr>))"

text \<open>A write through the packet pointer.\<close>

definition setPacket :: "int \<Rightarrow> packet \<Rightarrow> outMessage \<Rightarrow> outMessage" where
  "setPacket index p m = m\<lparr>om_packets := (om_packets m)(nat index \<mapsto> p)\<rparr>"

definition copy_in :: "int \<Rightarrow> bytes \<Rightarrow> packet \<Rightarrow> packet res" where
  "copy_in off bs p =
     require OutOfRange (0 \<le> off \<and> nat off + length bs \<le> length (payload p))
       (Inr (p\<lparr>payload := memcpy (payload p) (nat off) bs\<rparr>))"

definition read_source :: "int \<Rightarrow> int \<Rightarrow> bytes \<Rightarrow> bytes res" where
  "read_source off n src =
     require OutOfRange (0 \<le> off \<and> 0 \<le> n \<and> off + n \<le> int (length src))
       (Inr (take (nat n) (drop (nat off) src)))"

section \<open>Building the contents\<close>

text \<open>The loops run until every byte is copied; \<open>fuel\<close> bounds the number of rounds by the number
  of bytes.\<close>

fun append_loop ::
  "driver \<Rightarrow> nat \<Rightarrow> bytes \<Rightarrow> int \<Rightarrow> int \<Rightarrow> int \<Rightarrow> int \<Rightarrow> outMessage \<Rightarrow> outMessage res" where
  "append_loop d fuel source cnt packetIndex packetOffset bytesCopied m =
     (if bytesCopied < cnt then
        case fuel of
          0 \<Rightarrow> Inl OutOfFuel
        | Suc fuel' \<Rightarrow>
            let bytesToCopy = min (cnt - bytesCopied) (om_PACKET_DATA_LENGTH m - packetOffset)
            in bindr (getOrAllocPacket d packetIndex m) (\<lambda>(p, m1).
               bindr (read_source bytesCopied bytesToCopy source) (\<lambda>bs.
               bindr (copy_in (packetOffset + om_TRANSPORT_HEADER_LENGTH m) bs p) (\<lambda>p1.
               let p2 = p1\<lparr>plength := plength p1 + bytesToCopy\<rparr>
               in require AssertionFailed
                    (plength p2 \<le> om_TRANSPORT_HEADER_LENGTH m + om_PACKET_DATA_LENGTH m)
                    (append_loop d fuel' source cnt (packetIndex + 1) 0 (bytesCopied + bytesToCopy)
                       (setPacket packetIndex p2 m1)))))
      else Inr m)"

definition maxMessageLength :: "outMessage \<Rightarrow> int" where
  "maxMessageLength m = int_of_u64 (word_of_int (om_PACKET_DATA_LENGTH m) * of_nat MAX_MESSAGE_PACKETS)"

definition om_append :: "driver \<Rightarrow> bytes \<Rightarrow> u64 \<Rightarrow> outMessage \<Rightarrow> outMessage res" where
  "om_append d source cnt m =
     bindr (downCast_int cnt) (\<lambda>c0.
       require DivideByZero (om_PACKET_DATA_LENGTH m \<noteq> 0)
         (let packetIndex = cdiv (om_messageLength m) (om_PACKET_DATA_LENGTH m);
              packetOffset = cmod (om_messageLength m) (om_PACKET_DATA_LENGTH m)
          in require SignedOverflow (in_int32 (om_messageLength m + c0))
            (let c = (if om_messageLength m + c0 > maxMessageLength m
                      then maxMessageLength m - om_messageLength m else c0)
             in bindr (append_loop d (nat c) source c packetIndex packetOffset 0 m)
                  (\<lambda>m'. Inr (m'\<lparr>om_messageLength := om_messageLength m' + c\<rparr>)))))"

fun prepend_loop :: "nat \<Rightarrow> bytes \<Rightarrow> int \<Rightarrow> int \<Rightarrow> int \<Rightarrow> int \<Rightarrow> outMessage \<Rightarrow> outMessage res" where
  "prepend_loop fuel source cnt packetIndex packetOffset bytesCopied m =
     (if bytesCopied < cnt then
        case fuel of
          0 \<Rightarrow> Inl OutOfFuel
        | Suc fuel' \<Rightarrow>
            let bytesToCopy = min (cnt - bytesCopied) (om_PACKET_DATA_LENGTH m - packetOffset)
            in bindr (getPacket packetIndex m) (\<lambda>q.
               case q of
                 None \<Rightarrow> Inl AssertionFailed
               | Some p \<Rightarrow>
                   bindr (read_source bytesCopied bytesToCopy source) (\<lambda>bs.
                   bindr (copy_in (packetOffset + om_TRANSPORT_HEADER_LENGTH m) bs p) (\<lambda>p1.
                     prepend_loop fuel' source cnt (packetIndex + 1) 0 (bytesCopied + bytesToCopy)
                       (setPacket packetIndex p1 m))))
      else Inr m)"

definition om_prepend :: "bytes \<Rightarrow> u64 \<Rightarrow> outMessage \<Rightarrow> outMessage res" where
  "om_prepend source cnt m =
     bindr (downCast_int cnt) (\<lambda>c.
       require AssertionFailed (c \<le> om_start m)
         (let m1 = m\<lparr>om_start := om_start m - c\<rparr>
          in require DivideByZero (om_PACKET_DATA_LENGTH m \<noteq> 0)
            (prepend_loop (nat c) source c (cdiv (om_start m1) (om_PACKET_DATA_LENGTH m))
               (cmod (om_start m1) (om_PACKET_DATA_LENGTH m)) 0 m1)))"

fun reserve_loop :: "driver \<Rightarrow> nat \<Rightarrow> int \<Rightarrow> int \<Rightarrow> int \<Rightarrow> int \<Rightarrow> outMessage \<Rightarrow> outMessage res" where
  "reserve_loop d fuel cnt packetIndex packetOffset bytesReserved m =
     (if bytesReserved < cnt then
        case fuel of
          0 \<Rightarrow> Inl OutOfFuel
        | Suc fuel' \<Rightarrow>
            let bytesToReserve = min (cnt - bytesReserved) (om_PACKET_DATA_LENGTH m - packetOffset)
            in bindr (getOrAllocPacket d packetIndex m) (\<lambda>(p, m1).
               let p2 = p\<lparr>plength := plength p + bytesToReserve\<rparr>
               in require AssertionFailed
                    (plength p2 \<le> om_TRANSPORT_HEADER_LENGTH m + om_PACKET_DATA_LENGTH m)
                    (reserve_loop d fuel' cnt (packetIndex + 1) 0 (bytesReserved + bytesToReserve)
                       (setPacket packetIndex p2 m1)))
      else Inr m)"

definition om_reserve :: "driver \<Rightarrow> u64 \<Rightarrow> outMessage \<Rightarrow> outMessage res" where
  "om_reserve d cnt m =
     bindr (downCast_int cnt) (\<lambda>c0.
       require AssertionFailed (om_start m = om_messageLength m)
         (require DivideByZero (om_PACKET_DATA_LENGTH m \<noteq> 0)
           (let packetIndex = cdiv (om_start m) (om_PACKET_DATA_LENGTH m);
                packetOffset = cmod (om_start m) (om_PACKET_DATA_LENGTH m)
            in require SignedOverflow (in_int32 (om_start m + c0))
              (let c = (if om_start m + c0 > maxMessageLength m
                        then maxMessageLength m - om_start m else c0)
               in bindr (reserve_loop d (nat c) c packetIndex packetOffset 0 m)
                    (\<lambda>m'. Inr (m'\<lparr>om_start := om_start m' + c,
                                  om_messageLength := om_messageLength m' + c\<rparr>))))))"

definition om_length :: "outMessage \<Rightarrow> u64 res" where
  "om_length m = downCast_size (om_messageLength m - om_start m)"

definition getStatus :: "outMessage \<Rightarrow> status" where
  "getStatus m = om_state m"

declare append_loop.simps [simp del] prepend_loop.simps [simp del] reserve_loop.simps [simp del]

section \<open>Layout\<close>

text \<open>The first \<open>len\<close> bytes of data are laid out in full packets and a last partial one.\<close>

definition packet_ok :: "driver \<Rightarrow> nat \<Rightarrow> packet \<Rightarrow> bool" where
  "packet_ok d n p \<longleftrightarrow>
     plength p = int sizeof_DataHeader + int n \<and> length (payload p) = unat (maxPayloadSize d)"

definition om_layout :: "driver \<Rightarrow> nat \<Rightarrow> outMessage \<Rightarrow> bool" where
  "om_layout d len m \<longleftrightarrow>
     om_TRANSPORT_HEADER_LENGTH m = int sizeof_DataHeader \<and>
     om_PACKET_DATA_LENGTH m = int (pdl d) \<and>
     om_numPackets m = int (packets_for d len) \<and>
     len \<le> MAX_MESSAGE_PACKETS * pdl d \<and>
     (\<forall>i. case om_packets m i of
            Some p \<Rightarrow> i < packets_for d len \<and> packet_ok d (chunk d len i) p
          | None \<Rightarrow> packets_for d len \<le> i)"

definition om_wf :: "driver \<Rightarrow> outMessage \<Rightarrow> bool" where
  "om_wf d m \<longleftrightarrow>
     om_layout d (nat (om_messageLength m)) m \<and> 0 \<le> om_start m \<and> om_start m \<le> om_messageLength m"

definition om_byte :: "driver \<Rightarrow> outMessage \<Rightarrow> nat \<Rightarrow> u8" where
  "om_byte d m k = payload (the (om_packets m (k div pdl d))) ! (sizeof_DataHeader + k mod pdl d)"

text \<open>The contents of a message as the application sees them, and with the reserved bytes.\<close>

definition om_buffer :: "driver \<Rightarrow> outMessage \<Rightarrow> bytes" where
  "om_buffer d m = map (om_byte d m) [0..<nat (om_messageLength m)]"

definition om_contents :: "driver \<Rightarrow> outMessage \<Rightarrow> bytes" where
  "om_contents d m = drop (nat (om_start m)) (om_buffer d m)"

lemma getOrAlloc_at_end:
  assumes "driver_ok d" "om_layout d len m" "len < MAX_MESSAGE_PACKETS * pdl d"
  obtains p where
    "getOrAllocPacket d (int (len div pdl d)) m =
       Inr (p, m\<lparr>om_packets := (om_packets m)(len div pdl d \<mapsto> p), om_numPackets := int (len div pdl d + 1)\<rparr>)"
    "packet_ok d (len mod pdl d) p"
    "len mod pdl d \<noteq> 0 \<longrightarrow> om_packets m (len div pdl d) = Some p"
proof -
  let ?i = "len div pdl d"
  have p: "0 < pdl d" using assms(1) by (rule pdl_pos)
  have i: "?i < MAX_MESSAGE_PACKETS"
    using assms(3) p by (simp add: less_mult_imp_div_less)
  have n: "om_numPackets m = int (packets_for d len)" and h: "om_TRANSPORT_HEADER_LENGTH m = int sizeof_DataHeader"
    using assms(2) by (simp_all add: om_layout_def)
  have c: "chunk d len ?i = len mod pdl d"
    using chunk_grow(2) [OF p, of len 0] p by (simp add: less_imp_le)
  have lay: "case om_packets m ?i of Some p \<Rightarrow> ?i < packets_for d len \<and> packet_ok d (chunk d len ?i) p
      | None \<Rightarrow> packets_for d len \<le> ?i"
    using assms(2) unfolding om_layout_def by blast
  show ?thesis
  proof (cases "om_packets m ?i")
    case None
    with lay packets_for_div [OF p, of len] have z: "len mod pdl d = 0" and pf: "packets_for d len = ?i"
      by (auto split: if_splits)
    define q where "q = (allocPacket d ?i)\<lparr>plength := om_TRANSPORT_HEADER_LENGTH m\<rparr>"
    have "packet_ok d 0 q"
      using assms(1) h by (simp add: q_def allocPacket_def packet_ok_def driver_ok_def)
    with that [of q] None i z pf n show ?thesis
      by (simp add: getOrAllocPacket_def q_def Let_def add.commute)
  next
    case (Some q)
    with lay packets_for_div [OF p, of len] have pf: "packets_for d len = ?i + 1"
      and ok: "packet_ok d (chunk d len ?i) q"
      by (auto split: if_splits)
    have "m\<lparr>om_packets := (om_packets m)(?i \<mapsto> q), om_numPackets := int (?i + 1)\<rparr> = m"
      using Some n pf by (simp add: fun_upd_idem)
    with that [of q] Some i ok c show ?thesis
      by (simp add: getOrAllocPacket_def)
  qed
qed

lemma layout_put:
  assumes "driver_ok d" "om_layout d len m" "0 < n" "len mod pdl d + n \<le> pdl d"
    "len + n \<le> MAX_MESSAGE_PACKETS * pdl d" "packet_ok d (len mod pdl d + n) p"
  shows "om_layout d (len + n)
    (m\<lparr>om_packets := (om_packets m)(len div pdl d \<mapsto> p), om_numPackets := int (len div pdl d + 1)\<rparr>)"
proof -
  let ?i = "len div pdl d"
  have pos: "0 < pdl d" using assms(1) by (rule pdl_pos)
  note grow = packets_for_grow [OF pos assms(3,4)] chunk_grow [OF pos assms(4)]
  have "case ((om_packets m)(?i \<mapsto> p)) j of
          Some q \<Rightarrow> j < packets_for d (len + n) \<and> packet_ok d (chunk d (len + n) j) q
        | None \<Rightarrow> packets_for d (len + n) \<le> j" for j
  proof (cases "j = ?i")
    case False
    have lay: "case om_packets m j of Some q \<Rightarrow> j < packets_for d len \<and> packet_ok d (chunk d len j) q
        | None \<Rightarrow> packets_for d len \<le> j"
      using assms(2) unfolding om_layout_def by blast
    have "packets_for d len \<le> ?i + 1" "?i \<le> packets_for d len"
      using packets_for_div [OF pos, of len] by auto
    with False lay grow show ?thesis
      by (auto split: option.splits)
  qed (use grow assms(6) in simp)
  then show ?thesis
    using assms(2,5) grow(1) by (simp add: om_layout_def)
qed

lemma om_byte_put:
  "om_byte d (m\<lparr>om_packets := (om_packets m)(i \<mapsto> p), om_numPackets := n\<rparr>) k =
     (if k div pdl d = i then payload p ! (sizeof_DataHeader + k mod pdl d) else om_byte d m k)"
  by (simp add: om_byte_def)

section \<open>Append\<close>

lemma setPacket_put:
  "setPacket (int i) q (m\<lparr>om_packets := (om_packets m)(i \<mapsto> p), om_numPackets := n\<rparr>) =
     m\<lparr>om_packets := (om_packets m)(i \<mapsto> q), om_numPackets := n\<rparr>"
  by (cases m) (simp add: setPacket_def)

lemma append_step:
  assumes ok: "driver_ok d" "om_layout d len m" and f: "fits d len rest pi po" "0 < rest"
    and src: "c + rest \<le> length src" and n: "n = min rest (pdl d - len mod pdl d)"
  obtains p where
    "append_loop d (Suc fuel) src (int (c + rest)) pi po (int c) m =
       append_loop d fuel src (int (c + rest)) (pi + 1) 0 (int (c + n))
         (m\<lparr>om_packets := (om_packets m)(len div pdl d \<mapsto> p), om_numPackets := int (len div pdl d + 1)\<rparr>)"
    "om_layout d (len + n)
         (m\<lparr>om_packets := (om_packets m)(len div pdl d \<mapsto> p), om_numPackets := int (len div pdl d + 1)\<rparr>)"
    "\<And>k. k < len \<Longrightarrow> k div pdl d = len div pdl d \<Longrightarrow>
       payload p ! (sizeof_DataHeader + k mod pdl d) = om_byte d m k"
    "\<And>k. k < n \<Longrightarrow> payload p ! (sizeof_DataHeader + len mod pdl d + k) = src ! (c + k)"
proof -
  let ?i = "len div pdl d" and ?o = "len mod pdl d"
  have pos: "0 < pdl d" using ok(1) by (rule pdl_pos)
  note adv = fits_advance [OF pos f n]
  have lim: "len < MAX_MESSAGE_PACKETS * pdl d" "len + n \<le> MAX_MESSAGE_PACKETS * pdl d"
    using f adv(3) by (auto simp: fits_def)
  obtain p where p: "getOrAllocPacket d (int ?i) m =
       Inr (p, m\<lparr>om_packets := (om_packets m)(?i \<mapsto> p), om_numPackets := int (?i + 1)\<rparr>)"
    "packet_ok d ?o p" "?o \<noteq> 0 \<longrightarrow> om_packets m ?i = Some p"
    using getOrAlloc_at_end [OF ok lim(1)] by blast
  define bs where "bs = take n (drop c src)"
  have bs: "length bs = n" using src adv(3) by (simp add: bs_def)
  define q where "q = p\<lparr>payload := memcpy (payload p) (sizeof_DataHeader + ?o) bs,
                         plength := plength p + int n\<rparr>"
  have room: "sizeof_DataHeader + ?o + n \<le> length (payload p)"
    using p(2) adv(4) pdl_bound [OF ok(1)] by (simp add: packet_ok_def)
  have q: "packet_ok d (?o + n) q"
    using p(2) room bs by (simp add: packet_ok_def q_def)
  have h: "om_TRANSPORT_HEADER_LENGTH m = int sizeof_DataHeader" "om_PACKET_DATA_LENGTH m = int (pdl d)"
    using ok(2) by (simp_all add: om_layout_def)
  have pi: "pi = int ?i" "po = int ?o" using f by (simp_all add: fits_def)
  have min: "min (int rest) (int (pdl d) - int ?o) = int n"
    using n pos by (simp add: int_min_chunk less_imp_le)
  have read: "read_source (int c) (int n) src = Inr bs"
    using src adv(3) by (simp add: read_source_def bs_def)
  have copy: "copy_in (int ?o + int sizeof_DataHeader) bs p =
      Inr (p\<lparr>payload := memcpy (payload p) (sizeof_DataHeader + ?o) bs\<rparr>)"
    using room bs by (simp add: copy_in_def nat_add_distrib add.commute)
  have step: "append_loop d (Suc fuel) src (int (c + rest)) pi po (int c) m =
       append_loop d fuel src (int (c + rest)) (pi + 1) 0 (int (c + n))
         (m\<lparr>om_packets := (om_packets m)(?i \<mapsto> q), om_numPackets := int (?i + 1)\<rparr>)"
    using f(2) p(1,2) q adv(4)
    by (subst append_loop.simps)
      (simp add: pi h min read copy Let_def setPacket_put q_def packet_ok_def)
  show ?thesis
  proof (rule that [OF step layout_put [OF ok adv(2,4) lim(2) q]])
    fix k assume k: "k < len" "k div pdl d = ?i"
    then have "k = ?i * pdl d + k mod pdl d"
      by (metis div_mult_mod_eq)
    moreover have "len = ?i * pdl d + ?o"
      by simp
    ultimately have lt: "k mod pdl d < ?o"
      using k(1) by linarith
    then have "om_packets m ?i = Some p" using p(3) by auto
    with lt k room bs show "payload q ! (sizeof_DataHeader + k mod pdl d) = om_byte d m k"
      by (simp add: q_def om_byte_def nth_memcpy)
  next
    fix k assume "k < n"
    with room bs src adv(3) show "payload q ! (sizeof_DataHeader + ?o + k) = src ! (c + k)"
      by (simp add: q_def nth_memcpy) (simp add: bs_def)
  qed
qed

lemma append_loop_done: "cnt \<le> bc \<Longrightarrow> append_loop d fuel src cnt pi po bc m = Inr m"
  by (subst append_loop.simps) simp

lemma append_loop_correct:
  assumes "driver_ok d"
  shows "\<lbrakk>om_layout d len m; fits d len rest pi po; c + rest \<le> length src; rest \<le> fuel\<rbrakk> \<Longrightarrow>
    \<exists>pk np. append_loop d fuel src (int (c + rest)) pi po (int c) m =
              Inr (m\<lparr>om_packets := pk, om_numPackets := np\<rparr>) \<and>
            om_layout d (len + rest) (m\<lparr>om_packets := pk, om_numPackets := np\<rparr>) \<and>
            (\<forall>k < len. om_byte d (m\<lparr>om_packets := pk, om_numPackets := np\<rparr>) k = om_byte d m k) \<and>
            (\<forall>k < rest. om_byte d (m\<lparr>om_packets := pk, om_numPackets := np\<rparr>) (len + k) = src ! (c + k))"
proof (induction fuel arbitrary: len rest pi po c m)
  case 0
  then show ?case
    by (intro exI [of _ "om_packets m"] exI [of _ "om_numPackets m"]) (simp add: append_loop_done)
next
  case (Suc fuel)
  show ?case
  proof (cases "rest = 0")
    case True
    with Suc.prems show ?thesis
      by (intro exI [of _ "om_packets m"] exI [of _ "om_numPackets m"]) (simp add: append_loop_done)
  next
    case False
    let ?i = "len div pdl d"
    have pos: "0 < pdl d" using assms by (rule pdl_pos)
    define n where "n = min rest (pdl d - len mod pdl d)"
    from False have rest: "0 < rest" by simp
    note adv = fits_advance [OF pos Suc.prems(2) rest n_def]
    obtain p where step:
      "append_loop d (Suc fuel) src (int (c + rest)) pi po (int c) m =
       append_loop d fuel src (int (c + rest)) (pi + 1) 0 (int (c + n))
         (m\<lparr>om_packets := (om_packets m)(?i \<mapsto> p), om_numPackets := int (?i + 1)\<rparr>)"
      and lay: "om_layout d (len + n)
         (m\<lparr>om_packets := (om_packets m)(?i \<mapsto> p), om_numPackets := int (?i + 1)\<rparr>)"
      and old: "\<And>k. k < len \<Longrightarrow> k div pdl d = ?i \<Longrightarrow>
       payload p ! (sizeof_DataHeader + k mod pdl d) = om_byte d m k"
      and new: "\<And>k. k < n \<Longrightarrow> payload p ! (sizeof_DataHeader + len mod pdl d + k) = src ! (c + k)"
      using append_step [OF assms Suc.prems(1,2) rest Suc.prems(3) n_def] by metis
    let ?m = "m\<lparr>om_packets := (om_packets m)(?i \<mapsto> p), om_numPackets := int (?i + 1)\<rparr>"
    have cr: "c + n + (rest - n) = c + rest" using adv(3) by simp
    obtain pk np where IH:
      "append_loop d fuel src (int (c + rest)) (pi + 1) 0 (int (c + n)) ?m =
         Inr (?m\<lparr>om_packets := pk, om_numPackets := np\<rparr>)"
      "om_layout d (len + rest) (?m\<lparr>om_packets := pk, om_numPackets := np\<rparr>)"
      "\<forall>k < len + n. om_byte d (?m\<lparr>om_packets := pk, om_numPackets := np\<rparr>) k = om_byte d ?m k"
      "\<forall>k < rest - n. om_byte d (?m\<lparr>om_packets := pk, om_numPackets := np\<rparr>) (len + n + k) = src ! (c + n + k)"
      using Suc.IH [OF lay adv(1), of "c + n"] Suc.prems(3,4) adv(2,3) unfolding cr by fastforce
    have upd: "?m\<lparr>om_packets := pk, om_numPackets := np\<rparr> = m\<lparr>om_packets := pk, om_numPackets := np\<rparr>"
      by (cases m) simp
    have byte: "om_byte d ?m (len + k) = src ! (c + k)" if "k < n" for k
    proof -
      have lt: "len mod pdl d + k < pdl d" using that adv(4) by linarith
      have e: "len + k = ?i * pdl d + (len mod pdl d + k)" by simp
      have "(len + k) div pdl d = ?i" "(len + k) mod pdl d = len mod pdl d + k"
        using div_mod_parts [OF lt, of ?i] unfolding e [symmetric] by blast+
      with new [OF that] show ?thesis by (simp add: om_byte_put add.assoc)
    qed
    have "om_byte d (m\<lparr>om_packets := pk, om_numPackets := np\<rparr>) k = om_byte d m k" if "k < len" for k
      using IH(3) that old [of k] unfolding upd by (simp add: om_byte_put)
    moreover have "om_byte d (m\<lparr>om_packets := pk, om_numPackets := np\<rparr>) (len + k) = src ! (c + k)"
      if k: "k < rest" for k
    proof (cases "k < n")
      case True
      with IH(3) byte show ?thesis unfolding upd by simp
    next
      case False
      with IH(4) [rule_format, of "k - n"] k show ?thesis unfolding upd by simp
    qed
    ultimately show ?thesis
      using step IH(1,2) unfolding upd by auto
  qed
qed

lemma int_of_u64_small: "w < 2 ^ 31 \<Longrightarrow> 0 \<le> w \<Longrightarrow> int_of_u64 (word_of_int w) = w"
proof -
  assume w: "w < 2 ^ 31" "0 \<le> w"
  then have u: "unat (word_of_int w :: u64) = nat w"
    by (simp add: unat_eq_nat_uint uint_word_of_int)
  then have "downCast_int (word_of_int w) = Inr (int (unat (word_of_int w :: u64)))"
    using w by (intro downCast_int_small) (simp add: nat_less_iff)
  with u w show ?thesis by (simp add: downCast_int_def Let_def require_def split: if_splits)
qed

lemma maxMessageLength_layout:
  assumes "driver_ok d" "om_layout d len m"
  shows "maxMessageLength m = int (MAX_MESSAGE_PACKETS * pdl d)"
    and "MAX_MESSAGE_PACKETS * pdl d < 2 ^ 26"
proof -
  have p: "pdl d < 2 ^ 16" using pdl_bound [OF assms(1)] by simp
  then show "MAX_MESSAGE_PACKETS * pdl d < 2 ^ 26"
    by (simp add: MAX_MESSAGE_PACKETS_def)
  have "om_PACKET_DATA_LENGTH m = int (pdl d)" using assms(2) by (simp add: om_layout_def)
  moreover have "word_of_int (int (pdl d)) * of_nat MAX_MESSAGE_PACKETS =
      (word_of_int (int (MAX_MESSAGE_PACKETS * pdl d)) :: u64)"
    by (simp add: MAX_MESSAGE_PACKETS_def mult.commute)
  moreover have "int_of_u64 (word_of_int (int (MAX_MESSAGE_PACKETS * pdl d))) = int (MAX_MESSAGE_PACKETS * pdl d)"
    using p by (intro int_of_u64_small) (simp_all add: MAX_MESSAGE_PACKETS_def)
  ultimately show "maxMessageLength m = int (MAX_MESSAGE_PACKETS * pdl d)"
    by (simp only: maxMessageLength_def)
qed

text \<open>The number of bytes the limit of 1024 packets leaves room for.\<close>

definition room_for :: "driver \<Rightarrow> nat \<Rightarrow> nat \<Rightarrow> nat" where
  "room_for d len cnt = min cnt (MAX_MESSAGE_PACKETS * pdl d - len)"

lemma fits_start:
  "len \<le> MAX_MESSAGE_PACKETS * pdl d \<Longrightarrow> fits d len (room_for d len cnt) (int (len div pdl d)) (int (len mod pdl d))"
  by (auto simp: fits_def room_for_def)

text \<open>What the prefix of \<open>append\<close> and of \<open>reserve\<close> computes: the position of the end of the data
  and the number of bytes to add.\<close>

lemma clamp_count:
  assumes "driver_ok d" "om_layout d len m" "c < 2 ^ 31 - 2 ^ 26"
  shows "in_int32 (int len + int c)"
    and "(if int len + int c > maxMessageLength m then maxMessageLength m - int len else int c) =
         int (room_for d len c)"
proof -
  have l: "len \<le> MAX_MESSAGE_PACKETS * pdl d" using assms(2) by (simp add: om_layout_def)
  note mx = maxMessageLength_layout [OF assms(1,2)]
  have "len + c < 2 ^ 31" using l mx(2) assms(3) by simp
  then show "in_int32 (int len + int c)"
    by (simp add: in_int32_def)
  show "(if int len + int c > maxMessageLength m then maxMessageLength m - int len else int c) =
         int (room_for d len c)"
    unfolding mx(1) room_for_def using l by (auto simp: min_def of_nat_diff simp del: of_nat_mult)
qed

lemma om_layout_cong:
  "om_layout d len (m\<lparr>om_messageLength := a\<rparr>) = om_layout d len m"
  "om_layout d len (m\<lparr>om_start := b\<rparr>) = om_layout d len m"
  "om_byte d (m\<lparr>om_messageLength := a\<rparr>) = om_byte d m"
  "om_byte d (m\<lparr>om_start := b\<rparr>) = om_byte d m"
  by (simp_all add: om_layout_def om_byte_def fun_eq_iff)

lemma om_append_eq:
  assumes "driver_ok d" "om_wf d m" "c < 2 ^ 31 - 2 ^ 26" "c \<le> length src" "downCast_int cnt = Inr (int c)"
  defines "len \<equiv> nat (om_messageLength m)"
  defines "n \<equiv> room_for d len c"
  shows "\<exists>pk np. let m' = m\<lparr>om_packets := pk, om_numPackets := np, om_messageLength := int (len + n)\<rparr>
    in om_append d src cnt m = Inr m' \<and> om_wf d m' \<and> om_buffer d m' = om_buffer d m @ take n src"
proof -
  have lay: "om_layout d len m" and s: "0 \<le> om_start m" "om_start m \<le> om_messageLength m"
    using assms(2) by (simp_all add: om_wf_def len_def)
  have ml: "om_messageLength m = int len" using s by (simp add: len_def)
  have pos: "0 < pdl d" using assms(1) by (rule pdl_pos)
  have P: "om_PACKET_DATA_LENGTH m = int (pdl d)" and le: "len \<le> MAX_MESSAGE_PACKETS * pdl d"
    using lay by (simp_all add: om_layout_def)
  note cl = clamp_count [OF assms(1) lay assms(3)]
  have nle: "n \<le> length src" using assms(4) by (simp add: n_def room_for_def)
  obtain pk np where loop:
    "append_loop d n src (int n) (int (len div pdl d)) (int (len mod pdl d)) 0 m =
       Inr (m\<lparr>om_packets := pk, om_numPackets := np\<rparr>)"
    "om_layout d (len + n) (m\<lparr>om_packets := pk, om_numPackets := np\<rparr>)"
    "\<forall>k < len. om_byte d (m\<lparr>om_packets := pk, om_numPackets := np\<rparr>) k = om_byte d m k"
    "\<forall>k < n. om_byte d (m\<lparr>om_packets := pk, om_numPackets := np\<rparr>) (len + k) = src ! k"
    using append_loop_correct [OF assms(1) lay fits_start [OF le, of c], of 0 src n] nle
    by (auto simp: n_def)
  let ?m = "m\<lparr>om_packets := pk, om_numPackets := np, om_messageLength := int (len + n)\<rparr>"
  have "om_append d src cnt m = Inr ?m"
    using loop(1) pos cl(1) by (simp add: om_append_def assms(5) P ml cl(2) Let_def n_def zdiv_int zmod_int
      cong: if_cong split del: if_split)
  moreover have "om_wf d ?m"
    using loop(2) s ml by (simp add: om_wf_def om_layout_cong nat_int_add)
  moreover have "om_buffer d ?m = om_buffer d m @ take n src"
  proof (rule nth_equalityI)
    show "length (om_buffer d ?m) = length (om_buffer d m @ take n src)"
      using nle ml by (simp add: om_buffer_def)
    fix i assume "i < length (om_buffer d ?m)"
    then have i: "i < len + n" by (simp add: om_buffer_def)
    show "om_buffer d ?m ! i = (om_buffer d m @ take n src) ! i"
    proof (cases "i < len")
      case True
      with loop(3) ml show ?thesis by (simp add: om_buffer_def nth_append om_layout_cong)
    next
      case False
      with loop(4) [rule_format, of "i - len"] i ml show ?thesis
        by (simp add: om_buffer_def nth_append om_layout_cong)
    qed
  qed
  ultimately show ?thesis by (auto simp: Let_def)
qed

section \<open>Reserve\<close>

lemma reserve_loop_done: "cnt \<le> br \<Longrightarrow> reserve_loop d fuel cnt pi po br m = Inr m"
  by (subst reserve_loop.simps) simp

lemma reserve_step:
  assumes ok: "driver_ok d" "om_layout d len m" and f: "fits d len rest pi po" "0 < rest"
    and n: "n = min rest (pdl d - len mod pdl d)"
  obtains p where
    "reserve_loop d (Suc fuel) (int (c + rest)) pi po (int c) m =
       reserve_loop d fuel (int (c + rest)) (pi + 1) 0 (int (c + n))
         (m\<lparr>om_packets := (om_packets m)(len div pdl d \<mapsto> p), om_numPackets := int (len div pdl d + 1)\<rparr>)"
    "om_layout d (len + n)
         (m\<lparr>om_packets := (om_packets m)(len div pdl d \<mapsto> p), om_numPackets := int (len div pdl d + 1)\<rparr>)"
proof -
  let ?i = "len div pdl d" and ?o = "len mod pdl d"
  have pos: "0 < pdl d" using ok(1) by (rule pdl_pos)
  note adv = fits_advance [OF pos f n]
  have lim: "len < MAX_MESSAGE_PACKETS * pdl d" "len + n \<le> MAX_MESSAGE_PACKETS * pdl d"
    using f adv(3) by (auto simp: fits_def)
  obtain p where p: "getOrAllocPacket d (int ?i) m =
       Inr (p, m\<lparr>om_packets := (om_packets m)(?i \<mapsto> p), om_numPackets := int (?i + 1)\<rparr>)"
    "packet_ok d ?o p"
    using getOrAlloc_at_end [OF ok lim(1)] by blast
  define q where "q = p\<lparr>plength := plength p + int n\<rparr>"
  have q: "packet_ok d (?o + n) q"
    using p(2) by (simp add: packet_ok_def q_def)
  have h: "om_TRANSPORT_HEADER_LENGTH m = int sizeof_DataHeader" "om_PACKET_DATA_LENGTH m = int (pdl d)"
    using ok(2) by (simp_all add: om_layout_def)
  have pi: "pi = int ?i" "po = int ?o" using f by (simp_all add: fits_def)
  have min: "min (int rest) (int (pdl d) - int ?o) = int n"
    using n pos by (simp add: int_min_chunk less_imp_le)
  have step: "reserve_loop d (Suc fuel) (int (c + rest)) pi po (int c) m =
       reserve_loop d fuel (int (c + rest)) (pi + 1) 0 (int (c + n))
         (m\<lparr>om_packets := (om_packets m)(?i \<mapsto> q), om_numPackets := int (?i + 1)\<rparr>)"
    using f(2) p(1,2) q adv(4)
    by (subst reserve_loop.simps) (simp add: pi h min Let_def setPacket_put q_def packet_ok_def)
  show ?thesis
    by (rule that [OF step layout_put [OF ok adv(2,4) lim(2) q]])
qed

lemma reserve_loop_correct:
  assumes "driver_ok d"
  shows "\<lbrakk>om_layout d len m; fits d len rest pi po; rest \<le> fuel\<rbrakk> \<Longrightarrow>
    \<exists>pk np. reserve_loop d fuel (int (c + rest)) pi po (int c) m =
              Inr (m\<lparr>om_packets := pk, om_numPackets := np\<rparr>) \<and>
            om_layout d (len + rest) (m\<lparr>om_packets := pk, om_numPackets := np\<rparr>)"
proof (induction fuel arbitrary: len rest pi po c m)
  case 0
  then show ?case
    by (intro exI [of _ "om_packets m"] exI [of _ "om_numPackets m"]) (simp add: reserve_loop_done)
next
  case (Suc fuel)
  show ?case
  proof (cases "rest = 0")
    case True
    with Suc.prems show ?thesis
      by (intro exI [of _ "om_packets m"] exI [of _ "om_numPackets m"]) (simp add: reserve_loop_done)
  next
    case False
    define n where "n = min rest (pdl d - len mod pdl d)"
    from False have rest: "0 < rest" by simp
    note adv = fits_advance [OF pdl_pos [OF assms] Suc.prems(2) rest n_def]
    obtain pk np where step:
      "reserve_loop d (Suc fuel) (int (c + rest)) pi po (int c) m =
       reserve_loop d fuel (int (c + rest)) (pi + 1) 0 (int (c + n)) (m\<lparr>om_packets := pk, om_numPackets := np\<rparr>)"
      and lay: "om_layout d (len + n) (m\<lparr>om_packets := pk, om_numPackets := np\<rparr>)"
      using reserve_step [OF assms Suc.prems(1,2) rest n_def] by metis
    have cr: "c + n + (rest - n) = c + rest" "len + n + (rest - n) = len + rest"
      using adv(3) by simp_all
    have "rest - n \<le> fuel" using Suc.prems(3) adv(2) by simp
    from Suc.IH [OF lay adv(1) this, of "c + n"] show ?thesis
      unfolding cr step by auto
  qed
qed

lemma om_reserve_correct:
  assumes "driver_ok d" "om_wf d m" "om_start m = om_messageLength m" "c < 2 ^ 31 - 2 ^ 26"
    "downCast_int cnt = Inr (int c)"
  defines "len \<equiv> nat (om_messageLength m)"
  defines "n \<equiv> room_for d len c"
  shows "\<exists>pk np. let m' = m\<lparr>om_packets := pk, om_numPackets := np, om_start := int (len + n),
                            om_messageLength := int (len + n)\<rparr>
    in om_reserve d cnt m = Inr m' \<and> om_wf d m'"
proof -
  have lay: "om_layout d len m" and s: "0 \<le> om_start m" "om_start m \<le> om_messageLength m"
    using assms(2) by (simp_all add: om_wf_def len_def)
  have ml: "om_messageLength m = int len" "om_start m = int len"
    using s assms(3) by (simp_all add: len_def)
  have P: "om_PACKET_DATA_LENGTH m = int (pdl d)" and le: "len \<le> MAX_MESSAGE_PACKETS * pdl d"
    using lay by (simp_all add: om_layout_def)
  note cl = clamp_count [OF assms(1) lay assms(4)]
  obtain pk np where loop:
    "reserve_loop d n (int n) (int (len div pdl d)) (int (len mod pdl d)) 0 m =
       Inr (m\<lparr>om_packets := pk, om_numPackets := np\<rparr>)"
    "om_layout d (len + n) (m\<lparr>om_packets := pk, om_numPackets := np\<rparr>)"
    using reserve_loop_correct [OF assms(1) lay fits_start [OF le, of c], of n 0] by (auto simp: n_def)
  let ?m = "m\<lparr>om_packets := pk, om_numPackets := np, om_start := int (len + n),
              om_messageLength := int (len + n)\<rparr>"
  have "om_reserve d cnt m = Inr ?m"
    using loop(1) pdl_pos [OF assms(1)] cl(1)
    by (simp add: om_reserve_def assms(5) P ml cl(2) Let_def n_def zdiv_int zmod_int
        cong: if_cong split del: if_split)
  moreover have "om_wf d ?m"
    using loop(2) by (simp add: om_wf_def om_layout_cong nat_int_add)
  ultimately show ?thesis by (auto simp: Let_def)
qed

section \<open>Prepend\<close>

lemma prepend_loop_done: "cnt \<le> bc \<Longrightarrow> prepend_loop fuel src cnt pi po bc m = Inr m"
  by (subst prepend_loop.simps) simp

lemma layout_packet:
  assumes "driver_ok d" "om_layout d len m" "i * pdl d < len"
  obtains p where "om_packets m i = Some p" "packet_ok d (chunk d len i) p" "i < MAX_MESSAGE_PACKETS"
proof -
  have pos: "0 < pdl d" using assms(1) by (rule pdl_pos)
  have i: "i < packets_for d len" using packets_for_iff [OF pos] assms(3) by simp
  have "case om_packets m i of Some p \<Rightarrow> i < packets_for d len \<and> packet_ok d (chunk d len i) p
      | None \<Rightarrow> packets_for d len \<le> i"
    using assms(2) unfolding om_layout_def by blast
  with i obtain p where p: "om_packets m i = Some p" "packet_ok d (chunk d len i) p"
    by (auto split: option.splits)
  have "packets_for d len \<le> MAX_MESSAGE_PACKETS"
    using assms(2) by (intro packets_for_le [OF pos]) (simp add: om_layout_def)
  with that [OF p] i show ?thesis by simp
qed

lemma layout_replace:
  assumes "om_layout d len m" "om_packets m i = Some p" "plength q = plength p"
    "length (payload q) = length (payload p)"
  shows "om_layout d len (m\<lparr>om_packets := (om_packets m)(i \<mapsto> q)\<rparr>)"
  using assms unfolding om_layout_def packet_ok_def
  by (auto split: option.splits simp: fun_upd_def)

lemma prepend_step:
  assumes ok: "driver_ok d" "om_layout d len m" and f: "fits d at rest pi po" "0 < rest" "at + rest \<le> len"
    and src: "c + rest \<le> length src" and n: "n = min rest (pdl d - at mod pdl d)"
  obtains q where
    "prepend_loop (Suc fuel) src (int (c + rest)) pi po (int c) m =
       prepend_loop fuel src (int (c + rest)) (pi + 1) 0 (int (c + n))
         (m\<lparr>om_packets := (om_packets m)(at div pdl d \<mapsto> q)\<rparr>)"
    "om_layout d len (m\<lparr>om_packets := (om_packets m)(at div pdl d \<mapsto> q)\<rparr>)"
    "\<And>k. k < len \<Longrightarrow> om_byte d (m\<lparr>om_packets := (om_packets m)(at div pdl d \<mapsto> q)\<rparr>) k =
       (if at \<le> k \<and> k < at + n then src ! (c + (k - at)) else om_byte d m k)"
proof -
  let ?i = "at div pdl d" and ?o = "at mod pdl d"
  have pos: "0 < pdl d" using ok(1) by (rule pdl_pos)
  note adv = fits_advance [OF pos f(1,2) n]
  have "?i * pdl d < len" using f(2,3) div_times_less_eq_dividend [of at "pdl d"] by linarith
  then obtain p where p: "om_packets m ?i = Some p" "packet_ok d (chunk d len ?i) p" "?i < MAX_MESSAGE_PACKETS"
    using layout_packet [OF ok] by metis
  define bs where "bs = take n (drop c src)"
  have bs: "length bs = n" using src adv(3) by (simp add: bs_def)
  define q where "q = p\<lparr>payload := memcpy (payload p) (sizeof_DataHeader + ?o) bs\<rparr>"
  have full: "length (payload p) = sizeof_DataHeader + pdl d"
    using p(2) pdl_bound [OF ok(1)] by (simp add: packet_ok_def)
  with adv(4) have room: "sizeof_DataHeader + ?o + n \<le> length (payload p)"
    by simp
  have h: "om_TRANSPORT_HEADER_LENGTH m = int sizeof_DataHeader" "om_PACKET_DATA_LENGTH m = int (pdl d)"
    using ok(2) by (simp_all add: om_layout_def)
  have pi: "pi = int ?i" "po = int ?o" using f by (simp_all add: fits_def)
  have min: "min (int rest) (int (pdl d) - int ?o) = int n"
    using n pos by (simp add: int_min_chunk less_imp_le)
  have read: "read_source (int c) (int n) src = Inr bs"
    using src adv(3) by (simp add: read_source_def bs_def)
  have copy: "copy_in (int ?o + int sizeof_DataHeader) bs p = Inr q"
    using room bs by (simp add: copy_in_def q_def nat_add_distrib add.commute)
  have step: "prepend_loop (Suc fuel) src (int (c + rest)) pi po (int c) m =
       prepend_loop fuel src (int (c + rest)) (pi + 1) 0 (int (c + n))
         (m\<lparr>om_packets := (om_packets m)(?i \<mapsto> q)\<rparr>)"
    using f(2) p
    by (subst prepend_loop.simps)
      (simp add: pi h min read copy Let_def setPacket_def getPacket_def)
  show ?thesis
  proof (rule that [OF step])
    show "om_layout d len (m\<lparr>om_packets := (om_packets m)(?i \<mapsto> q)\<rparr>)"
      using room bs by (intro layout_replace [OF ok(2) p(1)]) (simp_all add: q_def)
    fix k assume "k < len"
    have at: "at = ?i * pdl d + ?o" by simp
    show "om_byte d (m\<lparr>om_packets := (om_packets m)(?i \<mapsto> q)\<rparr>) k =
       (if at \<le> k \<and> k < at + n then src ! (c + (k - at)) else om_byte d m k)"
    proof (cases "k div pdl d = ?i")
      case True
      then have k: "k = ?i * pdl d + k mod pdl d" by (metis div_mult_mod_eq)
      have lt: "k mod pdl d < pdl d" using pos by simp
      have iff: "(at \<le> k \<and> k < at + n) \<longleftrightarrow> (?o \<le> k mod pdl d \<and> k mod pdl d < ?o + n)"
        and diff: "k mod pdl d - ?o = k - at"
        using at k by linarith+
      have "payload q ! (sizeof_DataHeader + k mod pdl d) =
          (if ?o \<le> k mod pdl d \<and> k mod pdl d < ?o + n then bs ! (k mod pdl d - ?o)
           else payload p ! (sizeof_DataHeader + k mod pdl d))"
        using room bs full lt by (auto simp: q_def nth_memcpy)
      moreover have "k - at < n" if "?o \<le> k mod pdl d" "k mod pdl d < ?o + n"
        using that diff by linarith
      ultimately show ?thesis
        using True p(1) src adv(3) unfolding iff diff by (auto simp: om_byte_def bs_def)
    next
      case False
      have "\<not> (at \<le> k \<and> k < at + n)"
      proof
        assume "at \<le> k \<and> k < at + n"
        then have "k - ?i * pdl d < pdl d" "?i * pdl d \<le> k" using at adv(4) by linarith+
        then have "k div pdl d = ?i"
          by (metis div_mod_parts(1) le_add_diff_inverse)
        with False show False by simp
      qed
      with False show ?thesis by (auto simp: om_byte_def)
    qed
  qed
qed

lemma prepend_loop_correct:
  assumes "driver_ok d"
  shows "\<lbrakk>om_layout d len m; fits d at rest pi po; at + rest \<le> len; c + rest \<le> length src; rest \<le> fuel\<rbrakk> \<Longrightarrow>
    \<exists>pk. prepend_loop fuel src (int (c + rest)) pi po (int c) m = Inr (m\<lparr>om_packets := pk\<rparr>) \<and>
         om_layout d len (m\<lparr>om_packets := pk\<rparr>) \<and>
         (\<forall>k < len. om_byte d (m\<lparr>om_packets := pk\<rparr>) k =
            (if at \<le> k \<and> k < at + rest then src ! (c + (k - at)) else om_byte d m k))"
proof (induction fuel arbitrary: at rest pi po c m)
  case 0
  then show ?case
    by (intro exI [of _ "om_packets m"]) (auto simp: prepend_loop_done)
next
  case (Suc fuel)
  show ?case
  proof (cases "rest = 0")
    case True
    with Suc.prems show ?thesis
      by (intro exI [of _ "om_packets m"]) (auto simp: prepend_loop_done)
  next
    case False
    define n where "n = min rest (pdl d - at mod pdl d)"
    from False have rest: "0 < rest" by simp
    note adv = fits_advance [OF pdl_pos [OF assms] Suc.prems(2) rest n_def]
    obtain q where step:
      "prepend_loop (Suc fuel) src (int (c + rest)) pi po (int c) m =
       prepend_loop fuel src (int (c + rest)) (pi + 1) 0 (int (c + n))
         (m\<lparr>om_packets := (om_packets m)(at div pdl d \<mapsto> q)\<rparr>)"
      "om_layout d len (m\<lparr>om_packets := (om_packets m)(at div pdl d \<mapsto> q)\<rparr>)"
      "\<And>k. k < len \<Longrightarrow> om_byte d (m\<lparr>om_packets := (om_packets m)(at div pdl d \<mapsto> q)\<rparr>) k =
       (if at \<le> k \<and> k < at + n then src ! (c + (k - at)) else om_byte d m k)"
      using prepend_step [OF assms Suc.prems(1,2) rest Suc.prems(3,4) n_def] by metis
    have cr: "c + n + (rest - n) = c + rest" "at + n + (rest - n) = at + rest"
      using adv(3) by simp_all
    have side: "at + n + (rest - n) \<le> len" "c + n + (rest - n) \<le> length src" "rest - n \<le> fuel"
      using Suc.prems(3-5) adv(2,3) by simp_all
    obtain pk where IH:
      "prepend_loop fuel src (int (c + rest)) (pi + 1) 0 (int (c + n))
         (m\<lparr>om_packets := (om_packets m)(at div pdl d \<mapsto> q)\<rparr>) = Inr (m\<lparr>om_packets := pk\<rparr>)"
      "om_layout d len (m\<lparr>om_packets := pk\<rparr>)"
      "\<And>k. k < len \<Longrightarrow> om_byte d (m\<lparr>om_packets := pk\<rparr>) k =
            (if at + n \<le> k \<and> k < at + rest then src ! (c + n + (k - (at + n)))
             else om_byte d (m\<lparr>om_packets := (om_packets m)(at div pdl d \<mapsto> q)\<rparr>) k)"
      using Suc.IH [OF step(2) adv(1) side] unfolding cr by auto
    have "om_byte d (m\<lparr>om_packets := pk\<rparr>) k =
        (if at \<le> k \<and> k < at + rest then src ! (c + (k - at)) else om_byte d m k)" if "k < len" for k
      using IH(3) [OF that] step(3) [OF that] adv(3) by auto
    with step(1) IH(1,2) show ?thesis by auto
  qed
qed

lemma om_prepend_correct:
  assumes "driver_ok d" "om_wf d m" "int c \<le> om_start m" "c \<le> length src" "downCast_int cnt = Inr (int c)"
  defines "s \<equiv> nat (om_start m) - c"
  shows "\<exists>pk. let m' = m\<lparr>om_start := om_start m - int c, om_packets := pk\<rparr>
    in om_prepend src cnt m = Inr m' \<and> om_wf d m' \<and>
       om_buffer d m' = memcpy (om_buffer d m) s (take c src)"
proof -
  define len where "len = nat (om_messageLength m)"
  have lay: "om_layout d len m" and st: "0 \<le> om_start m" "om_start m \<le> om_messageLength m"
    using assms(2) by (simp_all add: om_wf_def len_def)
  have sc: "om_start m - int c = int s" "s + c \<le> len"
    using st assms(3) by (simp_all add: s_def len_def)
  have P: "om_PACKET_DATA_LENGTH m = int (pdl d)" and le: "len \<le> MAX_MESSAGE_PACKETS * pdl d"
    using lay by (simp_all add: om_layout_def)
  let ?m0 = "m\<lparr>om_start := int s\<rparr>"
  have fit: "fits d s c (int (s div pdl d)) (int (s mod pdl d))"
    using sc(2) le by (simp add: fits_def)
  obtain pk where loop:
    "prepend_loop c src (int c) (int (s div pdl d)) (int (s mod pdl d)) 0 ?m0 = Inr (?m0\<lparr>om_packets := pk\<rparr>)"
    "om_layout d len (?m0\<lparr>om_packets := pk\<rparr>)"
    "\<forall>k < len. om_byte d (?m0\<lparr>om_packets := pk\<rparr>) k =
       (if s \<le> k \<and> k < s + c then src ! (k - s) else om_byte d m k)"
    using prepend_loop_correct [OF assms(1) _ fit sc(2), of ?m0 0 src c] lay assms(4)
    by (auto simp: om_layout_cong)
  let ?m = "m\<lparr>om_start := om_start m - int c, om_packets := pk\<rparr>"
  have "om_prepend src cnt m = Inr ?m"
    using loop(1) assms(3) pdl_pos [OF assms(1)]
    by (simp add: om_prepend_def assms(5) P sc(1) Let_def zdiv_int zmod_int)
  moreover have "om_wf d ?m"
    using loop(2) st sc by (simp add: om_wf_def len_def)
  moreover have "om_buffer d ?m = memcpy (om_buffer d m) s (take c src)"
  proof (rule nth_equalityI)
    show "length (om_buffer d ?m) = length (memcpy (om_buffer d m) s (take c src))"
      using sc(2) assms(4) by (simp add: om_buffer_def len_def)
    fix i assume "i < length (om_buffer d ?m)"
    then have "i < len" by (simp add: om_buffer_def len_def)
    with loop(3) sc(2) assms(4) show "om_buffer d ?m ! i = memcpy (om_buffer d m) s (take c src) ! i"
      by (auto simp: om_buffer_def nth_memcpy len_def sc(1))
  qed
  ultimately show ?thesis by (auto simp: Let_def)
qed

section \<open>A message from its construction on\<close>

lemma OutMessage_layout:
  assumes "driver_ok d"
  shows "om_layout d 0 (OutMessage d port)"
proof -
  have "unat (maxPayloadSize d - of_nat sizeof_DataHeader) = pdl d"
    using assms by (simp add: driver_ok_def pdl_def unat_sub_if_size sizeof_DataHeader_def)
  moreover have "pdl d < 2 ^ 31" using pdl_bound [OF assms] by simp
  ultimately have "int_of_u32 (maxPayloadSize d - of_nat sizeof_DataHeader) = int (pdl d)"
    using int_of_u32_small [of "maxPayloadSize d - of_nat sizeof_DataHeader"] by simp
  moreover have "packets_for d 0 = 0"
    using pdl_pos [OF assms] by (simp add: packets_for_def)
  ultimately show ?thesis
    by (simp add: om_layout_def OutMessage_def)
qed

lemma OutMessage_wf: "driver_ok d \<Longrightarrow> om_wf d (OutMessage d port)"
  using OutMessage_layout [of d port] by (simp add: om_wf_def OutMessage_def)

lemma room_for_all: "len + c \<le> MAX_MESSAGE_PACKETS * pdl d \<Longrightarrow> room_for d len c = c"
  by (simp add: room_for_def)

lemma length_om_buffer [simp]: "length (om_buffer d m) = nat (om_messageLength m)"
  by (simp add: om_buffer_def)

text \<open>A message built by reserving room for a header, appending the body and prepending the
  header holds the header followed by the body.\<close>

lemma build_message:
  assumes ok: "driver_ok d" and len: "length hdr + length body \<le> MAX_MESSAGE_PACKETS * pdl d"
    and cnt: "downCast_int n1 = Inr (int (length hdr))" "downCast_int n2 = Inr (int (length body))"
  shows "\<exists>m. bindr (om_reserve d n1 (OutMessage d port)) (\<lambda>m1. bindr (om_append d body n2 m1)
               (om_prepend hdr n1)) = Inr m \<and>
             om_wf d m \<and> om_start m = 0 \<and> om_contents d m = hdr @ body"
proof -
  let ?m0 = "OutMessage d port"
  have z: "om_start ?m0 = 0" "om_messageLength ?m0 = 0" by (simp_all add: OutMessage_def)
  have lim: "MAX_MESSAGE_PACKETS * pdl d < 2 ^ 26"
    using maxMessageLength_layout(2) [OF ok OutMessage_layout [OF ok]] .
  with len have c: "length hdr < 2 ^ 31 - 2 ^ 26" "length body < 2 ^ 31 - 2 ^ 26" by simp_all
  obtain m1 where m1: "om_reserve d n1 ?m0 = Inr m1" "om_wf d m1"
    "om_start m1 = int (length hdr)" "om_messageLength m1 = int (length hdr)"
    using om_reserve_correct [OF ok OutMessage_wf [OF ok] _ c(1) cnt(1), of port] z len
    by (auto simp: Let_def room_for_all)
  obtain m2 where m2: "om_append d body n2 m1 = Inr m2" "om_wf d m2" "om_start m2 = int (length hdr)"
    "om_messageLength m2 = int (length hdr + length body)" "om_buffer d m2 = om_buffer d m1 @ body"
    using om_append_eq [OF ok m1(2) c(2) _ cnt(2), of body] m1(3,4) len by (auto simp: Let_def room_for_all)
  obtain m3 where m3: "om_prepend hdr n1 m2 = Inr m3" "om_wf d m3" "om_start m3 = 0"
    "om_buffer d m3 = memcpy (om_buffer d m2) 0 hdr"
    using om_prepend_correct [OF ok m2(2) _ _ cnt(1), of hdr] m2(3) by (auto simp: Let_def)
  have "om_contents d m3 = hdr @ body"
    using m3(3,4) m2(5) m1(4) by (simp add: om_contents_def memcpy_def)
  with m1(1) m2(1) m3 show ?thesis by auto
qed

section \<open>Misuse\<close>

lemma om_prepend_unreserved:
  "downCast_int cnt = Inr c \<Longrightarrow> om_start m < c \<Longrightarrow> om_prepend src cnt m = Inl AssertionFailed"
  by (simp add: om_prepend_def)

lemma om_reserve_late:
  "downCast_int cnt = Inr c \<Longrightarrow> om_start m \<noteq> om_messageLength m \<Longrightarrow> om_reserve d cnt m = Inl AssertionFailed"
  by (simp add: om_reserve_def)

text \<open>A byte count that is negative as an \<open>int\<close> passes the check of the conversion, and the
  message gets shorter.\<close>

lemma om_append_negative:
  assumes "downCast_int cnt = Inr c" "c < 0" "om_PACKET_DATA_LENGTH m \<noteq> 0"
    "in_int32 (om_messageLength m + c)" "om_messageLength m + c \<le> maxMessageLength m"
  shows "om_append d src cnt m = Inr (m\<lparr>om_messageLength := om_messageLength m + c\<rparr>)"
  using assms by (simp add: om_append_def append_loop_done)

end
