(* ===== verification/ObjectPool.thy ===== *)
theory ObjectPool
  imports Prelude
begin

text \<open>
  The allocator of src/ObjectPool.h. The vector of cached memory is used as a stack, its last
  entry on top; memory that was never handed out comes from \<open>operator new\<close>, modelled by the
  next unused address of a 64-bit address space. The contract a client relies on is the locale
  \<open>allocator\<close>.
\<close>

record object_pool =
  outstandingObjects :: u64
  pool_stack :: "addr list"
  next_new :: nat

definition ObjectPool :: object_pool where
  "ObjectPool = \<lparr>outstandingObjects = 0, pool_stack = [], next_new = 0\<rparr>"

definition operator_new :: "object_pool \<Rightarrow> (addr \<times> object_pool) res" where
  "operator_new p =
     require BadAlloc (int (next_new p) + 1 < 2 ^ 64) (Inr (next_new p, p\<lparr>next_new := next_new p + 1\<rparr>))"

definition pool_construct :: "object_pool \<Rightarrow> (addr \<times> object_pool) res" where
  "pool_construct p =
     bindr (if length (pool_stack p) = 0 then operator_new p
            else Inr (last (pool_stack p), p\<lparr>pool_stack := butlast (pool_stack p)\<rparr>))
       (\<lambda>(backing, p'). Inr (backing, p'\<lparr>outstandingObjects := outstandingObjects p' + 1\<rparr>))"

definition pool_destroy :: "addr \<Rightarrow> object_pool \<Rightarrow> object_pool res" where
  "pool_destroy object p =
     require AssertionFailed (outstandingObjects p > 0)
       (Inr (p\<lparr>pool_stack := pool_stack p @ [object], outstandingObjects := outstandingObjects p - 1\<rparr>))"

text \<open>The destructor frees the cached memory and reports objects that were never destroyed.\<close>

definition ObjectPool_destruct :: "object_pool \<Rightarrow> addr list \<times> bool" where
  "ObjectPool_destruct p = (pool_stack p, outstandingObjects p > 0)"

section \<open>The contract of an allocator\<close>

text \<open>\<open>ok L p\<close>: the allocator is consistent and \<open>L\<close> are the addresses in use. An allocation
  returns an address that is not in use or runs out of memory; freeing an address in use
  succeeds.\<close>

locale allocator =
  fixes alloc :: "'p \<Rightarrow> (addr \<times> 'p) res"
    and dealloc :: "addr \<Rightarrow> 'p \<Rightarrow> 'p res"
    and ok :: "addr set \<Rightarrow> 'p \<Rightarrow> bool"
  assumes alloc_fresh: "ok L p \<Longrightarrow> alloc p = Inr (a, p') \<Longrightarrow> a \<notin> L \<and> ok (insert a L) p'"
    and alloc_fails: "ok L p \<Longrightarrow> alloc p = Inl e \<Longrightarrow> e = BadAlloc"
    and dealloc_ok: "ok L p \<Longrightarrow> a \<in> L \<Longrightarrow> \<exists>p'. dealloc a p = Inr p' \<and> ok (L - {a}) p'"
begin

primrec alloc_many :: "nat \<Rightarrow> 'p \<Rightarrow> (addr list \<times> 'p) res" where
  "alloc_many 0 p = Inr ([], p)"
| "alloc_many (Suc n) p =
     bindr (alloc p) (\<lambda>(a, p'). bindr (alloc_many n p') (\<lambda>(as, p''). Inr (a # as, p'')))"

primrec dealloc_many :: "addr list \<Rightarrow> 'p \<Rightarrow> 'p res" where
  "dealloc_many [] p = Inr p"
| "dealloc_many (a # as) p = bindr (dealloc a p) (dealloc_many as)"

lemma alloc_many_distinct:
  "ok L p \<Longrightarrow> alloc_many n p = Inr (as, p') \<Longrightarrow> distinct as \<and> set as \<inter> L = {} \<and> ok (L \<union> set as) p'"
proof (induction n arbitrary: L p as p')
  case (Suc n)
  from Suc.prems(2) obtain a q as' where
    1: "alloc p = Inr (a, q)" "alloc_many n q = Inr (as', p')" "as = a # as'"
    by (auto simp: bindr_eq_Inr)
  from alloc_fresh [OF Suc.prems(1) 1(1)] have "a \<notin> L" "ok (insert a L) q" by auto
  with Suc.IH [OF this(2) 1(2)] 1(3) show ?case by auto
qed simp

lemma dealloc_many_ok:
  "ok L p \<Longrightarrow> distinct as \<Longrightarrow> set as \<subseteq> L \<Longrightarrow> \<exists>p'. dealloc_many as p = Inr p' \<and> ok (L - set as) p'"
proof (induction as arbitrary: L p)
  case (Cons a as)
  then obtain q where q: "dealloc a p = Inr q" "ok (L - {a}) q"
    using dealloc_ok by fastforce
  have "L - set (a # as) = (L - {a}) - set as"
    by auto
  moreover have "set as \<subseteq> L - {a}" "distinct as"
    using Cons.prems by auto
  ultimately show ?case
    using Cons.IH [OF q(2)] q(1) by auto
qed simp

end

section \<open>The pool meets it\<close>

definition pool_ok :: "addr set \<Rightarrow> object_pool \<Rightarrow> bool" where
  "pool_ok L p \<longleftrightarrow>
     distinct (pool_stack p) \<and> set (pool_stack p) \<inter> L = {} \<and> finite L \<and>
     (\<forall>a \<in> set (pool_stack p) \<union> L. a < next_new p) \<and> next_new p < 2 ^ 64 \<and>
     outstandingObjects p = of_nat (card L)"

lemma pool_ok_start: "pool_ok {} ObjectPool"
  by (simp add: pool_ok_def ObjectPool_def)

lemma pool_ok_card: "pool_ok L p \<Longrightarrow> unat (outstandingObjects p) = card L"
proof -
  assume ok: "pool_ok L p"
  then have "L \<subseteq> {..<next_new p}"
    by (auto simp: pool_ok_def)
  then have "card L \<le> next_new p"
    using subset_eq_atLeast0_lessThan_card by (metis atLeast0LessThan)
  with ok show ?thesis
    by (simp add: pool_ok_def unat_of_nat take_bit_nat_eq_self)
qed

lemma pool_construct_ok:
  assumes "pool_ok L p" "pool_construct p = Inr (a, p')"
  shows "a \<notin> L \<and> pool_ok (insert a L) p'"
proof (cases "pool_stack p" rule: rev_cases)
  case Nil
  with assms have a: "a = next_new p"
    "p' = p\<lparr>next_new := next_new p + 1, outstandingObjects := outstandingObjects p + 1\<rparr>"
    "int (next_new p) + 1 < 2 ^ 64"
    by (auto simp: pool_construct_def operator_new_def res_simps)
  with assms(1) have "a \<notin> L"
    by (auto simp: pool_ok_def)
  moreover have "Suc (next_new p) < 2 ^ 64" using a(3) by simp
  ultimately show ?thesis
    using assms(1) a(1,2) Nil by (auto simp: pool_ok_def less_Suc_eq)
next
  case (snoc as b)
  with assms have a: "a = b"
    "p' = p\<lparr>pool_stack := as, outstandingObjects := outstandingObjects p + 1\<rparr>"
    by (auto simp: pool_construct_def)
  with assms(1) snoc have "a \<notin> L"
    by (auto simp: pool_ok_def)
  with assms(1) a snoc show ?thesis
    by (auto simp: pool_ok_def)
qed

lemma pool_destroy_ok:
  assumes "pool_ok L p" "a \<in> L"
  shows "\<exists>p'. pool_destroy a p = Inr p' \<and> pool_ok (L - {a}) p'"
proof -
  have c: "unat (outstandingObjects p) = card L" "card L > 0"
    using pool_ok_card [OF assms(1)] assms by (auto simp: pool_ok_def card_gt_0_iff)
  then have "outstandingObjects p > 0"
    by (simp add: word_less_nat_alt)
  moreover have "of_nat (card L - 1) = (of_nat (card L) - 1 :: u64)"
    using c(2) by (simp add: of_nat_diff)
  ultimately show ?thesis
    using assms by (auto simp: pool_destroy_def pool_ok_def card_Diff_singleton)
qed

lemma pool_construct_error:
  assumes "pool_construct p = Inl e"
  shows "e = BadAlloc"
  using assms by (auto simp: pool_construct_def operator_new_def require_def bindr_def split: if_splits prod.splits)

interpretation opool: allocator pool_construct pool_destroy pool_ok
  by unfold_locales (use pool_construct_ok pool_construct_error pool_destroy_ok in blast)+

text \<open>Memory is reused before new memory is asked for: the last object destroyed comes back
  first.\<close>

lemma pool_reuse:
  "pool_destroy a p = Inr p' \<Longrightarrow> \<exists>p''. pool_construct p' = Inr (a, p'') \<and> p'' = p"
  by (auto simp: pool_destroy_def pool_construct_def res_simps)

end
