(* ===== verification/Policy.thy ===== *)
theory Policy
  imports Driver
begin

text \<open>
  \<open>Policy::Manager\<close> of src/Policy.h and src/Policy.cc: the network priority and the number of
  unscheduled bytes of a new message, and the limits within which a receiver grants.
\<close>

record unscheduled =
  us_version :: u8
  unscheduledByteLimit :: u32
  us_priority :: int

record scheduled =
  maxScheduledPriority :: int
  degreeOvercommitment :: int
  minScheduledBytes :: int
  maxScheduledBytes :: int

record unscheduledPolicy =
  up_version :: u8
  highestPriority :: int
  priorityCutoffBytes :: "u32 list"

record policy_manager =
  localUnscheduledPolicy :: unscheduledPolicy
  localScheduledPolicy :: scheduled
  peerPolicies :: "ipAddress \<rightharpoonup> unscheduledPolicy"
  RTT_BYTES :: u32
  MAX_PRIORITY :: int

definition RTT_TIME_US :: u32 where "RTT_TIME_US = 8"
definition UNSCHEDULED_PRIORITY_CUTOFFS :: "u32 list" where
  "UNSCHEDULED_PRIORITY_CUTOFFS = [469, 5521, 15267]"
definition MAX_OVERCOMMIT_COUNT :: int where "MAX_OVERCOMMIT_COUNT = 4"

definition Policy_Manager :: "driver \<Rightarrow> policy_manager" where
  "Policy_Manager d =
     (let rtt = RTT_TIME_US * (bandwidth d div 8);
          maxPrio = highestPacketPriority d;
          unsch = \<lparr>up_version = 0, highestPriority = maxPrio,
                   priorityCutoffBytes = UNSCHEDULED_PRIORITY_CUTOFFS\<rparr>
      in \<lparr>localUnscheduledPolicy = unsch,
          localScheduledPolicy =
            \<lparr>maxScheduledPriority = max 0 (maxPrio - (int (length (priorityCutoffBytes unsch)) + 1)),
             degreeOvercommitment = MAX_OVERCOMMIT_COUNT,
             minScheduledBytes = int_of_u32 rtt,
             maxScheduledBytes = int_of_u32 (2 * rtt)\<rparr>,
          peerPolicies = Map.empty, RTT_BYTES = rtt, MAX_PRIORITY = maxPrio\<rparr>)"

definition getResendPriority :: "policy_manager \<Rightarrow> int" where
  "getResendPriority m = MAX_PRIORITY m"

definition getScheduledPolicy :: "policy_manager \<Rightarrow> scheduled" where
  "getScheduledPolicy m = localScheduledPolicy m"

text \<open>The loop that counts the cutoffs a message reaches.\<close>

fun cutoff_rank :: "u32 \<Rightarrow> u32 list \<Rightarrow> int" where
  "cutoff_rank len [] = 0"
| "cutoff_rank len (c # cs) = (if len < c then 0 else 1 + cutoff_rank len cs)"

definition getUnscheduledPolicy ::
  "ipAddress \<Rightarrow> u32 \<Rightarrow> policy_manager \<Rightarrow> unscheduled \<times> policy_manager" where
  "getUnscheduledPolicy destination messageLength m =
     (let peer = (case peerPolicies m destination of
            Some p \<Rightarrow> p
          | None \<Rightarrow> \<lparr>up_version = 0, highestPriority = MAX_PRIORITY m,
                     priorityCutoffBytes = UNSCHEDULED_PRIORITY_CUTOFFS\<rparr>);
          rank = cutoff_rank messageLength (priorityCutoffBytes peer)
      in (\<lparr>us_version = up_version peer, unscheduledByteLimit = RTT_BYTES m,
           us_priority = max 0 (highestPriority peer - rank)\<rparr>,
          m\<lparr>peerPolicies := (peerPolicies m)(destination \<mapsto> peer)\<rparr>))"

definition signalNewMessage :: "ipAddress \<Rightarrow> u8 \<Rightarrow> u32 \<Rightarrow> policy_manager \<Rightarrow> policy_manager" where
  "signalNewMessage source version messageLength m = m"

definition Policy_poll :: "policy_manager \<Rightarrow> policy_manager" where
  "Policy_poll m = m"

section \<open>Invariant\<close>

definition policy_ok :: "policy_manager \<Rightarrow> bool" where
  "policy_ok m \<longleftrightarrow>
     0 \<le> MAX_PRIORITY m \<and>
     (\<forall>ip p. peerPolicies m ip = Some p \<longrightarrow>
        p = \<lparr>up_version = 0, highestPriority = MAX_PRIORITY m,
             priorityCutoffBytes = UNSCHEDULED_PRIORITY_CUTOFFS\<rparr>) \<and>
     maxScheduledPriority (localScheduledPolicy m) = max 0 (MAX_PRIORITY m - 4) \<and>
     degreeOvercommitment (localScheduledPolicy m) = MAX_OVERCOMMIT_COUNT \<and>
     minScheduledBytes (localScheduledPolicy m) = int_of_u32 (RTT_BYTES m) \<and>
     maxScheduledBytes (localScheduledPolicy m) = int_of_u32 (2 * RTT_BYTES m)"

lemma policy_ok_start: "driver_ok d \<Longrightarrow> policy_ok (Policy_Manager d)"
  by (simp add: policy_ok_def Policy_Manager_def Let_def driver_ok_def UNSCHEDULED_PRIORITY_CUTOFFS_def)

lemma policy_ok_unscheduled:
  "policy_ok m \<Longrightarrow> policy_ok (snd (getUnscheduledPolicy ip len m))"
  by (auto simp: policy_ok_def getUnscheduledPolicy_def Let_def split: option.splits)

lemma RTT_BYTES_unscheduled [simp]:
  "RTT_BYTES (snd (getUnscheduledPolicy ip len m)) = RTT_BYTES m"
  "MAX_PRIORITY (snd (getUnscheduledPolicy ip len m)) = MAX_PRIORITY m"
  "localScheduledPolicy (snd (getUnscheduledPolicy ip len m)) = localScheduledPolicy m"
  by (simp_all add: getUnscheduledPolicy_def Let_def)

section \<open>Priorities\<close>

lemma cutoff_rank_bounds: "0 \<le> cutoff_rank len cs \<and> cutoff_rank len cs \<le> int (length cs)"
  by (induction cs) auto

lemma cutoff_rank_mono: "len \<le> len' \<Longrightarrow> cutoff_rank len cs \<le> cutoff_rank len' cs"
  using cutoff_rank_bounds by (induction cs) auto

lemma unscheduled_policy_of_ok:
  assumes "policy_ok m"
  shows "fst (getUnscheduledPolicy ip len m) =
    \<lparr>us_version = 0, unscheduledByteLimit = RTT_BYTES m,
     us_priority = max 0 (MAX_PRIORITY m - cutoff_rank len UNSCHEDULED_PRIORITY_CUTOFFS)\<rparr>"
proof (cases "peerPolicies m ip")
  case (Some p)
  with assms have "p = \<lparr>up_version = 0, highestPriority = MAX_PRIORITY m,
      priorityCutoffBytes = UNSCHEDULED_PRIORITY_CUTOFFS\<rparr>"
    unfolding policy_ok_def by blast
  with Some show ?thesis
    by (simp add: getUnscheduledPolicy_def)
qed (simp add: getUnscheduledPolicy_def)

lemma unscheduled_priority_bounds:
  assumes "policy_ok m"
  shows "0 \<le> us_priority (fst (getUnscheduledPolicy ip len m)) \<and>
         us_priority (fst (getUnscheduledPolicy ip len m)) \<le> MAX_PRIORITY m"
  using assms cutoff_rank_bounds [of len UNSCHEDULED_PRIORITY_CUTOFFS]
  by (simp add: unscheduled_policy_of_ok policy_ok_def)

lemma unscheduled_priority_antimono:
  assumes "policy_ok m" "len \<le> len'"
  shows "us_priority (fst (getUnscheduledPolicy ip len' m)) \<le>
         us_priority (fst (getUnscheduledPolicy ip' len m))"
  using assms cutoff_rank_mono [OF assms(2), of UNSCHEDULED_PRIORITY_CUTOFFS]
  by (simp add: unscheduled_policy_of_ok)

text \<open>With at least five priority levels, every scheduled packet ranks below every unscheduled
  one; and the degree of overcommitment covers the scheduled levels up to eight levels.\<close>

lemma scheduled_below_unscheduled:
  assumes "policy_ok m" "4 \<le> MAX_PRIORITY m"
  shows "maxScheduledPriority (getScheduledPolicy m) < us_priority (fst (getUnscheduledPolicy ip len m))"
  using assms cutoff_rank_bounds [of len UNSCHEDULED_PRIORITY_CUTOFFS]
  by (simp add: unscheduled_policy_of_ok getScheduledPolicy_def policy_ok_def UNSCHEDULED_PRIORITY_CUTOFFS_def)

lemma overcommitment_covers_levels:
  assumes "policy_ok m"
  shows "maxScheduledPriority (getScheduledPolicy m) < degreeOvercommitment (getScheduledPolicy m)
     \<longleftrightarrow> MAX_PRIORITY m \<le> 7"
  using assms by (auto simp: getScheduledPolicy_def policy_ok_def MAX_OVERCOMMIT_COUNT_def)

text \<open>The second query for a peer sees the policy the first one recorded.\<close>

lemma getUnscheduledPolicy_stable:
  "getUnscheduledPolicy ip len (snd (getUnscheduledPolicy ip len' m)) =
     (fst (getUnscheduledPolicy ip len m), snd (getUnscheduledPolicy ip len' m))"
  by (auto simp: getUnscheduledPolicy_def Let_def split: option.splits)

text \<open>Below a gigabyte per round trip the two scheduling limits are what they are meant to be.\<close>

lemma scheduled_byte_limits:
  assumes "policy_ok m" "unat (RTT_BYTES m) < 2 ^ 30"
  shows "minScheduledBytes (getScheduledPolicy m) = int (unat (RTT_BYTES m))"
    and "maxScheduledBytes (getScheduledPolicy m) = 2 * int (unat (RTT_BYTES m))"
proof -
  have "unat (2 * RTT_BYTES m) = 2 * unat (RTT_BYTES m)"
    using assms(2) by (simp add: unat_word_ariths)
  then show "minScheduledBytes (getScheduledPolicy m) = int (unat (RTT_BYTES m))"
    and "maxScheduledBytes (getScheduledPolicy m) = 2 * int (unat (RTT_BYTES m))"
    using assms int_of_u32_small [of "RTT_BYTES m"] int_of_u32_small [of "2 * RTT_BYTES m"]
    by (simp_all add: policy_ok_def getScheduledPolicy_def)
qed

end
