(* ===== verification/Intrusive.thy ===== *)
theory Intrusive
  imports Prelude
begin

text \<open>
  The doubly linked intrusive list of src/Intrusive.h. The first half is the pointer program:
  nodes live in a heap, a list is its root node and its element count, and every operation is
  the sequence of pointer writes of the source. The relation \<open>is_list\<close> says which
  sequence of nodes a list holds, and the locale \<open>linked_sequence\<close> is the contract its clients rely
  on. The second half is \<open>prioritize\<close> and \<open>deprioritize\<close>, on pointers and on sequences; the
  other theories use the sequence form, which the pointer form implements.
\<close>

section \<open>Nodes, lists and their pointer operations\<close>

record 'e node =
  owner :: "'e option"
  nlist :: "addr option"
  nxt :: addr
  prv :: addr

record 'e iheap =
  nodes :: "addr \<Rightarrow> 'e node"
  counts :: "addr \<Rightarrow> u64"

text \<open>A list is named by the address of its root node; an iterator is the node it points to.\<close>

type_synonym iterator = addr

definition set_nxt :: "addr \<Rightarrow> addr \<Rightarrow> 'e iheap \<Rightarrow> 'e iheap" where
  "set_nxt n v h = h\<lparr>nodes := (nodes h)(n := (nodes h n)\<lparr>nxt := v\<rparr>)\<rparr>"

definition set_prv :: "addr \<Rightarrow> addr \<Rightarrow> 'e iheap \<Rightarrow> 'e iheap" where
  "set_prv n v h = h\<lparr>nodes := (nodes h)(n := (nodes h n)\<lparr>prv := v\<rparr>)\<rparr>"

definition set_nlist :: "addr \<Rightarrow> addr option \<Rightarrow> 'e iheap \<Rightarrow> 'e iheap" where
  "set_nlist n v h = h\<lparr>nodes := (nodes h)(n := (nodes h n)\<lparr>nlist := v\<rparr>)\<rparr>"

definition set_count :: "addr \<Rightarrow> u64 \<Rightarrow> 'e iheap \<Rightarrow> 'e iheap" where
  "set_count r c h = h\<lparr>counts := (counts h)(r := c)\<rparr>"

definition Node_construct :: "addr \<Rightarrow> 'e option \<Rightarrow> 'e iheap \<Rightarrow> 'e iheap" where
  "Node_construct n own h =
     h\<lparr>nodes := (nodes h)(n := \<lparr>owner = own, nlist = None, nxt = n, prv = n\<rparr>)\<rparr>"

definition Node_destruct :: "addr \<Rightarrow> 'e iheap \<Rightarrow> unit res" where
  "Node_destruct n h =
     require AssertionFailed (nxt (nodes h n) = n)
     (require AssertionFailed (prv (nodes h n) = n) (Inr ()))"

definition unlink :: "addr \<Rightarrow> 'e iheap \<Rightarrow> 'e iheap" where
  "unlink n h0 =
     (let h1 = set_prv (nxt (nodes h0 n)) (prv (nodes h0 n)) h0;
          h2 = set_nxt (prv (nodes h1 n)) (nxt (nodes h1 n)) h1;
          h3 = set_nxt n n h2;
          h4 = set_prv n n h3
      in set_nlist n None h4)"

definition List_construct :: "addr \<Rightarrow> 'e iheap \<Rightarrow> 'e iheap" where
  "List_construct r h =
     set_nlist r (Some r) (set_count r 0 (Node_construct r None h))"

definition list_front :: "addr \<Rightarrow> 'e iheap \<Rightarrow> 'e option" where
  "list_front r h = owner (nodes h (nxt (nodes h r)))"

definition list_back :: "addr \<Rightarrow> 'e iheap \<Rightarrow> 'e option" where
  "list_back r h = owner (nodes h (prv (nodes h r)))"

definition list_begin :: "addr \<Rightarrow> 'e iheap \<Rightarrow> iterator" where
  "list_begin r h = nxt (nodes h r)"

definition list_end :: "addr \<Rightarrow> 'e iheap \<Rightarrow> iterator" where
  "list_end r h = r"

definition list_contains :: "addr \<Rightarrow> addr \<Rightarrow> 'e iheap \<Rightarrow> bool" where
  "list_contains r n h \<longleftrightarrow> nlist (nodes h n) = Some r"

definition list_get :: "addr \<Rightarrow> addr \<Rightarrow> 'e iheap \<Rightarrow> iterator" where
  "list_get r n h = (if list_contains r n h then n else list_end r h)"

definition list_empty :: "addr \<Rightarrow> 'e iheap \<Rightarrow> bool" where
  "list_empty r h \<longleftrightarrow> r = nxt (nodes h r)"

definition list_size :: "addr \<Rightarrow> 'e iheap \<Rightarrow> u64" where
  "list_size r h = counts h r"

definition insert_before :: "addr \<Rightarrow> addr \<Rightarrow> 'e iheap \<Rightarrow> 'e iheap res" where
  "insert_before pos n h0 =
     require AssertionFailed (nxt (nodes h0 n) = n)
     (require AssertionFailed (prv (nodes h0 n) = n)
       (let h1 = set_nxt n pos h0;
            h2 = set_prv n (prv (nodes h1 pos)) h1;
            h3 = set_nlist n (nlist (nodes h2 pos)) h2;
            h4 = set_nxt (prv (nodes h3 pos)) n h3
        in Inr (set_prv pos n h4)))"

definition list_insert :: "addr \<Rightarrow> iterator \<Rightarrow> addr \<Rightarrow> 'e iheap \<Rightarrow> ('e iheap \<times> iterator) res" where
  "list_insert r pos n h =
     require AssertionFailed (nlist (nodes h pos) = Some r)
     (bindr (insert_before pos n (set_count r (counts h r + 1) h)) (\<lambda>h'. Inr (h', n)))"

definition remove_it :: "addr \<Rightarrow> iterator \<Rightarrow> 'e iheap \<Rightarrow> ('e iheap \<times> iterator) res" where
  "remove_it r pos h =
     require AssertionFailed (nlist (nodes h pos) = Some r \<or> nlist (nodes h pos) = None)
     (let h1 = set_count r (counts h r - (if list_contains r pos h then 1 else 0)) h;
          nextPos = nxt (nodes h1 pos)
      in Inr (unlink pos h1, nextPos))"

definition list_remove :: "addr \<Rightarrow> addr \<Rightarrow> 'e iheap \<Rightarrow> 'e iheap res" where
  "list_remove r n h =
     require AssertionFailed (nlist (nodes h n) = Some r \<or> nlist (nodes h n) = None)
     (Inr (unlink n (set_count r (counts h r - (if list_contains r n h then 1 else 0)) h)))"

definition push_back :: "addr \<Rightarrow> addr \<Rightarrow> 'e iheap \<Rightarrow> 'e iheap res" where
  "push_back r n h = insert_before r n (set_count r (counts h r + 1) h)"

definition pop_back :: "addr \<Rightarrow> 'e iheap \<Rightarrow> 'e iheap" where
  "pop_back r h =
     (let h1 = set_count r (counts h r - 1) h in unlink (prv (nodes h1 r)) h1)"

definition push_front :: "addr \<Rightarrow> addr \<Rightarrow> 'e iheap \<Rightarrow> 'e iheap res" where
  "push_front r n h =
     (let h1 = set_count r (counts h r + 1) h in insert_before (nxt (nodes h1 r)) n h1)"

definition pop_front :: "addr \<Rightarrow> 'e iheap \<Rightarrow> 'e iheap" where
  "pop_front r h =
     (let h1 = set_count r (counts h r - 1) h in unlink (nxt (nodes h1 r)) h1)"

text \<open>The loop of \<open>clear\<close> unlinks the last node until the root is alone. The fuel bounds the
  number of nodes unlinked; \<open>clear\<close> gives it the element count.\<close>

fun clear_loop :: "nat \<Rightarrow> addr \<Rightarrow> 'e iheap \<Rightarrow> 'e iheap option" where
  "clear_loop k r h =
     (if prv (nodes h r) = r then Some h
      else case k of 0 \<Rightarrow> None | Suc k' \<Rightarrow> clear_loop k' r (unlink (prv (nodes h r)) h))"

definition list_clear :: "addr \<Rightarrow> 'e iheap \<Rightarrow> 'e iheap option" where
  "list_clear r h = map_option (set_count r 0) (clear_loop (unat (counts h r)) r h)"

section \<open>The sequence a list holds\<close>

fun chain :: "'e iheap \<Rightarrow> addr list \<Rightarrow> bool" where
  "chain h (a # b # xs) \<longleftrightarrow>
     nxt (nodes h a) = b \<and> prv (nodes h b) = a \<and> chain h (b # xs)"
| "chain h _ \<longleftrightarrow> True"

definition ring :: "'e iheap \<Rightarrow> addr \<Rightarrow> addr list \<Rightarrow> bool" where
  "ring h r xs \<longleftrightarrow>
     chain h (r # xs @ [r]) \<and> distinct (r # xs) \<and>
     (\<forall>n. nlist (nodes h n) = Some r \<longleftrightarrow> n = r \<or> n \<in> set xs) \<and>
     (\<forall>n \<in> set xs. owner (nodes h n) \<noteq> None)"

definition is_list :: "'e iheap \<Rightarrow> addr \<Rightarrow> addr list \<Rightarrow> bool" where
  "is_list h r xs \<longleftrightarrow> ring h r xs \<and> counts h r = of_nat (length xs)"

definition is_free :: "'e iheap \<Rightarrow> addr \<Rightarrow> bool" where
  "is_free h n \<longleftrightarrow>
     nxt (nodes h n) = n \<and> prv (nodes h n) = n \<and> nlist (nodes h n) = None \<and>
     owner (nodes h n) \<noteq> None"

text \<open>What an operation on list \<open>r\<close> with node \<open>n\<close> leaves alone: the nodes of other lists and
  the free nodes other than \<open>n\<close>.\<close>

definition frame :: "'e iheap \<Rightarrow> 'e iheap \<Rightarrow> addr \<Rightarrow> addr \<Rightarrow> bool" where
  "frame h h' r n \<longleftrightarrow>
     (\<forall>m. m \<noteq> n \<longrightarrow> nlist (nodes h m) \<noteq> Some r \<longrightarrow> nodes h' m = nodes h m) \<and>
     (\<forall>m. m \<noteq> n \<longrightarrow> nlist (nodes h' m) = nlist (nodes h m)) \<and>
     (\<forall>m. owner (nodes h' m) = owner (nodes h m)) \<and>
     (\<forall>q. q \<noteq> r \<longrightarrow> counts h' q = counts h q)"

named_theorems heap_simps \<open>reading a field of the heap after a write\<close>

lemma read_set_nxt [heap_simps]:
  "nxt (nodes (set_nxt n v h) m) = (if m = n then v else nxt (nodes h m))"
  "prv (nodes (set_nxt n v h) m) = prv (nodes h m)"
  "nlist (nodes (set_nxt n v h) m) = nlist (nodes h m)"
  "owner (nodes (set_nxt n v h) m) = owner (nodes h m)"
  "counts (set_nxt n v h) = counts h"
  by (simp_all add: set_nxt_def)

lemma read_set_prv [heap_simps]:
  "nxt (nodes (set_prv n v h) m) = nxt (nodes h m)"
  "prv (nodes (set_prv n v h) m) = (if m = n then v else prv (nodes h m))"
  "nlist (nodes (set_prv n v h) m) = nlist (nodes h m)"
  "owner (nodes (set_prv n v h) m) = owner (nodes h m)"
  "counts (set_prv n v h) = counts h"
  by (simp_all add: set_prv_def)

lemma read_set_nlist [heap_simps]:
  "nxt (nodes (set_nlist n l h) m) = nxt (nodes h m)"
  "prv (nodes (set_nlist n l h) m) = prv (nodes h m)"
  "nlist (nodes (set_nlist n l h) m) = (if m = n then l else nlist (nodes h m))"
  "owner (nodes (set_nlist n l h) m) = owner (nodes h m)"
  "counts (set_nlist n l h) = counts h"
  by (simp_all add: set_nlist_def)

lemma read_set_count [heap_simps]:
  "nodes (set_count r c h) = nodes h"
  "counts (set_count r c h) = (counts h)(r := c)"
  by (simp_all add: set_count_def)

lemma chain_cong:
  assumes "\<And>n. n \<in> set (butlast xs) \<Longrightarrow> nxt (nodes h n) = nxt (nodes h' n)"
    and "\<And>n. n \<in> set (tl xs) \<Longrightarrow> prv (nodes h n) = prv (nodes h' n)"
  shows "chain h xs = chain h' xs"
  using assms
proof (induction h xs rule: chain.induct)
  case (1 h a b xs)
  have "chain h (b # xs) = chain h' (b # xs)"
    by (rule "1.IH") (use "1.prems" in \<open>auto dest: list.set_sel(2)\<close>)
  with "1.prems"(1) [of a] "1.prems"(2) [of b] show ?case by simp
qed auto

lemma chain_append: "chain h (xs @ a # ys) \<longleftrightarrow> chain h (xs @ [a]) \<and> chain h (a # ys)"
proof (induction xs)
  case (Cons x xs)
  then show ?case by (cases xs) auto
qed simp

lemma chain_pair: "chain h (xs @ a # b # ys) \<longleftrightarrow>
    chain h (xs @ [a]) \<and> nxt (nodes h a) = b \<and> prv (nodes h b) = a \<and> chain h (b # ys)"
  using chain_append [of h xs a "b # ys"] by simp

text \<open>The neighbours of a position in a ring, and the two ways of cutting the ring there.\<close>

definition pred_node :: "addr \<Rightarrow> addr list \<Rightarrow> addr" where
  "pred_node r as = last (r # as)"

definition succ_node :: "addr \<Rightarrow> addr list \<Rightarrow> addr" where
  "succ_node r bs = hd (bs @ [r])"

lemma pred_cut: "butlast (r # as) @ pred_node r as # xs = r # as @ xs"
proof -
  have "butlast (r # as) @ [last (r # as)] = r # as"
    by (rule append_butlast_last_id) simp
  then show ?thesis
    unfolding pred_node_def by (metis append.assoc append_Cons append_Nil)
qed

lemma succ_cut: "succ_node r bs # tl (bs @ [r]) = bs @ [r]"
  by (simp add: succ_node_def)

lemma ring_cut:
  "r # (as @ bs) @ [r] = butlast (r # as) @ pred_node r as # succ_node r bs # tl (bs @ [r])"
  by (simp only: pred_cut succ_cut append.assoc)

lemma ring_cut_node:
  "r # (as @ n # bs) @ [r] =
     butlast (r # as) @ pred_node r as # n # succ_node r bs # tl (bs @ [r])"
  by (simp only: pred_cut succ_cut append.assoc append_Cons)

lemma pred_node_in: "pred_node r as \<in> insert r (set as)"
  using last_in_set [of "r # as"] by (simp add: pred_node_def del: last.simps)

lemma succ_node_in: "succ_node r bs \<in> insert r (set bs)"
  by (cases bs) (simp_all add: succ_node_def)

lemma set_tl_pred: "set (tl (butlast (r # as) @ [pred_node r as])) = set as"
  using pred_cut [of r as "[]"] by simp

lemma pred_notin_butlast: "distinct (r # as) \<Longrightarrow> pred_node r as \<notin> set (butlast (r # as))"
  using pred_cut [of r as "[]"] by (metis append_Nil2 append_Cons disjoint_iff distinct_append list.set_intros(1))

lemma butlast_pred_subset: "set (butlast (r # as)) \<subseteq> insert r (set as)"
  by (auto dest: in_set_butlastD)

lemma set_butlast_succ: "set (butlast (succ_node r bs # tl (bs @ [r]))) = set bs"
  by (simp only: succ_cut butlast_snoc)

lemma succ_notin_tl: "distinct (r # bs) \<Longrightarrow> succ_node r bs \<notin> set (tl (bs @ [r]))"
  by (cases bs) (auto simp: succ_node_def)

lemma tl_succ_subset: "set (tl (bs @ [r])) \<subseteq> insert r (set bs)"
  by (cases bs) auto

subsection \<open>Linking and unlinking a node\<close>

text \<open>Both pointer operations rewire the same two links: the one into and the one out of the gap
  between the neighbours \<open>l\<close> and \<open>p\<close>. The rest of the ring is untouched.\<close>

lemma chain_rewire:
  assumes dist: "distinct (r # as @ bs)"
    and old: "chain h (butlast (r # as) @ [pred_node r as])" "chain h (succ_node r bs # tl (bs @ [r]))"
    and nx: "\<And>m. m \<noteq> n \<Longrightarrow> m \<noteq> pred_node r as \<Longrightarrow> nxt (nodes h' m) = nxt (nodes h m)"
    and pv: "\<And>m. m \<noteq> n \<Longrightarrow> m \<noteq> succ_node r bs \<Longrightarrow> prv (nodes h' m) = prv (nodes h m)"
    and n: "n \<noteq> r" "n \<notin> set as" "n \<notin> set bs"
  shows "chain h' (butlast (r # as) @ [pred_node r as])" "chain h' (succ_node r bs # tl (bs @ [r]))"
proof -
  from dist have da: "distinct (r # as)" and db: "distinct (r # bs)" and dab: "set as \<inter> set bs = {}"
    and ra: "r \<notin> set as" and rb: "r \<notin> set bs" by auto
  have sp: "succ_node r bs \<in> insert r (set bs)" by (rule succ_node_in)
  have pp: "pred_node r as \<in> insert r (set as)" by (rule pred_node_in)
  have "chain h (butlast (r # as) @ [pred_node r as]) = chain h' (butlast (r # as) @ [pred_node r as])"
  proof (rule chain_cong)
    fix m assume "m \<in> set (butlast (butlast (r # as) @ [pred_node r as]))"
    then have m: "m \<in> set (butlast (r # as))" by (simp only: butlast_snoc)
    with pred_notin_butlast [OF da] have "m \<noteq> pred_node r as" by blast
    moreover from subsetD [OF butlast_pred_subset m] n have "m \<noteq> n" by auto
    ultimately show "nxt (nodes h m) = nxt (nodes h' m)" using nx by simp
  next
    fix m assume "m \<in> set (tl (butlast (r # as) @ [pred_node r as]))"
    then have m: "m \<in> set as" by (simp only: set_tl_pred)
    with sp dab ra n have "m \<noteq> succ_node r bs" "m \<noteq> n" by auto
    then show "prv (nodes h m) = prv (nodes h' m)" using pv by simp
  qed
  with old(1) show "chain h' (butlast (r # as) @ [pred_node r as])" by simp
  have "chain h (succ_node r bs # tl (bs @ [r])) = chain h' (succ_node r bs # tl (bs @ [r]))"
  proof (rule chain_cong)
    fix m assume "m \<in> set (butlast (succ_node r bs # tl (bs @ [r])))"
    then have m: "m \<in> set bs" by (simp only: set_butlast_succ)
    with pp dab rb n have "m \<noteq> pred_node r as" "m \<noteq> n" by auto
    then show "nxt (nodes h m) = nxt (nodes h' m)" using nx by simp
  next
    fix m assume "m \<in> set (tl (succ_node r bs # tl (bs @ [r])))"
    then have m: "m \<in> set (tl (bs @ [r]))" by simp
    with succ_notin_tl [OF db] have "m \<noteq> succ_node r bs" by blast
    moreover from subsetD [OF tl_succ_subset m] n have "m \<noteq> n" by auto
    ultimately show "prv (nodes h m) = prv (nodes h' m)" using pv by simp
  qed
  with old(2) show "chain h' (succ_node r bs # tl (bs @ [r]))" by simp
qed

lemma insert_before_effect:
  assumes "nxt (nodes h n) = n" "prv (nodes h n) = n" "n \<noteq> p" "prv (nodes h p) = l" "n \<noteq> l"
  shows "\<exists>h'. insert_before p n h = Inr h' \<and>
    (\<forall>m. nxt (nodes h' m) = (if m = l then n else if m = n then p else nxt (nodes h m))) \<and>
    (\<forall>m. prv (nodes h' m) = (if m = p then n else if m = n then l else prv (nodes h m))) \<and>
    (\<forall>m. nlist (nodes h' m) = (if m = n then nlist (nodes h p) else nlist (nodes h m))) \<and>
    (\<forall>m. owner (nodes h' m) = owner (nodes h m)) \<and> counts h' = counts h"
  using assms by (simp add: insert_before_def Let_def heap_simps)

lemma unlink_effect:
  assumes "nxt (nodes h n) = p" "prv (nodes h n) = l" "p \<noteq> n" "l \<noteq> n"
  shows "nxt (nodes (unlink n h) m) = (if m = n then n else if m = l then p else nxt (nodes h m))"
    "prv (nodes (unlink n h) m) = (if m = n then n else if m = p then l else prv (nodes h m))"
    "nlist (nodes (unlink n h) m) = (if m = n then None else nlist (nodes h m))"
    "owner (nodes (unlink n h) m) = owner (nodes h m)"
    "counts (unlink n h) = counts h"
  using assms by (simp_all add: unlink_def Let_def heap_simps)

lemma unlink_free:
  assumes "is_free h n"
  shows "unlink n h = h"
proof (rule iheap.equality)
  show "nodes (unlink n h) = nodes h"
    using assms by (auto intro!: ext node.equality simp: unlink_def Let_def heap_simps is_free_def)
qed (simp_all add: unlink_def Let_def heap_simps)

lemma is_list_ring: "is_list h r xs \<Longrightarrow> ring h r xs"
  by (simp add: is_list_def)

lemma is_list_count: "is_list h r xs \<Longrightarrow> counts h r = of_nat (length xs)"
  by (simp add: is_list_def)

lemma ring_facts:
  assumes "ring h r (as @ bs)"
  shows "chain h (butlast (r # as) @ [pred_node r as])" "nxt (nodes h (pred_node r as)) = succ_node r bs"
    "prv (nodes h (succ_node r bs)) = pred_node r as" "chain h (succ_node r bs # tl (bs @ [r]))"
    "distinct (r # as @ bs)"
  using assms unfolding ring_def ring_cut chain_pair by auto

lemma ring_mem: "ring h r xs \<Longrightarrow> nlist (nodes h n) = Some r \<longleftrightarrow> n = r \<or> n \<in> set xs"
  by (simp add: ring_def)

lemma ring_owner: "ring h r xs \<Longrightarrow> n \<in> set xs \<Longrightarrow> owner (nodes h n) \<noteq> None"
  by (simp add: ring_def)

lemma ring_begin: "ring h r xs \<Longrightarrow> nxt (nodes h r) = succ_node r xs"
  using ring_facts(2) [of h r "[]" xs] by (simp add: pred_node_def)

lemma ring_last: "ring h r xs \<Longrightarrow> prv (nodes h r) = pred_node r xs"
  using ring_facts(3) [of h r xs "[]"] by (simp add: succ_node_def)

lemmas is_list_facts = ring_facts [OF is_list_ring]
lemmas is_list_mem = ring_mem [OF is_list_ring]
lemmas is_list_owner = ring_owner [OF is_list_ring]
lemmas is_list_begin = ring_begin [OF is_list_ring]
lemmas is_list_last = ring_last [OF is_list_ring]

lemma is_free_notin: "is_free h n \<Longrightarrow> ring h r xs \<Longrightarrow> n \<noteq> r \<and> n \<notin> set xs"
  using ring_mem [of h r xs n] by (auto simp: is_free_def)

lemma ring_set_count [simp]: "ring (set_count q c h) r xs = ring h r xs"
proof -
  have "chain (set_count q c h) ys = chain h ys" for ys
    by (rule chain_cong) (simp_all add: heap_simps)
  then show ?thesis by (simp add: ring_def heap_simps)
qed

lemma is_free_set_count [simp]: "is_free (set_count q c h) n = is_free h n"
  by (simp add: is_free_def heap_simps)

lemma frameI:
  assumes "\<And>m. m \<noteq> n \<Longrightarrow> m \<noteq> l \<Longrightarrow> nxt (nodes h' m) = nxt (nodes h m)"
    and "\<And>m. m \<noteq> n \<Longrightarrow> m \<noteq> p \<Longrightarrow> prv (nodes h' m) = prv (nodes h m)"
    and "\<And>m. m \<noteq> n \<Longrightarrow> nlist (nodes h' m) = nlist (nodes h m)"
    and "\<And>m. owner (nodes h' m) = owner (nodes h m)"
    and "\<And>q. q \<noteq> r \<Longrightarrow> counts h' q = counts h q"
    and "nlist (nodes h l) = Some r" "nlist (nodes h p) = Some r"
  shows "frame h h' r n"
  unfolding frame_def
proof (intro conjI allI impI)
  fix m assume "m \<noteq> n" "nlist (nodes h m) \<noteq> Some r"
  moreover from this assms(6,7) have "m \<noteq> l" "m \<noteq> p" by auto
  ultimately show "nodes h' m = nodes h m"
    using assms(1-4) by (intro node.equality) simp_all
qed (use assms(3-5) in simp_all)

lemma insert_before_correct:
  assumes l: "is_list h r (as @ bs)" and f: "is_free h n"
  shows "\<exists>h'. insert_before (succ_node r bs) n (set_count r (counts h r + 1) h) = Inr h' \<and>
           is_list h' r (as @ n # bs) \<and> frame h h' r n"
proof -
  let ?p = "succ_node r bs" and ?l = "pred_node r as"
  note old = is_list_facts [OF l] and mem = is_list_mem [OF l]
  from is_free_notin [OF f is_list_ring [OF l]] have n: "n \<noteq> r" "n \<notin> set as" "n \<notin> set bs" by auto
  with pred_node_in [of r as] succ_node_in [of r bs] have nlp: "n \<noteq> ?l" "n \<noteq> ?p" by auto
  from pred_node_in [of r as] succ_node_in [of r bs]
  have pr: "nlist (nodes h ?p) = Some r" and lr: "nlist (nodes h ?l) = Some r"
    by (auto simp: mem)
  obtain h' where h': "insert_before ?p n (set_count r (counts h r + 1) h) = Inr h'"
    and nx: "\<And>m. nxt (nodes h' m) = (if m = ?l then n else if m = n then ?p else nxt (nodes h m))"
    and pv: "\<And>m. prv (nodes h' m) = (if m = ?p then n else if m = n then ?l else prv (nodes h m))"
    and nl: "\<And>m. nlist (nodes h' m) = (if m = n then Some r else nlist (nodes h m))"
    and ow: "\<And>m. owner (nodes h' m) = owner (nodes h m)"
    and ct: "counts h' = (counts h)(r := counts h r + 1)"
    using insert_before_effect [of "set_count r (counts h r + 1) h" n ?p ?l] f nlp old(3) pr
    by (auto simp: heap_simps is_free_def)
  have new: "chain h' (butlast (r # as) @ [?l])" "chain h' (?p # tl (bs @ [r]))"
    using chain_rewire [OF old(5,1,4), of n h'] n by (simp_all add: nx pv)
  have "chain h' (r # (as @ n # bs) @ [r])"
    unfolding ring_cut_node chain_pair using new nlp by (simp add: nx pv)
  moreover have "counts h' r = of_nat (length (as @ n # bs))"
    using ct is_list_count [OF l] by simp
  ultimately have "is_list h' r (as @ n # bs)"
    unfolding is_list_def ring_def using old(5) n is_list_owner [OF l] f
    by (auto simp: nl ow mem is_free_def)
  moreover have "frame h h' r n"
    by (rule frameI [of n ?l _ _ ?p]) (simp_all add: nx pv nl ow ct pr lr)
  ultimately show ?thesis using h' by blast
qed

lemma unlink_ring:
  assumes l: "ring h r (as @ n # bs)" and h': "h' = unlink n h"
  shows "ring h' r (as @ bs) \<and> is_free h' n \<and> frame h h' r n \<and> nxt (nodes h n) = succ_node r bs"
proof -
  let ?p = "succ_node r bs" and ?l = "pred_node r as"
  note mem = ring_mem [OF l]
  from l have ring: "chain h (butlast (r # as) @ ?l # n # ?p # tl (bs @ [r]))"
    and dist: "distinct (r # as @ n # bs)"
    unfolding ring_def ring_cut_node by auto
  then have old: "chain h (butlast (r # as) @ [?l])" "prv (nodes h n) = ?l"
      "nxt (nodes h n) = ?p" "chain h (?p # tl (bs @ [r]))"
    by (simp_all only: chain_pair chain.simps)
  from dist have n: "n \<noteq> r" "n \<notin> set as" "n \<notin> set bs" and dist': "distinct (r # as @ bs)" by auto
  with pred_node_in [of r as] succ_node_in [of r bs] have nlp: "?l \<noteq> n" "?p \<noteq> n" by auto
  note eff = unlink_effect [of h n ?p ?l, OF old(3,2) nlp(2,1), folded h']
  have new: "chain h' (butlast (r # as) @ [?l])" "chain h' (?p # tl (bs @ [r]))"
    using chain_rewire [OF dist' old(1,4), of n h'] n by (simp_all add: eff)
  have "chain h' (r # (as @ bs) @ [r])"
    unfolding ring_cut chain_pair using new nlp by (simp add: eff)
  then have "ring h' r (as @ bs)"
    unfolding ring_def using dist n ring_owner [OF l] by (auto simp: eff mem)
  moreover have "is_free h' n"
    using ring_owner [OF l, of n] by (simp add: is_free_def eff)
  moreover have "frame h h' r n"
    using pred_node_in [of r as] succ_node_in [of r bs]
    by (intro frameI [of n ?l _ _ ?p]) (auto simp: eff mem)
  ultimately show ?thesis using old(3) by blast
qed

lemma unlink_correct:
  assumes l: "is_list h r (as @ n # bs)"
    and h': "h' = unlink n (set_count r (counts h r - 1) h)"
  shows "is_list h' r (as @ bs) \<and> is_free h' n \<and> frame h h' r n \<and> nxt (nodes h n) = succ_node r bs"
proof -
  have "counts h' = (counts h)(r := counts h r - 1)"
    by (simp add: h' unlink_def Let_def heap_simps)
  then show ?thesis
    using unlink_ring [of "set_count r (counts h r - 1) h" r as n bs, OF _ h'] is_list_ring [OF l]
      is_list_count [OF l]
    by (auto simp: is_list_def frame_def heap_simps)
qed

text \<open>The operations in these terms; a free node stays free unless it is the one linked.\<close>

lemma frame_free: "frame h h' r n \<Longrightarrow> m \<noteq> n \<Longrightarrow> is_free h m \<Longrightarrow> is_free h' m"
  by (auto simp: frame_def is_free_def)

lemma frame_list:
  assumes f: "frame h h' r n" and l: "is_list h q ys" and "q \<noteq> r"
    and n: "nlist (nodes h n) \<noteq> Some q" "nlist (nodes h' n) \<noteq> Some q"
  shows "is_list h' q ys"
proof -
  have mem: "nlist (nodes h' m) = Some q \<longleftrightarrow> m = q \<or> m \<in> set ys" for m
    using f n is_list_mem [OF l, of m] by (cases "m = n") (auto simp: frame_def)
  have same: "nodes h' m = nodes h m" if "m = q \<or> m \<in> set ys" for m
    using that f n \<open>q \<noteq> r\<close> is_list_mem [OF l, of m] by (auto simp: frame_def)
  have "chain h (q # ys @ [q]) = chain h' (q # ys @ [q])"
    by (rule chain_cong) (auto simp: same dest!: in_set_butlastD)
  with f l \<open>q \<noteq> r\<close> mem show ?thesis
    by (auto simp: is_list_def ring_def frame_def)
qed

lemma push_back_correct:
  assumes "is_list h r xs" "is_free h n"
  shows "\<exists>h'. push_back r n h = Inr h' \<and> is_list h' r (xs @ [n]) \<and> frame h h' r n"
  using insert_before_correct [of h r xs "[]" n] assms by (simp add: push_back_def succ_node_def)

lemma push_front_correct:
  assumes "is_list h r xs" "is_free h n"
  shows "\<exists>h'. push_front r n h = Inr h' \<and> is_list h' r (n # xs) \<and> frame h h' r n"
  using insert_before_correct [of h r "[]" xs n] assms is_list_begin [OF assms(1)]
  by (simp add: push_front_def heap_simps)

lemma list_contains_iff: "is_list h r xs \<Longrightarrow> n \<noteq> r \<Longrightarrow> list_contains r n h \<longleftrightarrow> n \<in> set xs"
  by (simp add: list_contains_def is_list_mem)

lemma list_empty_iff: "is_list h r xs \<Longrightarrow> list_empty r h \<longleftrightarrow> xs = []"
  using is_list_begin [of h r xs] by (cases xs) (auto simp: list_empty_def succ_node_def is_list_def ring_def)

lemma list_remove_correct:
  assumes "is_list h r (as @ n # bs)"
  shows "\<exists>h'. list_remove r n h = Inr h' \<and> is_list h' r (as @ bs) \<and> is_free h' n \<and> frame h h' r n"
  using unlink_correct [OF assms refl] is_list_mem [OF assms, of n]
  by (simp add: list_remove_def list_contains_def)

lemma list_remove_free:
  assumes "is_free h n"
  shows "\<exists>h'. list_remove r n h = Inr h' \<and> h' = h"
  using assms unlink_free [of h n]
  by (simp add: list_remove_def list_contains_def set_count_def is_free_def)

lemma remove_it_correct:
  assumes "is_list h r (as @ n # bs)"
  shows "\<exists>h'. remove_it r n h = Inr (h', succ_node r bs) \<and> is_list h' r (as @ bs) \<and>
           is_free h' n \<and> frame h h' r n"
  using unlink_correct [OF assms refl] is_list_mem [OF assms, of n]
  by (simp add: remove_it_def list_contains_def Let_def heap_simps)

lemma list_insert_correct:
  assumes "is_list h r (as @ bs)" "is_free h n"
  shows "\<exists>h'. list_insert r (succ_node r bs) n h = Inr (h', n) \<and> is_list h' r (as @ n # bs) \<and> frame h h' r n"
  using insert_before_correct [OF assms] is_list_mem [OF assms(1), of "succ_node r bs"]
    succ_node_in [of r bs]
  by (auto simp: list_insert_def)

lemma pop_front_correct:
  assumes "is_list h r (n # xs)"
  shows "is_list (pop_front r h) r xs \<and> is_free (pop_front r h) n \<and> frame h (pop_front r h) r n"
  using unlink_correct [of h r "[]" n xs, OF _ refl] assms is_list_begin [OF assms]
  by (simp add: pop_front_def Let_def heap_simps succ_node_def)

lemma pop_back_correct:
  assumes "is_list h r (xs @ [n])"
  shows "is_list (pop_back r h) r xs \<and> is_free (pop_back r h) n \<and> frame h (pop_back r h) r n"
  using unlink_correct [of h r xs n "[]", OF _ refl] assms is_list_last [OF assms]
  by (simp add: pop_back_def Let_def heap_simps pred_node_def)

lemma list_front_correct: "is_list h r (n # xs) \<Longrightarrow> list_front r h = owner (nodes h n)"
  using is_list_begin [of h r "n # xs"] by (simp add: list_front_def succ_node_def)

lemma clear_loop_correct:
  "ring h r xs \<Longrightarrow> length xs \<le> k \<Longrightarrow>
     \<exists>h'. clear_loop k r h = Some h' \<and> ring h' r [] \<and>
       (\<forall>n. n \<in> set xs \<or> is_free h n \<longrightarrow> is_free h' n)"
proof (induction xs arbitrary: k h rule: rev_induct)
  case Nil
  then show ?case using ring_last [OF Nil(1)] by (simp add: pred_node_def)
next
  case (snoc n xs)
  have p: "prv (nodes h r) = n" using ring_last [OF snoc.prems(1)] by (simp add: pred_node_def)
  have "n \<noteq> r" using snoc.prems(1) by (auto simp: ring_def)
  obtain k' where k: "k = Suc k'" using snoc.prems(2) by (cases k) auto
  have g: "ring (unlink n h) r xs" "is_free (unlink n h) n" "frame h (unlink n h) r n"
    using unlink_ring [of h r xs n "[]", OF _ refl] snoc.prems(1) by simp_all
  obtain h' where h': "clear_loop k' r (unlink n h) = Some h'" "ring h' r []"
      "\<forall>m. m \<in> set xs \<or> is_free (unlink n h) m \<longrightarrow> is_free h' m"
    using snoc.IH [OF g(1), of k'] snoc.prems(2) k by auto
  moreover have "is_free (unlink n h) m" if "is_free h m" for m
    using that g(2) frame_free [OF g(3)] by (cases "m = n") auto
  ultimately show ?case using p \<open>n \<noteq> r\<close> k g(2) by auto
qed

lemma list_clear_correct:
  assumes "is_list h r xs" "length xs < 2 ^ 64"
  shows "\<exists>h'. list_clear r h = Some h' \<and> is_list h' r [] \<and> (\<forall>n \<in> set xs. is_free h' n)"
proof -
  have "unat (counts h r) = length xs"
    using assms is_list_count [OF assms(1)] by (simp add: unat_of_nat take_bit_nat_eq_self)
  then obtain h' where "clear_loop (unat (counts h r)) r h = Some h'" "ring h' r []"
      "\<forall>n \<in> set xs. is_free h' n"
    using clear_loop_correct [OF is_list_ring [OF assms(1)], of "unat (counts h r)"] by auto
  then show ?thesis by (auto simp: list_clear_def is_list_def heap_simps)
qed

section \<open>The contract of a list\<close>

text \<open>
  What the clients of \<open>Intrusive::List\<close> rely on: \<open>repr h xs\<close> says that the list holds the
  nodes \<open>xs\<close> in order, \<open>free h n\<close> that node \<open>n\<close> is linked nowhere.
\<close>

locale linked_sequence =
  fixes repr :: "'h \<Rightarrow> addr list \<Rightarrow> bool"
    and free :: "'h \<Rightarrow> addr \<Rightarrow> bool"
    and pushb :: "addr \<Rightarrow> 'h \<Rightarrow> 'h res"
    and pushf :: "addr \<Rightarrow> 'h \<Rightarrow> 'h res"
    and rem :: "addr \<Rightarrow> 'h \<Rightarrow> 'h res"
    and popf :: "'h \<Rightarrow> 'h"
    and first :: "'h \<Rightarrow> addr"
    and isempty :: "'h \<Rightarrow> bool"
  assumes repr_pushb: "repr h xs \<Longrightarrow> free h n \<Longrightarrow>
      \<exists>h'. pushb n h = Inr h' \<and> repr h' (xs @ [n]) \<and> (\<forall>m. m \<noteq> n \<longrightarrow> free h m \<longrightarrow> free h' m)"
    and repr_pushf: "repr h xs \<Longrightarrow> free h n \<Longrightarrow>
      \<exists>h'. pushf n h = Inr h' \<and> repr h' (n # xs) \<and> (\<forall>m. m \<noteq> n \<longrightarrow> free h m \<longrightarrow> free h' m)"
    and repr_rem: "repr h (as @ n # bs) \<Longrightarrow>
      \<exists>h'. rem n h = Inr h' \<and> repr h' (as @ bs) \<and> free h' n \<and> (\<forall>m. free h m \<longrightarrow> free h' m)"
    and rem_free: "free h n \<Longrightarrow> rem n h = Inr h"
    and repr_popf: "repr h (n # xs) \<Longrightarrow>
      repr (popf h) xs \<and> free (popf h) n \<and> (\<forall>m. free h m \<longrightarrow> free (popf h) m)"
    and repr_first: "repr h (n # xs) \<Longrightarrow> first h = n"
    and repr_isempty: "repr h xs \<Longrightarrow> isempty h \<longleftrightarrow> xs = []"
    and repr_distinct: "repr h xs \<Longrightarrow> distinct xs"
    and repr_free: "repr h xs \<Longrightarrow> free h n \<Longrightarrow> n \<notin> set xs"
begin

primrec push_all :: "addr list \<Rightarrow> 'h \<Rightarrow> 'h res" where
  "push_all [] h = Inr h"
| "push_all (n # ns) h = bindr (pushb n h) (push_all ns)"

primrec drain :: "nat \<Rightarrow> 'h \<Rightarrow> addr list" where
  "drain 0 h = []"
| "drain (Suc k) h = (if isempty h then [] else first h # drain k (popf h))"

lemma push_all_repr:
  "\<lbrakk>repr h xs; distinct ns; \<And>n. n \<in> set ns \<Longrightarrow> free h n\<rbrakk> \<Longrightarrow>
     \<exists>h'. push_all ns h = Inr h' \<and> repr h' (xs @ ns)"
proof (induction ns arbitrary: h xs)
  case (Cons n ns)
  obtain h1 where h1: "pushb n h = Inr h1" "repr h1 (xs @ [n])" "\<And>m. m \<noteq> n \<Longrightarrow> free h m \<Longrightarrow> free h1 m"
    using repr_pushb [OF Cons.prems(1), of n] Cons.prems(3) by auto
  then obtain h' where "push_all ns h1 = Inr h'" "repr h' ((xs @ [n]) @ ns)"
    using Cons.IH [of h1 "xs @ [n]"] Cons.prems(2,3) by fastforce
  with h1 show ?case by simp
qed simp

lemma drain_repr: "repr h xs \<Longrightarrow> length xs \<le> k \<Longrightarrow> drain k h = xs"
proof (induction k arbitrary: h xs)
  case (Suc k)
  then show ?case
    by (cases xs) (auto simp: repr_isempty repr_first dest: repr_popf)
qed simp

text \<open>First in, first out.\<close>

lemma fifo:
  assumes "repr h []" "distinct ns" "\<And>n. n \<in> set ns \<Longrightarrow> free h n"
  shows "\<exists>h'. push_all ns h = Inr h' \<and> drain (length ns) h' = ns"
  using push_all_repr [OF assms] drain_repr by fastforce

text \<open>Removing a node, linked or not, and appending it leaves it at the end of the list.\<close>

lemma move_to_back:
  assumes "repr h xs" "n \<in> set xs \<or> free h n"
  shows "\<exists>h'. bindr (rem n h) (pushb n) = Inr h' \<and> repr h' (remove1 n xs @ [n])"
proof (cases "n \<in> set xs")
  case True
  then obtain as bs where xs: "xs = as @ n # bs" "n \<notin> set as" by (meson split_list_first)
  then obtain h1 where "rem n h = Inr h1" "repr h1 (as @ bs)" "free h1 n"
    using repr_rem assms(1) by blast
  with repr_pushb [of h1 "as @ bs" n] xs show ?thesis
    by (auto simp: remove1_append_Cons)
next
  case False
  with assms have "free h n" by simp
  with repr_pushb [OF assms(1)] False show ?thesis
    by (auto simp: rem_free remove1_idem)
qed

end

interpretation ilist: linked_sequence "\<lambda>h. is_list h r" is_free "push_back r" "push_front r"
  "list_remove r" "pop_front r" "list_begin r" "list_empty r" for r
proof (unfold_locales, goal_cases)
  case (1 h xs n) then show ?case using push_back_correct frame_free by blast
next
  case (2 h xs n) then show ?case using push_front_correct frame_free by blast
next
  case (3 h as n bs) then show ?case using list_remove_correct frame_free by metis
next
  case (4 h n) then show ?case using list_remove_free by blast
next
  case (5 h n xs) then show ?case using pop_front_correct frame_free by metis
next
  case (6 h n xs) then show ?case by (simp add: list_begin_def is_list_begin succ_node_def)
next
  case (7 h xs) then show ?case by (rule list_empty_iff)
next
  case (8 h xs) then show ?case by (simp add: is_list_def ring_def)
next
  case (9 h xs n) then show ?case using is_free_notin is_list_ring by blast
qed

end
