(* ===== verification/Prioritize.thy ===== *)
theory Prioritize
  imports Intrusive
begin

text \<open>
  \<open>Intrusive::prioritize\<close> and \<open>Intrusive::deprioritize\<close>: the pointer loops, the functions on
  sequences that the Sender and the Receiver models use, the proof that the loops compute
  these functions, and the locale of the comparators they are called with. A comparator is a
  strict weak ordering; over it both operations keep a list sorted.
\<close>

section \<open>The pointer loops\<close>

definition deref :: "iterator \<Rightarrow> 'e iheap \<Rightarrow> 'e" where
  "deref it h = the (owner (nodes h it))"

text \<open>Each loop visits a list element at most once; its fuel is the element count.\<close>

fun prioritize_loop ::
  "nat \<Rightarrow> ('e \<Rightarrow> 'e \<Rightarrow> bool) \<Rightarrow> addr \<Rightarrow> iterator \<Rightarrow> iterator \<Rightarrow> 'e iheap \<Rightarrow> iterator res" where
  "prioritize_loop k lt r it_node it_pos h =
     (if it_pos = list_begin r h then Inr it_pos
      else if \<not> lt (deref it_node h) (deref (prv (nodes h it_pos)) h) then Inr it_pos
      else case k of 0 \<Rightarrow> Inl OutOfFuel
           | Suc k' \<Rightarrow> prioritize_loop k' lt r it_node (prv (nodes h it_pos)) h)"

definition prioritize :: "addr \<Rightarrow> addr \<Rightarrow> ('e \<Rightarrow> 'e \<Rightarrow> bool) \<Rightarrow> 'e iheap \<Rightarrow> 'e iheap res" where
  "prioritize r n lt h =
     require AssertionFailed (list_contains r n h)
     (let it_node = list_get r n h
      in bindr (prioritize_loop (unat (list_size r h)) lt r it_node it_node h) (\<lambda>it_pos.
           if it_pos = it_node then Inr h
           else bindr (remove_it r it_node h) (\<lambda>(h1, _).
                bindr (list_insert r it_pos n h1) (\<lambda>(h2, _). Inr h2))))"

fun deprioritize_loop ::
  "nat \<Rightarrow> ('e \<Rightarrow> 'e \<Rightarrow> bool) \<Rightarrow> addr \<Rightarrow> iterator \<Rightarrow> iterator \<Rightarrow> 'e iheap \<Rightarrow> iterator res" where
  "deprioritize_loop k lt r it_node it_pos h =
     (if it_pos = list_end r h then Inr it_pos
      else if lt (deref it_node h) (deref it_pos h) then Inr it_pos
      else case k of 0 \<Rightarrow> Inl OutOfFuel
           | Suc k' \<Rightarrow> deprioritize_loop k' lt r it_node (nxt (nodes h it_pos)) h)"

definition deprioritize :: "addr \<Rightarrow> addr \<Rightarrow> ('e \<Rightarrow> 'e \<Rightarrow> bool) \<Rightarrow> 'e iheap \<Rightarrow> 'e iheap res" where
  "deprioritize r n lt h =
     require AssertionFailed (list_contains r n h)
     (let it_node = list_get r n h
      in bindr (deprioritize_loop (unat (list_size r h)) lt r it_node (nxt (nodes h it_node)) h) (\<lambda>it_pos.
           if it_pos = nxt (nodes h it_node) then Inr h
           else bindr (remove_it r it_node h) (\<lambda>(h1, _).
                bindr (list_insert r it_pos n h1) (\<lambda>(h2, _). Inr h2))))"

section \<open>The same on sequences\<close>

definition before :: "'a \<Rightarrow> 'a list \<Rightarrow> 'a list" where
  "before x xs = takeWhile (\<lambda>y. y \<noteq> x) xs"

definition after :: "'a \<Rightarrow> 'a list \<Rightarrow> 'a list" where
  "after x xs = tl (dropWhile (\<lambda>y. y \<noteq> x) xs)"

text \<open>The iterator after an element: the next element of the list as it is then.\<close>

definition next_in :: "'a \<Rightarrow> 'a list \<Rightarrow> 'a option" where
  "next_in x xs = (case after x xs of [] \<Rightarrow> None | y # _ \<Rightarrow> Some y)"

text \<open>The element overtakes the elements just before it as long as it compares less.\<close>

definition prioritize_seq :: "('a \<Rightarrow> 'a \<Rightarrow> bool) \<Rightarrow> 'a \<Rightarrow> 'a list \<Rightarrow> 'a list" where
  "prioritize_seq lt x xs =
     rev (dropWhile (lt x) (rev (before x xs))) @ x #
     rev (takeWhile (lt x) (rev (before x xs))) @ after x xs"

text \<open>The element lets pass the elements just after it until it compares less.\<close>

definition deprioritize_seq :: "('a \<Rightarrow> 'a \<Rightarrow> bool) \<Rightarrow> 'a \<Rightarrow> 'a list \<Rightarrow> 'a list" where
  "deprioritize_seq lt x xs =
     before x xs @ takeWhile (\<lambda>y. \<not> lt x y) (after x xs) @ x #
     dropWhile (\<lambda>y. \<not> lt x y) (after x xs)"

lemma before_after [simp]:
  "x \<notin> set as \<Longrightarrow> before x (as @ x # bs) = as"
  "x \<notin> set as \<Longrightarrow> after x (as @ x # bs) = bs"
  by (simp_all add: before_def after_def takeWhile_neq_append dropWhile_neq_append)

lemma before_after_id: "x \<in> set xs \<Longrightarrow> xs = before x xs @ x # after x xs"
  by (metis before_after split_list_first)

lemma notin_before: "x \<notin> set (before x xs)"
  by (auto simp: before_def dest: set_takeWhileD)

lemma before_Cons [simp]: "before x (x # xs) = []" "after x (x # xs) = xs"
  by (simp_all add: before_def after_def)

lemma set_before_subset: "set (before x xs) \<subseteq> set xs"
  by (auto simp: before_def dest: set_takeWhileD)

lemma set_after_subset: "set (after x xs) \<subseteq> set xs"
proof
  fix y assume "y \<in> set (after x xs)"
  then have "y \<in> set (dropWhile (\<lambda>y. y \<noteq> x) xs)"
    unfolding after_def by (cases "dropWhile (\<lambda>y. y \<noteq> x) xs") simp_all
  then show "y \<in> set xs" by (rule set_dropWhileD)
qed

lemma remove1_before_after: "x \<in> set xs \<Longrightarrow> remove1 x xs = before x xs @ after x xs"
  using before_after_id [of x xs] notin_before [of x xs]
  by (metis remove1_append_Cons)

lemma rev_takeWhile_dropWhile: "rev (dropWhile P (rev xs)) @ rev (takeWhile P (rev xs)) = xs"
  by (metis rev_append rev_rev_ident takeWhile_dropWhile_id)

lemma mset_prioritize_seq: "x \<in> set xs \<Longrightarrow> mset (prioritize_seq lt x xs) = mset xs"
proof -
  assume x: "x \<in> set xs"
  have "mset (prioritize_seq lt x xs) =
      mset (rev (dropWhile (lt x) (rev (before x xs))) @ rev (takeWhile (lt x) (rev (before x xs)))) +
      {#x#} + mset (after x xs)"
    by (simp add: prioritize_seq_def)
  also have "\<dots> = mset (before x xs @ x # after x xs)"
    by (simp only: rev_takeWhile_dropWhile) simp
  finally show ?thesis using before_after_id [OF x] by simp
qed

lemma mset_deprioritize_seq: "x \<in> set xs \<Longrightarrow> mset (deprioritize_seq lt x xs) = mset xs"
proof -
  assume x: "x \<in> set xs"
  have "mset (deprioritize_seq lt x xs) = mset (before x xs) + {#x#} +
      mset (takeWhile (\<lambda>y. \<not> lt x y) (after x xs) @ dropWhile (\<lambda>y. \<not> lt x y) (after x xs))"
    by (simp add: deprioritize_seq_def del: takeWhile_dropWhile_id)
  also have "\<dots> = mset (before x xs @ x # after x xs)"
    by (simp only: takeWhile_dropWhile_id) simp
  finally show ?thesis using before_after_id [OF x] by simp
qed

lemma set_prioritize_seq: "x \<in> set xs \<Longrightarrow> set (prioritize_seq lt x xs) = set xs"
  by (metis mset_prioritize_seq set_mset_mset)

lemma set_deprioritize_seq: "x \<in> set xs \<Longrightarrow> set (deprioritize_seq lt x xs) = set xs"
  by (metis mset_deprioritize_seq set_mset_mset)

lemma distinct_prioritize_seq: "x \<in> set xs \<Longrightarrow> distinct (prioritize_seq lt x xs) = distinct xs"
  by (metis mset_prioritize_seq mset_eq_imp_distinct_iff)

lemma distinct_deprioritize_seq: "x \<in> set xs \<Longrightarrow> distinct (deprioritize_seq lt x xs) = distinct xs"
  by (metis mset_deprioritize_seq mset_eq_imp_distinct_iff)

lemma remove1_prioritize_seq: "x \<in> set xs \<Longrightarrow> remove1 x (prioritize_seq lt x xs) = remove1 x xs"
proof -
  assume x: "x \<in> set xs"
  have "x \<notin> set (dropWhile (lt x) (rev (before x xs)))"
    using notin_before [of x xs] by (auto dest: set_dropWhileD)
  then have "remove1 x (prioritize_seq lt x xs) =
      (rev (dropWhile (lt x) (rev (before x xs))) @ rev (takeWhile (lt x) (rev (before x xs)))) @ after x xs"
    by (simp add: prioritize_seq_def remove1_append)
  then show ?thesis by (simp only: rev_takeWhile_dropWhile remove1_before_after [OF x])
qed

lemma remove1_deprioritize_seq: "x \<in> set xs \<Longrightarrow> x \<notin> set (after x xs) \<Longrightarrow>
    remove1 x (deprioritize_seq lt x xs) = remove1 x xs"
proof -
  assume x: "x \<in> set xs" and a: "x \<notin> set (after x xs)"
  have "x \<notin> set (before x xs @ takeWhile (\<lambda>y. \<not> lt x y) (after x xs))"
    using notin_before [of x xs] a by (auto dest: set_takeWhileD)
  then have "remove1 x (deprioritize_seq lt x xs) =
      before x xs @ takeWhile (\<lambda>y. \<not> lt x y) (after x xs) @ dropWhile (\<lambda>y. \<not> lt x y) (after x xs)"
    by (simp add: deprioritize_seq_def remove1_append)
  then show ?thesis by (simp only: takeWhile_dropWhile_id remove1_before_after [OF x])
qed

lemma prioritize_seq_cong:
  "\<lbrakk>\<And>y. y \<in> set xs \<Longrightarrow> lt x y = lt' x y\<rbrakk> \<Longrightarrow> prioritize_seq lt x xs = prioritize_seq lt' x xs"
proof -
  assume eq: "\<And>y. y \<in> set xs \<Longrightarrow> lt x y = lt' x y"
  then have "takeWhile (lt x) (rev (before x xs)) = takeWhile (lt' x) (rev (before x xs))"
      "dropWhile (lt x) (rev (before x xs)) = dropWhile (lt' x) (rev (before x xs))"
    using set_before_subset [of x xs] by (auto intro!: takeWhile_cong dropWhile_cong)
  then show ?thesis by (simp add: prioritize_seq_def)
qed

lemma deprioritize_seq_cong:
  "\<lbrakk>\<And>y. y \<in> set xs \<Longrightarrow> lt x y = lt' x y\<rbrakk> \<Longrightarrow> deprioritize_seq lt x xs = deprioritize_seq lt' x xs"
proof -
  assume eq: "\<And>y. y \<in> set xs \<Longrightarrow> lt x y = lt' x y"
  then have "takeWhile (\<lambda>y. \<not> lt x y) (after x xs) = takeWhile (\<lambda>y. \<not> lt' x y) (after x xs)"
      "dropWhile (\<lambda>y. \<not> lt x y) (after x xs) = dropWhile (\<lambda>y. \<not> lt' x y) (after x xs)"
    using set_after_subset [of x xs] by (auto intro!: takeWhile_cong dropWhile_cong)
  then show ?thesis by (simp add: deprioritize_seq_def)
qed

section \<open>The loops compute the sequence functions\<close>

lemma prioritize_loop_correct:
  assumes "is_list h r (as1 @ as2 @ n # bs)" "it_pos = hd (as2 @ n # bs)" "length as1 \<le> k"
  shows "prioritize_loop k lt r n it_pos h =
     Inr (hd (rev (takeWhile (\<lambda>y. lt (deref n h) (deref y h)) (rev as1)) @ as2 @ n # bs))"
  using assms
proof (induction as1 arbitrary: as2 it_pos k rule: rev_induct)
  case Nil
  then have "it_pos = list_begin r h"
    by (simp add: list_begin_def is_list_begin succ_node_def hd_append)
  with Nil show ?case by simp
next
  case (snoc y ys)
  note l = snoc.prems(1)
  have bg: "list_begin r h = hd (ys @ [y])"
    using is_list_begin [OF l] by (simp add: list_begin_def succ_node_def hd_append)
  have pos: "succ_node r (as2 @ n # bs) = it_pos"
    using snoc.prems(2) by (simp add: succ_node_def hd_append)
  have prev: "prv (nodes h it_pos) = y"
    using is_list_facts(3) [of h r "ys @ [y]" "as2 @ n # bs"] l pos by (simp add: pred_node_def)
  have "it_pos \<in> set (as2 @ n # bs)" using snoc.prems(2) by (cases as2) auto
  moreover have "list_begin r h \<in> set (ys @ [y])"
    using bg by (metis list.set_sel(1) snoc_eq_iff_butlast)
  ultimately have neq: "it_pos \<noteq> list_begin r h"
    using l by (auto simp: is_list_def ring_def)
  obtain k' where k: "k = Suc k'" using snoc.prems(3) by (cases k) auto
  show ?case
  proof (cases "lt (deref n h) (deref y h)")
    case True
    have "prioritize_loop k' lt r n y h =
        Inr (hd (rev (takeWhile (\<lambda>y. lt (deref n h) (deref y h)) (rev ys)) @ (y # as2) @ n # bs))"
      by (rule snoc.IH) (use snoc.prems k in simp_all)
    with True neq prev k show ?thesis by simp
  next
    case False
    with neq prev snoc.prems(2) show ?thesis by simp
  qed
qed

lemma deprioritize_loop_correct:
  assumes "is_list h r (as @ bs)" "it_pos = succ_node r bs" "length bs \<le> k"
  shows "deprioritize_loop k lt r n it_pos h =
     Inr (succ_node r (dropWhile (\<lambda>y. \<not> lt (deref n h) (deref y h)) bs))"
  using assms
proof (induction bs arbitrary: as it_pos k)
  case Nil
  then show ?case by (simp add: list_end_def succ_node_def)
next
  case (Cons b bs)
  from Cons.prems have pos: "it_pos = b" and neq: "it_pos \<noteq> r"
    by (auto simp: succ_node_def is_list_def ring_def)
  have nx: "nxt (nodes h b) = succ_node r bs"
    using is_list_facts(2) [of h r "as @ [b]" bs] Cons.prems(1) by (simp add: pred_node_def)
  obtain k' where k: "k = Suc k'" using Cons.prems(3) by (cases k) auto
  have "deprioritize_loop k' lt r n (succ_node r bs) h =
      Inr (succ_node r (dropWhile (\<lambda>y. \<not> lt (deref n h) (deref y h)) bs))"
    by (rule Cons.IH [of "as @ [b]"]) (use Cons.prems k in simp_all)
  then show ?case using pos neq nx k by (simp add: list_end_def succ_node_def)
qed

text \<open>The shared tail of both operations: unlink the node and link it before another one.\<close>

lemma move_correct:
  assumes l: "is_list h r xs" "x \<in> set xs" and ys: "remove1 x xs = as @ bs" and pos: "it_pos = succ_node r bs"
  shows "\<exists>h'. bindr (remove_it r x h) (\<lambda>(h1, _). bindr (list_insert r it_pos x h1) (\<lambda>(h2, _). Inr h2)) = Inr h' \<and>
      is_list h' r (as @ x # bs)"
proof -
  have "is_list h r (before x xs @ x # after x xs)" using l before_after_id by metis
  then obtain h1 q where h1: "remove_it r x h = Inr (h1, q)" "is_list h1 r (before x xs @ after x xs)" "is_free h1 x"
    using remove_it_correct by blast
  with ys remove1_before_after [OF l(2)] have "is_list h1 r (as @ bs)" by simp
  from list_insert_correct [OF this h1(3)] h1(1) pos show ?thesis by auto
qed

lemma size_enough: "is_list h r xs \<Longrightarrow> length xs < 2 ^ 64 \<Longrightarrow> unat (list_size r h) = length xs"
  using is_list_count [of h r xs] by (simp add: list_size_def unat_of_nat take_bit_nat_eq_self)

theorem prioritize_refines:
  assumes l: "is_list h r xs" and x: "x \<in> set xs" and small: "length xs < 2 ^ 64"
  shows "\<exists>h'. prioritize r x lt h = Inr h' \<and>
     is_list h' r (prioritize_seq (\<lambda>a b. lt (deref a h) (deref b h)) x xs)"
proof -
  let ?c = "\<lambda>a b. lt (deref a h) (deref b h)"
  let ?over = "rev (takeWhile (?c x) (rev (before x xs)))" and ?stay = "rev (dropWhile (?c x) (rev (before x xs)))"
  have xs: "xs = before x xs @ x # after x xs" using before_after_id [OF x] .
  have inr: "list_contains r x h" using l x by (simp add: list_contains_def is_list_mem)
  have len: "length (before x xs) \<le> length xs"
    using arg_cong [OF xs, of length] by simp
  have loop: "prioritize_loop (unat (list_size r h)) lt r x x h = Inr (hd (?over @ x # after x xs))"
    using prioritize_loop_correct [of h r "before x xs" "[]" x "after x xs" x] l xs len
    by (simp add: size_enough [OF l small] del: prioritize_loop.simps deprioritize_loop.simps)
  have rm: "remove1 x xs = ?stay @ ?over @ after x xs"
    using remove1_before_after [OF x] rev_takeWhile_dropWhile [of "?c x" "before x xs"]
    by (metis append.assoc)
  show ?thesis
  proof (cases "?over = []")
    case True
    then have "?stay = before x xs"
      using rev_takeWhile_dropWhile [of "?c x" "before x xs"] by simp
    with True xs l loop inr show ?thesis
      by (simp add: prioritize_def list_get_def prioritize_seq_def del: prioritize_loop.simps)
  next
    case False
    then have pos: "hd (?over @ x # after x xs) = succ_node r (?over @ after x xs)"
      by (simp add: succ_node_def hd_append)
    have "hd (?over @ x # after x xs) \<in> set (before x xs)"
      using False by (metis hd_append2 list.set_sel(1) set_rev set_takeWhileD subsetD)
    then have "hd (?over @ x # after x xs) \<noteq> x" using notin_before by metis
    with move_correct [OF l x rm pos] loop inr show ?thesis
      by (simp add: prioritize_def list_get_def prioritize_seq_def del: prioritize_loop.simps)
  qed
qed

theorem deprioritize_refines:
  assumes l: "is_list h r xs" and x: "x \<in> set xs" and small: "length xs < 2 ^ 64"
  shows "\<exists>h'. deprioritize r x lt h = Inr h' \<and>
     is_list h' r (deprioritize_seq (\<lambda>a b. lt (deref a h) (deref b h)) x xs)"
proof -
  let ?c = "\<lambda>a b. lt (deref a h) (deref b h)"
  let ?pass = "takeWhile (\<lambda>y. \<not> ?c x y) (after x xs)" and ?rest = "dropWhile (\<lambda>y. \<not> ?c x y) (after x xs)"
  have xs: "xs = before x xs @ x # after x xs" using before_after_id [OF x] .
  have inr: "list_contains r x h" using l x by (simp add: list_contains_def is_list_mem)
  have "distinct (r # before x xs @ x # after x xs)"
    using l xs by (metis is_list_def ring_def)
  then have dist: "distinct (r # after x xs)" by auto
  have split: "is_list h r ((before x xs @ [x]) @ after x xs)" using l xs by simp
  have nx: "nxt (nodes h x) = succ_node r (after x xs)"
    using is_list_facts(2) [OF split] by (simp add: pred_node_def)
  have len: "length (after x xs) \<le> length xs"
    using arg_cong [OF xs, of length] by simp
  have loop: "deprioritize_loop (unat (list_size r h)) lt r x (succ_node r (after x xs)) h = Inr (succ_node r ?rest)"
    using deprioritize_loop_correct [OF split refl] len by (simp add: size_enough [OF l small] del: prioritize_loop.simps deprioritize_loop.simps)
  have rm: "remove1 x xs = (before x xs @ ?pass) @ ?rest"
    using remove1_before_after [OF x] by simp
  show ?thesis
  proof (cases "?pass = []")
    case True
    then have "?rest = after x xs" by (metis append_Nil takeWhile_dropWhile_id)
    with True xs l loop nx inr show ?thesis
      by (simp add: deprioritize_def list_get_def deprioritize_seq_def del: deprioritize_loop.simps)
  next
    case False
    have "succ_node r ?rest \<noteq> succ_node r (after x xs)"
    proof
      assume eq: "succ_node r ?rest = succ_node r (after x xs)"
      have "hd ?pass = succ_node r (after x xs)"
        using False by (metis append.assoc hd_append2 succ_node_def takeWhile_dropWhile_id)
      then have "succ_node r (after x xs) \<in> set ?pass" using False by (metis list.set_sel(1))
      moreover have "succ_node r ?rest \<in> insert r (set ?rest)" by (rule succ_node_in)
      moreover have "r \<notin> set ?pass"
        using dist by (auto dest: set_takeWhileD)
      moreover have "set ?pass \<inter> set ?rest = {}"
        using dist by (metis distinct.simps(2) distinct_append takeWhile_dropWhile_id)
      ultimately show False using eq by auto
    qed
    with move_correct [OF l x rm refl] loop nx inr show ?thesis
      by (simp add: deprioritize_def list_get_def deprioritize_seq_def del: deprioritize_loop.simps)
  qed
qed

section \<open>Comparators\<close>

text \<open>The comparators the source passes are strict weak orderings: \<open>a\<close> goes before \<open>b\<close>.\<close>

locale comparator =
  fixes lt :: "'a \<Rightarrow> 'a \<Rightarrow> bool"
  assumes asym: "lt a b \<Longrightarrow> \<not> lt b a"
    and negtrans: "\<not> lt a b \<Longrightarrow> \<not> lt b c \<Longrightarrow> \<not> lt a c"
begin

abbreviation ordered :: "'a list \<Rightarrow> bool" where
  "ordered xs \<equiv> sorted_wrt (\<lambda>a b. \<not> lt b a) xs"

lemma lt_trans: "lt a b \<Longrightarrow> \<not> lt c b \<Longrightarrow> lt a c"
  using asym negtrans by blast

text \<open>Prioritizing an element that does not belong further back sorts the list.\<close>

lemma ordered_prioritize:
  assumes x: "x \<in> set xs" and rest: "ordered (remove1 x xs)"
    and behind: "\<And>y. y \<in> set (after x xs) \<Longrightarrow> \<not> lt y x"
  shows "ordered (prioritize_seq lt x xs)"
proof -
  let ?stay = "rev (dropWhile (lt x) (rev (before x xs)))" and ?over = "rev (takeWhile (lt x) (rev (before x xs)))"
  have rm: "remove1 x xs = ?stay @ (?over @ after x xs)"
    using remove1_before_after [OF x] rev_takeWhile_dropWhile [of "lt x" "before x xs"] by (metis append.assoc)
  have stay: "\<not> lt x a" if "a \<in> set ?stay" for a
  proof (cases "dropWhile (lt x) (rev (before x xs))")
    case Nil
    with that show ?thesis by simp
  next
    case (Cons b bs)
    then have b: "\<not> lt x b" by (metis hd_dropWhile list.distinct(1) list.sel(1))
    from rest rm Cons have "ordered (rev bs @ [b])" by (simp add: sorted_wrt_append)
    with that Cons have "a = b \<or> \<not> lt b a" by (auto simp: sorted_wrt_append)
    with b negtrans show ?thesis by blast
  qed
  have over: "\<not> lt a x" if "a \<in> set ?over" for a
    using that asym by (auto dest: set_takeWhileD)
  show ?thesis
    unfolding prioritize_seq_def
    using rest rm stay over behind by (intro sorted_wrt_insert_between) auto
qed

text \<open>Deprioritizing an element that does not belong further forward sorts the list, and the
  element goes behind those it ties with.\<close>

lemma ordered_deprioritize:
  assumes x: "x \<in> set xs" and rest: "ordered (remove1 x xs)"
    and front: "\<And>y. y \<in> set (before x xs) \<Longrightarrow> \<not> lt x y"
  shows "ordered (deprioritize_seq lt x xs)"
proof -
  let ?pass = "takeWhile (\<lambda>y. \<not> lt x y) (after x xs)" and ?rest = "dropWhile (\<lambda>y. \<not> lt x y) (after x xs)"
  have rm: "remove1 x xs = (before x xs @ ?pass) @ ?rest"
    using remove1_before_after [OF x] by simp
  have behind: "\<not> lt a x" if "a \<in> set ?rest" for a
  proof (cases ?rest)
    case Nil
    with that show ?thesis by simp
  next
    case (Cons b bs)
    then have b: "lt x b" by (metis hd_dropWhile list.distinct(1) list.sel(1))
    from rest rm Cons have "ordered (b # bs)" by (simp add: sorted_wrt_append)
    with that Cons have "a = b \<or> \<not> lt a b" by auto
    with b asym lt_trans show ?thesis by blast
  qed
  have ahead: "\<not> lt x a" if "a \<in> set (before x xs @ ?pass)" for a
    using that front by (auto dest: set_takeWhileD)
  have "ordered ((before x xs @ ?pass) @ x # ?rest)"
    using rest rm behind ahead by (intro sorted_wrt_insert_between) auto
  then show ?thesis by (simp add: deprioritize_seq_def)
qed

text \<open>Pushing an element at the front and deprioritizing it inserts it in order.\<close>

lemma ordered_push_deprioritize:
  assumes "ordered xs"
  shows "ordered (deprioritize_seq lt x (x # xs))"
  using assms ordered_deprioritize [of x "x # xs"] by simp

end

text \<open>Comparing by an integer key, as every comparator of the source does.\<close>

interpretation by_key: comparator "\<lambda>a b. (key a :: int) < key b" for key
  by unfold_locales auto

section \<open>Lists ordered by a key that changes\<close>

abbreviation by_keys :: "('a \<Rightarrow> int) \<Rightarrow> 'a list \<Rightarrow> bool" where
  "by_keys k xs \<equiv> sorted_wrt (\<lambda>a b. \<not> k b < k a) xs"

text \<open>One element \<open>x\<close> of a list ordered by \<open>k\<close> gets the key \<open>k' x\<close>, the others keep theirs.\<close>

definition rekeyed :: "('a \<Rightarrow> int) \<Rightarrow> ('a \<Rightarrow> int) \<Rightarrow> 'a \<Rightarrow> 'a list \<Rightarrow> bool" where
  "rekeyed k k' x xs \<longleftrightarrow>
     distinct xs \<and> x \<in> set xs \<and> by_keys k xs \<and> (\<forall>y \<in> set xs. y \<noteq> x \<longrightarrow> k' y = k y)"

lemma rekeyed_parts:
  assumes "rekeyed k k' x xs"
  shows "x \<notin> set (after x xs)" "by_keys k (after x xs)"
    "y \<in> set (before x xs) \<Longrightarrow> k y \<le> k x" "z \<in> set (after x xs) \<Longrightarrow> k x \<le> k z"
proof -
  have xs: "xs = before x xs @ x # after x xs"
    using assms by (intro before_after_id) (simp add: rekeyed_def)
  have "distinct (before x xs @ x # after x xs)" using assms xs by (simp add: rekeyed_def)
  then show "x \<notin> set (after x xs)" by simp
  have "by_keys k (before x xs @ x # after x xs)" using assms xs by (simp add: rekeyed_def)
  then show "by_keys k (after x xs)" "y \<in> set (before x xs) \<Longrightarrow> k y \<le> k x"
    "z \<in> set (after x xs) \<Longrightarrow> k x \<le> k z"
    by (auto simp: sorted_wrt_append not_less)
qed

lemma rekeyed_others:
  assumes "rekeyed k k' x xs"
  shows "y \<in> set (before x xs) \<Longrightarrow> k' y = k y" "y \<in> set (after x xs) \<Longrightarrow> k' y = k y"
proof -
  have o: "z \<in> set xs \<Longrightarrow> z \<noteq> x \<Longrightarrow> k' z = k z" for z
    using assms by (simp add: rekeyed_def)
  show "y \<in> set (before x xs) \<Longrightarrow> k' y = k y"
    using o [of y] notin_before [of x xs] set_before_subset [of x xs] by auto
  show "y \<in> set (after x xs) \<Longrightarrow> k' y = k y"
    using o [of y] rekeyed_parts(1) [OF assms] set_after_subset [of x xs] by auto
qed

lemma rekeyed_rest:
  assumes "rekeyed k k' x xs"
  shows "by_keys k' (remove1 x xs)"
proof -
  have mem: "x \<in> set xs" and "by_keys k (remove1 x xs)"
    using assms by (auto simp: rekeyed_def intro: sorted_wrt_remove1)
  then show ?thesis
    unfolding remove1_before_after [OF mem]
    by (elim sorted_wrt_mono_rel [rotated]) (auto simp: rekeyed_others [OF assms])
qed

lemma lowered_key:
  assumes "rekeyed k k' x xs" "k' x \<le> k x"
  shows "by_keys k' (prioritize_seq (\<lambda>a b. k' a < k' b) x xs)"
proof (rule by_key.ordered_prioritize)
  show "x \<in> set xs" using assms(1) by (simp add: rekeyed_def)
  show "by_keys k' (remove1 x xs)" by (rule rekeyed_rest [OF assms(1)])
  show "\<not> k' y < k' x" if "y \<in> set (after x xs)" for y
    using that rekeyed_parts(4) [OF assms(1) that] rekeyed_others(2) [OF assms(1) that] assms(2) by linarith
qed

lemma raised_key:
  assumes "rekeyed k k' x xs" "k x \<le> k' x"
  shows "by_keys k' (deprioritize_seq (\<lambda>a b. k' a < k' b) x xs)"
proof (rule by_key.ordered_deprioritize)
  show "x \<in> set xs" using assms(1) by (simp add: rekeyed_def)
  show "by_keys k' (remove1 x xs)" by (rule rekeyed_rest [OF assms(1)])
  show "\<not> k' x < k' y" if "y \<in> set (before x xs)" for y
    using that rekeyed_parts(3) [OF assms(1) that] rekeyed_others(1) [OF assms(1) that] assms(2) by linarith
qed

text \<open>An element that grew keeps its place when its successor does not compare less.\<close>

lemma kept_key:
  assumes r: "rekeyed k k' x xs" and "k x \<le> k' x" "\<And>y. next_in x xs = Some y \<Longrightarrow> \<not> k' y < k' x"
  shows "by_keys k' xs"
proof -
  have mem: "x \<in> set xs" using r by (simp add: rekeyed_def)
  have after: "\<not> k' z < k' x" if z: "z \<in> set (after x xs)" for z
  proof (cases "after x xs")
    case (Cons y ys)
    then have "\<not> k' y < k' x" using assms(3) by (simp add: next_in_def)
    moreover have "k y \<le> k z" using rekeyed_parts(2) [OF r] Cons z by auto
    moreover have "k' y = k y" "k' z = k z" using rekeyed_others(2) [OF r] Cons z by auto
    ultimately show ?thesis by linarith
  qed (use z in simp)
  have "by_keys k' (before x xs @ x # after x xs)"
  proof (rule sorted_wrt_insert_between)
    show "by_keys k' (before x xs @ after x xs)"
      using rekeyed_rest [OF r] by (simp add: remove1_before_after [OF mem])
    show "\<forall>a \<in> set (before x xs). \<not> k' x < k' a"
      using rekeyed_parts(3) [OF r] rekeyed_others(1) [OF r] assms(2) by fastforce
  qed (use after in blast)
  then show ?thesis using before_after_id [OF mem] by simp
qed

lemma set_next_in: "next_in x xs = Some y \<Longrightarrow> y \<in> set xs"
  using set_after_subset [of x xs] by (auto simp: next_in_def split: list.splits)

end
