(* ===== verification/Timeout.thy ===== *)
theory Timeout
  imports Prioritize
begin

text \<open>
  \<open>Timeout\<close> and \<open>TimeoutManager\<close> of src/Timeout.h. A manager keeps the sequence of the owners
  of its linked timeouts; the expiration time lives in the timeout object and survives its
  unlinking, so it is a function of the owner. The time stamp counter is a parameter of the
  operation that reads it. The last section relates the sequence to the pointer list.
\<close>

record 'a timeout_manager =
  timeoutIntervalCycles :: u64
  nextTimeout :: u64
  tlist :: "'a list"
  expirationCycleTime :: "'a \<Rightarrow> u64"

definition UINT64_MAX :: u64 where
  "UINT64_MAX = - 1"

definition TimeoutManager :: "u64 \<Rightarrow> 'a timeout_manager" where
  "TimeoutManager interval =
     \<lparr>timeoutIntervalCycles = interval, nextTimeout = UINT64_MAX, tlist = [],
      expirationCycleTime = (\<lambda>_. 0)\<rparr>"

definition hasElapsed :: "u64 \<Rightarrow> 'a \<Rightarrow> 'a timeout_manager \<Rightarrow> bool" where
  "hasElapsed now x m \<longleftrightarrow> now \<ge> expirationCycleTime m x"

definition setTimeout :: "u64 \<Rightarrow> 'a \<Rightarrow> 'a timeout_manager \<Rightarrow> 'a timeout_manager" where
  "setTimeout rdtsc x m =
     (let l1 = remove1 x (tlist m);
          e = (expirationCycleTime m)(x := rdtsc + timeoutIntervalCycles m);
          l2 = l1 @ [x]
      in m\<lparr>tlist := l2, expirationCycleTime := e, nextTimeout := e (hd l2)\<rparr>)"

definition cancelTimeout :: "'a \<Rightarrow> 'a timeout_manager \<Rightarrow> 'a timeout_manager" where
  "cancelTimeout x m =
     (let l1 = remove1 x (tlist m)
      in if l1 = [] then m\<lparr>tlist := l1, nextTimeout := UINT64_MAX\<rparr>
         else m\<lparr>tlist := l1, nextTimeout := expirationCycleTime m (hd l1)\<rparr>)"

definition anyElapsed :: "u64 \<Rightarrow> 'a timeout_manager \<Rightarrow> bool" where
  "anyElapsed now m \<longleftrightarrow> now \<ge> nextTimeout m"

definition tm_empty :: "'a timeout_manager \<Rightarrow> bool" where
  "tm_empty m \<longleftrightarrow> tlist m = []"

definition tm_front :: "'a timeout_manager \<Rightarrow> 'a option" where
  "tm_front m = (case tlist m of [] \<Rightarrow> None | x # _ \<Rightarrow> Some x)"

section \<open>The sequence and the cached minimum\<close>

lemma tlist_setTimeout [simp]: "tlist (setTimeout t x m) = remove1 x (tlist m) @ [x]"
  by (simp add: setTimeout_def Let_def)

lemma tlist_cancelTimeout [simp]: "tlist (cancelTimeout x m) = remove1 x (tlist m)"
  by (simp add: cancelTimeout_def Let_def)

lemma exp_setTimeout [simp]:
  "expirationCycleTime (setTimeout t x m) = (expirationCycleTime m)(x := t + timeoutIntervalCycles m)"
  by (simp add: setTimeout_def Let_def)

lemma exp_cancelTimeout [simp]: "expirationCycleTime (cancelTimeout x m) = expirationCycleTime m"
  by (simp add: cancelTimeout_def Let_def)

lemma interval_kept [simp]:
  "timeoutIntervalCycles (setTimeout t x m) = timeoutIntervalCycles m"
  "timeoutIntervalCycles (cancelTimeout x m) = timeoutIntervalCycles m"
  by (simp_all add: setTimeout_def cancelTimeout_def Let_def)

definition tm_ok :: "'a timeout_manager \<Rightarrow> bool" where
  "tm_ok m \<longleftrightarrow>
     distinct (tlist m) \<and>
     nextTimeout m = (if tlist m = [] then UINT64_MAX else expirationCycleTime m (hd (tlist m)))"

lemma tm_ok_TimeoutManager: "tm_ok (TimeoutManager i)"
  by (simp add: tm_ok_def TimeoutManager_def)

lemma tm_ok_setTimeout: "tm_ok m \<Longrightarrow> tm_ok (setTimeout t x m)"
  by (auto simp: tm_ok_def setTimeout_def Let_def)

lemma tm_ok_cancelTimeout: "tm_ok m \<Longrightarrow> tm_ok (cancelTimeout x m)"
  by (auto simp: tm_ok_def cancelTimeout_def Let_def)

lemma set_tlist_setTimeout: "tm_ok m \<Longrightarrow> set (tlist (setTimeout t x m)) = insert x (set (tlist m))"
  by (auto simp: tm_ok_def)

lemma set_tlist_cancelTimeout: "tm_ok m \<Longrightarrow> set (tlist (cancelTimeout x m)) = set (tlist m) - {x}"
  by (simp add: tm_ok_def)

lemma tm_front_iff: "tm_front tm = Some a \<longleftrightarrow> (\<exists>as. tlist tm = a # as)" "tm_front tm = None \<longleftrightarrow> tlist tm = []"
  by (auto simp: tm_front_def split: list.splits)

text \<open>A timeout that is restarted at any of the times \<open>tsc\<close> has not elapsed at \<open>now\<close>, so that a
  loop that restarts elapsed timeouts visits each entry of the list at most once.\<close>

definition restarts_later :: "(nat \<Rightarrow> u64) \<Rightarrow> u64 \<Rightarrow> u64 \<Rightarrow> bool" where
  "restarts_later tsc now interval \<longleftrightarrow> (\<forall>j. now < tsc j + interval)"

section \<open>Expiration order\<close>

text \<open>
  All timeouts of a manager have the same interval and the counter only grows, so appending
  keeps the list in the order in which the timeouts expire. \<open>tm_sorted t m\<close> says so for a
  manager whose last reading of the counter was at most \<open>t\<close>, with no wrap-around yet.
\<close>

definition tm_sorted :: "nat \<Rightarrow> 'a timeout_manager \<Rightarrow> bool" where
  "tm_sorted t m \<longleftrightarrow>
     tm_ok m \<and> t + unat (timeoutIntervalCycles m) < 2 ^ 64 \<and>
     sorted_wrt (\<lambda>a b. expirationCycleTime m a \<le> expirationCycleTime m b) (tlist m) \<and>
     (\<forall>x \<in> set (tlist m). unat (expirationCycleTime m x) \<le> t + unat (timeoutIntervalCycles m))"

lemma sorted_wrt_congruent:
  "(\<And>a b. a \<in> set xs \<Longrightarrow> b \<in> set xs \<Longrightarrow> P a b = Q a b) \<Longrightarrow> sorted_wrt P xs = sorted_wrt Q xs"
  by (induction xs) auto

lemma tm_sorted_setTimeout:
  assumes "tm_sorted t m" "t \<le> unat rdtsc" "unat rdtsc + unat (timeoutIntervalCycles m) < 2 ^ 64"
  shows "tm_sorted (unat rdtsc) (setTimeout rdtsc x m)"
proof -
  let ?e = "expirationCycleTime (setTimeout rdtsc x m)"
  have e: "unat (rdtsc + timeoutIntervalCycles m) = unat rdtsc + unat (timeoutIntervalCycles m)"
    using assms(3) by (simp add: unat_word_ariths)
  have x: "x \<notin> set (remove1 x (tlist m))"
    using assms(1) by (simp add: tm_sorted_def tm_ok_def)
  have "sorted_wrt (\<lambda>a b. expirationCycleTime m a \<le> expirationCycleTime m b) (remove1 x (tlist m))"
    using assms(1) by (simp add: tm_sorted_def sorted_wrt_remove1)
  then have "sorted_wrt (\<lambda>a b. ?e a \<le> ?e b) (remove1 x (tlist m))"
    using x by (subst sorted_wrt_congruent [where Q = "\<lambda>a b. expirationCycleTime m a \<le> expirationCycleTime m b"]) auto
  moreover have "unat (expirationCycleTime m y) \<le> unat rdtsc + unat (timeoutIntervalCycles m)"
    if "y \<in> set (remove1 x (tlist m))" for y
    using that assms(1,2) notin_set_remove1 [of y "tlist m" x] unfolding tm_sorted_def by fastforce
  ultimately show ?thesis
    using assms e x tm_ok_setTimeout [of m rdtsc x]
    by (auto simp: tm_sorted_def sorted_wrt_append word_le_nat_alt)
qed

lemma tm_sorted_cancelTimeout: "tm_sorted t m \<Longrightarrow> tm_sorted t (cancelTimeout x m)"
  using set_remove1_subset [of x "tlist m"]
  by (auto simp: tm_sorted_def tm_ok_cancelTimeout sorted_wrt_remove1)

text \<open>The cached minimum is exact: the check without the lock sees every elapsed timeout, and
  with timeouts pending it sees nothing else.\<close>

lemma anyElapsed_iff:
  assumes "tm_sorted t m" "tlist m \<noteq> []"
  shows "anyElapsed now m \<longleftrightarrow> (\<exists>x \<in> set (tlist m). hasElapsed now x m)"
proof -
  obtain y ys where l: "tlist m = y # ys" using assms(2) by (cases "tlist m") auto
  with assms(1) have n: "nextTimeout m = expirationCycleTime m y"
    and s: "\<forall>z \<in> set ys. expirationCycleTime m y \<le> expirationCycleTime m z"
    by (auto simp: tm_sorted_def tm_ok_def)
  from l n s show ?thesis by (auto simp: anyElapsed_def hasElapsed_def)
qed

lemma front_expires_first:
  assumes "tm_sorted t m" "tm_front m = Some x" "y \<in> set (tlist m)" "hasElapsed now y m"
  shows "hasElapsed now x m"
  using assms by (cases "tlist m") (auto simp: tm_sorted_def tm_front_def hasElapsed_def)

section \<open>The pointer list behind the sequence\<close>

text \<open>On pointers, \<open>setTimeout\<close> removes the node if it is linked and appends it; the nodes of
  the list afterwards are those of the model.\<close>

lemma setTimeout_links:
  assumes "is_list h r (tlist m)" "x \<in> set (tlist m) \<or> is_free h x"
  shows "\<exists>h'. bindr (list_remove r x h) (push_back r x) = Inr h' \<and> is_list h' r (tlist (setTimeout t x m))"
  using ilist.move_to_back [OF assms] by simp

lemma cancelTimeout_links:
  assumes "is_list h r (tlist m)" "x \<in> set (tlist m) \<or> is_free h x"
  shows "\<exists>h'. list_remove r x h = Inr h' \<and> is_list h' r (tlist (cancelTimeout x m)) \<and> is_free h' x"
proof (cases "x \<in> set (tlist m)")
  case True
  then have "is_list h r (before x (tlist m) @ x # after x (tlist m))"
    using assms(1) before_after_id by metis
  from list_remove_correct [OF this] show ?thesis
    by (auto simp: remove1_before_after [OF True])
next
  case False
  with assms list_remove_free show ?thesis by (fastforce simp: remove1_idem)
qed

end
