(* ===== verification/Sender.thy ===== *)
theory Sender
  imports Out_Message ObjectPool Policy Timeout
begin

text \<open>
  \<open>Sender\<close> of src/Sender.h and src/Sender.cc: the state it keeps for all outbound messages and
  one function per operation. A message is an address of \<open>s_heap\<close>; the message lists of the
  buckets, the timeout lists and the send queue hold addresses. Each operation runs under the
  locks its C++ body takes, so it is one atomic step here. \<open>tsc\<close> holds the values an
  operation reads from the time stamp counter, in the order of the code.
\<close>

record bucket =
  b_messages :: "addr list"
  messageTimeouts :: "addr timeout_manager"
  pingTimeouts :: "addr timeout_manager"

record sender =
  s_transportId :: u64
  s_driver :: driver
  policyManager :: policy_manager
  nextMessageSequenceNumber :: u64
  DRIVER_QUEUED_BYTE_LIMIT :: u32
  messageBuckets :: "nat \<Rightarrow> bucket"
  sendQueue :: "addr list"
  sending :: bool
  sendReady :: bool
  s_nextBucketIndex :: u32
  messageAllocator :: object_pool
  s_heap :: "addr \<rightharpoonup> outMessage"
  s_events :: "event list"

definition HASH_KEY_MASK :: u32 where "HASH_KEY_MASK = 0xFF"
definition NUM_BUCKETS :: nat where "NUM_BUCKETS = 256"

definition MessageBucket :: "u64 \<Rightarrow> u64 \<Rightarrow> bucket" where
  "MessageBucket messageTimeoutCycles pingIntervalCycles =
     \<lparr>b_messages = [], messageTimeouts = TimeoutManager messageTimeoutCycles,
      pingTimeouts = TimeoutManager pingIntervalCycles\<rparr>"

definition Sender :: "u64 \<Rightarrow> driver \<Rightarrow> policy_manager \<Rightarrow> u64 \<Rightarrow> u64 \<Rightarrow> sender" where
  "Sender tid d pm messageTimeoutCycles pingIntervalCycles =
     \<lparr>s_transportId = tid, s_driver = d, policyManager = pm, nextMessageSequenceNumber = 1,
      DRIVER_QUEUED_BYTE_LIMIT = 2 * maxPayloadSize d,
      messageBuckets = (\<lambda>_. MessageBucket messageTimeoutCycles pingIntervalCycles),
      sendQueue = [], sending = False, sendReady = False, s_nextBucketIndex = 0,
      messageAllocator = ObjectPool, s_heap = Map.empty, s_events = []\<rparr>"

section \<open>Access to messages and buckets\<close>

definition getBucket :: "messageId \<Rightarrow> nat" where
  "getBucket msgId = unat (ucast (Hasher msgId AND ucast HASH_KEY_MASK) :: u32)"

definition deref_message :: "addr \<Rightarrow> sender \<Rightarrow> outMessage res" where
  "deref_message a s = (case s_heap s a of None \<Rightarrow> Inl NullDereference | Some m \<Rightarrow> Inr m)"

definition deref_pointer :: "addr option \<Rightarrow> sender \<Rightarrow> outMessage res" where
  "deref_pointer q s = (case q of None \<Rightarrow> Inl NullDereference | Some a \<Rightarrow> deref_message a s)"

fun find_in :: "messageId \<Rightarrow> addr list \<Rightarrow> sender \<Rightarrow> addr option res" where
  "find_in msgId [] s = Inr None"
| "find_in msgId (a # as) s =
     bindr (deref_message a s) (\<lambda>m. if messageId_eq (om_id m) msgId then Inr (Some a) else find_in msgId as s)"

definition findMessage :: "messageId \<Rightarrow> bucket \<Rightarrow> sender \<Rightarrow> addr option res" where
  "findMessage msgId b s = find_in msgId (b_messages b) s"

definition upd_message :: "addr \<Rightarrow> (outMessage \<Rightarrow> outMessage) \<Rightarrow> sender \<Rightarrow> sender" where
  "upd_message a f s = s\<lparr>s_heap := (s_heap s)(a := map_option f (s_heap s a))\<rparr>"

definition upd_info :: "addr \<Rightarrow> (queuedMessageInfo \<Rightarrow> queuedMessageInfo) \<Rightarrow> sender \<Rightarrow> sender" where
  "upd_info a f = upd_message a (\<lambda>m. m\<lparr>om_info := f (om_info m)\<rparr>)"

definition set_state :: "addr \<Rightarrow> status \<Rightarrow> sender \<Rightarrow> sender" where
  "set_state a st = upd_message a (\<lambda>m. m\<lparr>om_state := st\<rparr>)"

definition upd_bucket :: "nat \<Rightarrow> (bucket \<Rightarrow> bucket) \<Rightarrow> sender \<Rightarrow> sender" where
  "upd_bucket i f s = s\<lparr>messageBuckets := (messageBuckets s)(i := f (messageBuckets s i))\<rparr>"

definition set_timeouts :: "nat \<Rightarrow> addr \<Rightarrow> u64 \<Rightarrow> u64 \<Rightarrow> sender \<Rightarrow> sender" where
  "set_timeouts i a t1 t2 = upd_bucket i (\<lambda>b.
     b\<lparr>messageTimeouts := setTimeout t1 a (messageTimeouts b),
       pingTimeouts := setTimeout t2 a (pingTimeouts b)\<rparr>)"

definition cancel_timeouts :: "nat \<Rightarrow> addr \<Rightarrow> sender \<Rightarrow> sender" where
  "cancel_timeouts i a = upd_bucket i (\<lambda>b.
     b\<lparr>messageTimeouts := cancelTimeout a (messageTimeouts b),
       pingTimeouts := cancelTimeout a (pingTimeouts b)\<rparr>)"

definition emit :: "event list \<Rightarrow> sender \<Rightarrow> sender" where
  "emit es s = s\<lparr>s_events := s_events s @ es\<rparr>"

definition release_packet :: "packet \<Rightarrow> sender \<Rightarrow> sender" where
  "release_packet p = emit [ReleasePackets [p]]"

text \<open>\<open>ComparePriority\<close>: fewer unsent bytes first.\<close>

definition unsent_of :: "sender \<Rightarrow> addr \<Rightarrow> int" where
  "unsent_of s a = (case s_heap s a of None \<Rightarrow> 0 | Some m \<Rightarrow> unsentBytes (om_info m))"

definition ComparePriority :: "sender \<Rightarrow> addr \<Rightarrow> addr \<Rightarrow> bool" where
  "ComparePriority s a b \<longleftrightarrow> unsent_of s a < unsent_of s b"

text \<open>The packet that holds the last of \<open>n\<close> bytes is included; the sum is computed in 32 bits
  unsigned and the quotient is converted to \<open>int\<close>.\<close>

definition packet_limit :: "u32 \<Rightarrow> int \<Rightarrow> int res" where
  "packet_limit n dataLength =
     require DivideByZero (dataLength \<noteq> 0)
       (Inr (int_of_u32 ((n + word_of_int dataLength - 1) div word_of_int dataLength)))"

section \<open>Allocation and destruction\<close>

definition allocMessage :: "u16 \<Rightarrow> sender \<Rightarrow> (addr \<times> sender) res" where
  "allocMessage sourcePort s =
     bindr (pool_construct (messageAllocator s)) (\<lambda>(a, pool).
       Inr (a, emit [PerfAdd allocated_tx_messages 1]
         (s\<lparr>messageAllocator := pool, s_heap := (s_heap s)(a \<mapsto> OutMessage (s_driver s) sourcePort)\<rparr>)))"

definition message_packets :: "outMessage \<Rightarrow> packet list" where
  "message_packets m = map (\<lambda>i. the (om_packets m i)) [0..<nat (om_numPackets m)]"

text \<open>\<open>messageAllocator.pool.destroy(message)\<close> runs the destructor, which returns all packets; the
  destructor of the message's node asserts that it is not linked into the send queue.\<close>

definition destroy_message :: "addr \<Rightarrow> sender \<Rightarrow> sender res" where
  "destroy_message a s =
     bindr (deref_message a s) (\<lambda>m.
     bindr (pool_destroy a (messageAllocator s)) (\<lambda>pool.
       require AssertionFailed (a \<notin> set (sendQueue s))
         (Inr (emit [ReleasePackets (message_packets m), PerfAdd destroyed_tx_messages 1]
              (s\<lparr>messageAllocator := pool, s_heap := (s_heap s)(a := None)\<rparr>)))))"

definition remove_message :: "nat \<Rightarrow> addr \<Rightarrow> sender \<Rightarrow> sender" where
  "remove_message i a = upd_bucket i (\<lambda>b. b\<lparr>b_messages := remove1 a (b_messages b)\<rparr>)"

section \<open>Incoming packets\<close>

definition handleDonePacket :: "packet \<Rightarrow> sender \<Rightarrow> sender res" where
  "handleDonePacket packet s =
     (let msgId = hmessageId (decode_common (payload packet)); i = getBucket msgId
      in bindr (findMessage msgId (messageBuckets s i) s) (\<lambda>found.
         case found of
           None \<Rightarrow> Inr (release_packet packet s)
         | Some a \<Rightarrow>
             bindr (deref_message a s) (\<lambda>m.
               case getStatus m of
                 SENT \<Rightarrow> Inr (release_packet packet (set_state a COMPLETED (cancel_timeouts i a s)))
               | CANCELED \<Rightarrow> Inr (release_packet packet s)
               | COMPLETED \<Rightarrow> Inr (release_packet packet s)
               | FAILED \<Rightarrow> Inr (release_packet packet s)
               | NOT_STARTED \<Rightarrow> Inr (release_packet packet s)
               | IN_PROGRESS \<Rightarrow> Inr (release_packet packet s))))"

text \<open>\<open>i\<close> counts from \<open>index\<close> in 16 bits; the end is at most the number of packets of the
  message, 1024, so it does not wrap around.\<close>

fun resend_packets :: "int list \<Rightarrow> outMessage \<Rightarrow> ipAddress \<Rightarrow> int \<Rightarrow> sender \<Rightarrow> sender res" where
  "resend_packets [] m ip prio s = Inr s"
| "resend_packets (i # is) m ip prio s =
     bindr (getPacket i m) (\<lambda>q. case q of
       None \<Rightarrow> Inl NullDereference
     | Some p \<Rightarrow> resend_packets is m ip prio
         (emit [PerfAdd tx_data_pkts 1, PerfAdd tx_bytes (word_of_int (plength p)), SendPacket p ip prio] s))"

definition handleResendPacket :: "(nat \<Rightarrow> u64) \<Rightarrow> packet \<Rightarrow> sender \<Rightarrow> sender res" where
  "handleResendPacket tsc packet s =
     (let header = decode_resend (payload packet);
          msgId = hmessageId (rh_common header);
          index = uint (rh_index header);
          resendEnd = index + uint (rh_num header);
          i = getBucket msgId
      in bindr (findMessage msgId (messageBuckets s i) s) (\<lambda>found.
         case found of
           None \<Rightarrow> Inr (release_packet packet s)
         | Some a \<Rightarrow>
             bindr (deref_message a s) (\<lambda>m.
             if om_numPackets m < 2 then Inr (release_packet packet s)
             else
               let s1 = set_timeouts i a (tsc 0) (tsc 1) s; info = om_info m
               in bindr (deref_pointer (qi_packets info) s1) (\<lambda>pm.
                  if index \<ge> om_numPackets pm \<or> resendEnd > om_numPackets pm
                  then Inr (release_packet packet s1)
                  else
                    let s2 = (if packetsGranted info < resendEnd
                              then (upd_info a (\<lambda>q. q\<lparr>packetsGranted := resendEnd,
                                                      qi_priority := uint (rh_priority header)\<rparr>) s1)
                                     \<lparr>sendReady := True\<rparr>
                              else s1)
                    in if index \<ge> packetsSent info
                       then Inr (release_packet packet
                              (emit (PerfAdd tx_busy_pkts 1 #
                                     ControlPacket_send (s_driver s) (sa_ip (qi_destination info))
                                       (encode_common (BusyHeader (qi_id info)))) s2))
                       else
                         let resendEnd' = min resendEnd (packetsSent info)
                         in bindr (resend_packets (map int [nat index..<nat resendEnd']) pm
                                     (sa_ip (om_destination m)) (getResendPriority (policyManager s)) s2)
                              (\<lambda>s3. Inr (release_packet packet s3))))))"

definition handleGrantPacket :: "(nat \<Rightarrow> u64) \<Rightarrow> packet \<Rightarrow> sender \<Rightarrow> sender res" where
  "handleGrantPacket tsc packet s =
     (let header = decode_grant (payload packet);
          msgId = hmessageId (gh_common header);
          i = getBucket msgId
      in bindr (findMessage msgId (messageBuckets s i) s) (\<lambda>found.
         case found of
           None \<Rightarrow> Inr (release_packet packet s)
         | Some a \<Rightarrow>
             bindr (deref_message a s) (\<lambda>m.
             let s1 = set_timeouts i a (tsc 0) (tsc 1) s; info = om_info m
             in if om_state m = IN_PROGRESS
                then
                  bindr (deref_pointer (qi_packets info) s1) (\<lambda>pm.
                  bindr (packet_limit (byteLimit header) (om_PACKET_DATA_LENGTH pm)) (\<lambda>limit.
                  let incomingGrantIndex = (if limit > om_numPackets pm then om_numPackets pm else limit)
                  in if packetsGranted info < incomingGrantIndex
                     then Inr (release_packet packet
                            ((upd_info a (\<lambda>q. q\<lparr>packetsGranted := incomingGrantIndex,
                                                qi_priority := uint (gh_priority header)\<rparr>) s1)
                               \<lparr>sendReady := True\<rparr>))
                     else Inr (release_packet packet s1)))
                else Inr (release_packet packet s1))))"

text \<open>The message leaves the send queue before it is changed. (Linking a node asserts that it is
  not linked yet, and the reordering of src/Intrusive.h that it is: the checks on membership in
  the send queue are these assertions.)\<close>

definition leave_sendQueue :: "addr \<Rightarrow> outMessage \<Rightarrow> sender \<Rightarrow> sender res" where
  "leave_sendQueue a m s =
     (if om_numPackets m > 1
      then bindr (if om_state m = IN_PROGRESS
                  then require AssertionFailed (a \<in> set (sendQueue s))
                         (Inr (s\<lparr>sendQueue := remove1 a (sendQueue s)\<rparr>))
                  else Inr s)
             (\<lambda>s1. require AssertionFailed (a \<notin> set (sendQueue s1)) (Inr s1))
      else Inr s)"

definition enter_sendQueue :: "addr \<Rightarrow> sender \<Rightarrow> sender" where
  "enter_sendQueue a s =
     s\<lparr>sendQueue := deprioritize_seq (ComparePriority s) a (a # sendQueue s), sendReady := True\<rparr>"

text \<open>The two header fields written in place: \<open>policyVersion\<close> at byte 26 and
  \<open>unscheduledIndexLimit\<close> at byte 27 of the packed structure.\<close>

definition update_policy_header :: "u8 \<Rightarrow> u16 \<Rightarrow> packet \<Rightarrow> packet" where
  "update_policy_header version limit p =
     p\<lparr>payload := memcpy (memcpy (payload p) 26 (to_le 1 version)) 27 (to_le 2 limit)\<rparr>"

fun update_headers :: "int list \<Rightarrow> u8 \<Rightarrow> int \<Rightarrow> outMessage \<Rightarrow> outMessage res" where
  "update_headers [] version limit m = Inr m"
| "update_headers (i # is) version limit m =
     bindr (getPacket i m) (\<lambda>q. case q of
       None \<Rightarrow> Inl AssertionFailed
     | Some p \<Rightarrow>
         bindr (downCast_u16 limit) (\<lambda>l.
           update_headers is version limit (setPacket i (update_policy_header version l p) m)))"

text \<open>A message of one packet is sent right away.\<close>

definition send_single :: "nat \<Rightarrow> addr \<Rightarrow> int \<Rightarrow> sender \<Rightarrow> sender res" where
  "send_single i a prio s =
     bindr (deref_message a s) (\<lambda>m.
     bindr (getPacket 0 m) (\<lambda>q. case q of
       None \<Rightarrow> Inl AssertionFailed
     | Some p \<Rightarrow>
         let s1 = set_state a SENT
                    (emit [PerfAdd tx_data_pkts 1, PerfAdd tx_bytes (word_of_int (plength p)),
                           SendPacket p (sa_ip (om_destination m)) prio] s)
         in require AssertionFailed (om_held m)
              (Inr (if has_option (om_options m) NO_KEEP_ALIVE then cancel_timeouts i a s1 else s1))))"

definition handleUnknownPacket :: "(nat \<Rightarrow> u64) \<Rightarrow> packet \<Rightarrow> sender \<Rightarrow> sender res" where
  "handleUnknownPacket tsc packet s =
     (let msgId = hmessageId (decode_common (payload packet)); i = getBucket msgId
      in bindr (findMessage msgId (messageBuckets s i) s) (\<lambda>found.
         case found of
           None \<Rightarrow> Inr (release_packet packet s)
         | Some a \<Rightarrow>
             bindr (deref_message a s) (\<lambda>m.
             require AssertionFailed (getStatus m \<noteq> NOT_STARTED)
             (if getStatus m \<noteq> IN_PROGRESS \<and> getStatus m \<noteq> SENT then Inr (release_packet packet s)
              else if has_option (om_options m) NO_RETRY then
                bindr (leave_sendQueue a m s) (\<lambda>s1.
                  Inr (release_packet packet (set_state a FAILED (cancel_timeouts i a s1))))
              else
                bindr (leave_sendQueue a m s) (\<lambda>s1.
                let (policy, pm) = getUnscheduledPolicy (sa_ip (om_destination m))
                                     (word_of_int (om_messageLength m)) (policyManager s1);
                    s2 = (set_state a IN_PROGRESS s1)\<lparr>policyManager := pm\<rparr>
                in bindr (packet_limit (unscheduledByteLimit policy) (om_PACKET_DATA_LENGTH m)) (\<lambda>limit.
                   bindr (update_headers (map int [0..<nat (om_numPackets m)]) (us_version policy) limit
                            (m\<lparr>om_state := IN_PROGRESS\<rparr>)) (\<lambda>m1.
                   let s3 = set_timeouts i a (tsc 0) (tsc 1) (upd_message a (\<lambda>_. m1) s2)
                   in require AssertionFailed (om_numPackets m > 0)
                      (if om_numPackets m = 1
                       then bindr (send_single i a (us_priority policy) s3)
                              (\<lambda>s4. Inr (release_packet packet s4))
                       else
                         require AssertionFailed (qi_id (om_info m) = om_id m)
                         (require AssertionFailed (qi_destination (om_info m) = om_destination m)
                         (require AssertionFailed (qi_packets (om_info m) = Some a)
                         (Inr (release_packet packet
                            (enter_sendQueue a
                              (upd_info a (\<lambda>q. q\<lparr>unsentBytes := om_messageLength m,
                                 packetsGranted := min limit (om_numPackets m),
                                 qi_priority := us_priority policy, packetsSent := 0\<rparr>) s3))))))))))))))"

definition handleErrorPacket :: "packet \<Rightarrow> sender \<Rightarrow> sender res" where
  "handleErrorPacket packet s =
     (let msgId = hmessageId (decode_common (payload packet)); i = getBucket msgId
      in bindr (findMessage msgId (messageBuckets s i) s) (\<lambda>found.
         case found of
           None \<Rightarrow> Inr (release_packet packet s)
         | Some a \<Rightarrow>
             bindr (deref_message a s) (\<lambda>m.
               case getStatus m of
                 SENT \<Rightarrow> Inr (release_packet packet (set_state a FAILED (cancel_timeouts i a s)))
               | CANCELED \<Rightarrow> Inr (release_packet packet s)
               | NOT_STARTED \<Rightarrow> Inr (release_packet packet s)
               | IN_PROGRESS \<Rightarrow> Inr (release_packet packet s)
               | COMPLETED \<Rightarrow> Inr (release_packet packet s)
               | FAILED \<Rightarrow> Inr (release_packet packet s))))"

section \<open>Requests of the application\<close>

text \<open>\<open>append\<close>, \<open>prepend\<close> and \<open>reserve\<close> change the message only.\<close>

definition message_op :: "(driver \<Rightarrow> outMessage \<Rightarrow> outMessage res) \<Rightarrow> addr \<Rightarrow> sender \<Rightarrow> sender res" where
  "message_op f a s =
     bindr (deref_message a s) (\<lambda>m. bindr (f (s_driver s) m) (\<lambda>m'. Inr (upd_message a (\<lambda>_. m') s)))"

fun fill_headers ::
  "int list \<Rightarrow> u16 \<Rightarrow> u16 \<Rightarrow> u8 \<Rightarrow> int \<Rightarrow> int \<Rightarrow> outMessage \<Rightarrow> (int \<times> outMessage) res" where
  "fill_headers [] sp dp version limit actual m = Inr (actual, m)"
| "fill_headers (i # is) sp dp version limit actual m =
     bindr (getPacket i m) (\<lambda>q. case q of
       None \<Rightarrow> Inl Panic
     | Some p \<Rightarrow>
         bindr (downCast_u32 (om_messageLength m)) (\<lambda>len.
         bindr (downCast_u16 limit) (\<lambda>l.
         bindr (downCast_u16 i) (\<lambda>ix.
           fill_headers is sp dp version limit
             (actual + (plength p - om_TRANSPORT_HEADER_LENGTH m))
             (setPacket i (put_header (encode_data (DataHeader sp dp (om_id m) len version l ix)) p) m)))))"

definition sendMessage ::
  "(nat \<Rightarrow> u64) \<Rightarrow> addr \<Rightarrow> socketAddress \<Rightarrow> u32 \<Rightarrow> sender \<Rightarrow> sender res" where
  "sendMessage tsc a destination options s =
     bindr (deref_message a s) (\<lambda>m.
     let msgId = \<lparr>transportId = s_transportId s, sequence = nextMessageSequenceNumber s\<rparr>;
         (policy, pm) = getUnscheduledPolicy (sa_ip destination) (word_of_int (om_messageLength m))
                          (policyManager s)
     in bindr (packet_limit (unscheduledByteLimit policy) (om_PACKET_DATA_LENGTH m)) (\<lambda>limit.
        let m1 = m\<lparr>om_id := msgId, om_destination := destination, om_options := options,
                   om_state := IN_PROGRESS\<rparr>
        in bindr (fill_headers (map int [0..<nat (om_numPackets m)]) (sa_port (om_source m))
                   (sa_port destination) (us_version policy) limit 0 m1) (\<lambda>(actualMessageLen, m2).
           require AssertionFailed (om_messageLength m = actualMessageLen)
           (require AssertionFailed (om_TRANSPORT_HEADER_LENGTH m = int sizeof_DataHeader)
           (let i = getBucket msgId;
                s1 = upd_message a (\<lambda>_. m2)
                       (s\<lparr>nextMessageSequenceNumber := nextMessageSequenceNumber s + 1, policyManager := pm\<rparr>)
            in require AssertionFailed (a \<notin> set (b_messages (messageBuckets s1 i)))
               (let s2 = set_timeouts i a (tsc 0) (tsc 1)
                           (upd_bucket i (\<lambda>b. b\<lparr>b_messages := b_messages b @ [a]\<rparr>) s1)
                in require AssertionFailed (om_numPackets m > 0)
                   (if om_numPackets m = 1 then send_single i a (us_priority policy) s2
                    else require AssertionFailed (a \<notin> set (sendQueue s2)) (Inr (enter_sendQueue a
                      (upd_info a (\<lambda>q. q\<lparr>qi_id := msgId, qi_destination := destination,
                         qi_packets := Some a, unsentBytes := om_messageLength m,
                         packetsGranted := min limit (om_numPackets m),
                         qi_priority := us_priority policy, packetsSent := 0\<rparr>) s2))))))))))"

definition cancelMessage :: "addr \<Rightarrow> sender \<Rightarrow> sender res" where
  "cancelMessage a s =
     bindr (deref_message a s) (\<lambda>m.
     let i = getBucket (om_id m)
     in if a \<in> set (b_messages (messageBuckets s i))
        then
          let s1 = cancel_timeouts i a s
          in bindr (if om_numPackets m > 1 \<and> om_state m = IN_PROGRESS
                    then require AssertionFailed (a \<in> set (sendQueue s1))
                           (Inr (s1\<lparr>sendQueue := remove1 a (sendQueue s1)\<rparr>))
                    else Inr s1)
               (\<lambda>s2. Inr (set_state a CANCELED s2))
        else Inr s)"

definition sender_dropMessage :: "addr \<Rightarrow> sender \<Rightarrow> sender res" where
  "sender_dropMessage a s =
     bindr (deref_message a s) (\<lambda>m.
     let i = getBucket (om_id m);
         s1 = emit [PerfAdd released_tx_messages 1] (upd_message a (\<lambda>m. m\<lparr>om_held := False\<rparr>) s)
     in if om_state m \<noteq> IN_PROGRESS
        then destroy_message a (remove_message i a (cancel_timeouts i a s1))
        else Inr s1)"

section \<open>Timeouts\<close>

text \<open>A timed out message is failed; every round removes the front of the list.\<close>

definition expire_message :: "nat \<Rightarrow> addr \<Rightarrow> outMessage \<Rightarrow> sender \<Rightarrow> sender res" where
  "expire_message i a m s =
     bindr (if om_state m \<noteq> COMPLETED
            then bindr (if om_state m = IN_PROGRESS
                        then require AssertionFailed (a \<in> set (sendQueue s))
                               (Inr (s\<lparr>sendQueue := remove1 a (sendQueue s)\<rparr>))
                        else Inr s)
                   (\<lambda>s1. Inr (set_state a FAILED s1))
            else Inr s)
       (\<lambda>s2. Inr (cancel_timeouts i a s2))"

fun message_timeouts_loop :: "nat \<Rightarrow> u64 \<Rightarrow> nat \<Rightarrow> sender \<Rightarrow> sender res" where
  "message_timeouts_loop fuel now i s =
     (case tm_front (messageTimeouts (messageBuckets s i)) of
        None \<Rightarrow> Inr s
      | Some a \<Rightarrow>
          if \<not> hasElapsed now a (messageTimeouts (messageBuckets s i)) then Inr s
          else case fuel of
            0 \<Rightarrow> Inl OutOfFuel
          | Suc fuel' \<Rightarrow>
              bindr (deref_message a s) (\<lambda>m.
              bindr (expire_message i a m s) (message_timeouts_loop fuel' now i)))"

definition sender_checkMessageTimeouts :: "u64 \<Rightarrow> nat \<Rightarrow> sender \<Rightarrow> sender res" where
  "sender_checkMessageTimeouts now i s =
     (if \<not> anyElapsed now (messageTimeouts (messageBuckets s i)) then Inr s
      else message_timeouts_loop (length (tlist (messageTimeouts (messageBuckets s i)))) now i s)"

text \<open>One expired ping timeout: cancelled when the message is done, otherwise restarted at the
  time \<open>t\<close> the counter shows, and the receiver is pinged unless the sender has granted packets
  left to send.\<close>

definition ping_message :: "u64 \<Rightarrow> nat \<Rightarrow> addr \<Rightarrow> outMessage \<Rightarrow> sender \<Rightarrow> sender" where
  "ping_message t i a m s =
     (if om_state m = COMPLETED \<or> om_state m = FAILED then
        upd_bucket i (\<lambda>b. b\<lparr>pingTimeouts := cancelTimeout a (pingTimeouts b)\<rparr>) s
      else if has_option (om_options m) NO_KEEP_ALIVE \<and> om_state m = SENT then
        cancel_timeouts i a s
      else
        let s1 = upd_bucket i (\<lambda>b. b\<lparr>pingTimeouts := setTimeout t a (pingTimeouts b)\<rparr>) s
        in if om_state m = IN_PROGRESS \<and> packetsSent (om_info m) < packetsGranted (om_info m) then s1
           else emit (PerfAdd tx_ping_pkts 1 #
                      ControlPacket_send (s_driver s) (sa_ip (om_destination m))
                        (encode_common (PingHeader (om_id m)))) s1)"

fun ping_timeouts_loop :: "nat \<Rightarrow> (nat \<Rightarrow> u64) \<Rightarrow> u64 \<Rightarrow> nat \<Rightarrow> sender \<Rightarrow> sender res" where
  "ping_timeouts_loop fuel tsc now i s =
     (case tm_front (pingTimeouts (messageBuckets s i)) of
        None \<Rightarrow> Inr s
      | Some a \<Rightarrow>
          if \<not> hasElapsed now a (pingTimeouts (messageBuckets s i)) then Inr s
          else case fuel of
            0 \<Rightarrow> Inl OutOfFuel
          | Suc fuel' \<Rightarrow>
              bindr (deref_message a s) (\<lambda>m.
                ping_timeouts_loop fuel' (\<lambda>j. tsc (Suc j)) now i (ping_message (tsc 0) i a m s)))"

definition checkPingTimeouts :: "(nat \<Rightarrow> u64) \<Rightarrow> u64 \<Rightarrow> nat \<Rightarrow> sender \<Rightarrow> sender res" where
  "checkPingTimeouts tsc now i s =
     (if \<not> anyElapsed now (pingTimeouts (messageBuckets s i)) then Inr s
      else ping_timeouts_loop (length (tlist (pingTimeouts (messageBuckets s i)))) tsc now i s)"

definition sender_checkTimeouts :: "(nat \<Rightarrow> u64) \<Rightarrow> sender \<Rightarrow> sender res" where
  "sender_checkTimeouts tsc s =
     (let index = unat (s_nextBucketIndex s AND HASH_KEY_MASK);
          s1 = s\<lparr>s_nextBucketIndex := s_nextBucketIndex s + 1\<rparr>;
          now = tsc 0
      in bindr (checkPingTimeouts (\<lambda>j. tsc (Suc j)) now index s1) (sender_checkMessageTimeouts now index))"

section \<open>Sending\<close>

text \<open>The inner loop of \<open>trySend\<close> sends the granted packets of one message until the driver's
  queue is full. It returns the estimate of the queued bytes and whether nothing was to send.\<close>

fun send_granted :: "nat \<Rightarrow> addr \<Rightarrow> u32 \<Rightarrow> bool \<Rightarrow> sender \<Rightarrow> (u32 \<times> bool \<times> sender) res" where
  "send_granted fuel a queuedBytesEstimate idle s =
     bindr (deref_message a s) (\<lambda>m.
     let info = om_info m
     in if packetsSent info < packetsGranted info then
          case fuel of
            0 \<Rightarrow> Inl OutOfFuel
          | Suc fuel' \<Rightarrow>
              bindr (deref_pointer (qi_packets info) s) (\<lambda>pm.
              bindr (getPacket (packetsSent info) pm) (\<lambda>q. case q of
                None \<Rightarrow> Inl AssertionFailed
              | Some p \<Rightarrow>
                  let estimate = queuedBytesEstimate + word_of_int (plength p)
                  in if estimate > DRIVER_QUEUED_BYTE_LIMIT s then Inr (estimate, False, s)
                     else
                       let s1 = emit [PerfAdd tx_data_pkts 1, PerfAdd tx_bytes (word_of_int (plength p)),
                                      SendPacket p (sa_ip (om_destination m)) (qi_priority info)] s;
                           packetDataBytes = plength p - om_TRANSPORT_HEADER_LENGTH pm
                       in require AssertionFailed (unsentBytes info \<ge> packetDataBytes)
                          (require AssertionFailed (a \<in> set (sendQueue s))
                          (let s2 = upd_info a (\<lambda>q. q\<lparr>unsentBytes := unsentBytes q - packetDataBytes\<rparr>) s1;
                               s3 = s2\<lparr>sendQueue := prioritize_seq (ComparePriority s2) a (sendQueue s2)\<rparr>;
                               s4 = upd_info a (\<lambda>q. q\<lparr>packetsSent := packetsSent q + 1\<rparr>) s3
                           in send_granted fuel' a estimate False s4))))
        else Inr (queuedBytesEstimate, idle, s))"

fun trySend_loop ::
  "nat \<Rightarrow> addr option \<Rightarrow> u32 \<Rightarrow> bool \<Rightarrow> messageId list \<Rightarrow> sender \<Rightarrow> (bool \<times> messageId list \<times> sender) res" where
  "trySend_loop fuel it estimate idle sentIds s =
     (case it of
        None \<Rightarrow> Inr (idle, sentIds, s)
      | Some a \<Rightarrow>
          (case fuel of
             0 \<Rightarrow> Inl OutOfFuel
           | Suc fuel' \<Rightarrow>
               bindr (deref_message a s) (\<lambda>m.
               require AssertionFailed (om_state m = IN_PROGRESS)
               (bindr (deref_pointer (qi_packets (om_info m)) s) (\<lambda>pm.
               require AssertionFailed (packetsGranted (om_info m) \<le> om_numPackets pm)
               (bindr (send_granted (nat (packetsGranted (om_info m) - packetsSent (om_info m)))
                         a estimate idle s) (\<lambda>(estimate', idle', s1).
                bindr (deref_message a s1) (\<lambda>m1.
                if packetsSent (om_info m1) \<ge> om_numPackets pm then
                  let s2 = set_state a SENT s1
                  in trySend_loop fuel' (next_in a (sendQueue s2)) estimate' idle'
                       (sentIds @ [qi_id (om_info m1)]) (s2\<lparr>sendQueue := remove1 a (sendQueue s2)\<rparr>)
                else if packetsSent (om_info m1) \<ge> packetsGranted (om_info m1) then
                  trySend_loop fuel' (next_in a (sendQueue s1)) estimate' idle' sentIds s1
                else Inr (idle', sentIds, s1\<lparr>sendReady := True\<rparr>)))))))))"

text \<open>What is done for the messages that were sent completely.\<close>

fun finish_sent :: "messageId list \<Rightarrow> sender \<Rightarrow> sender res" where
  "finish_sent [] s = Inr s"
| "finish_sent (msgId # ids) s =
     (let i = getBucket msgId
      in bindr (findMessage msgId (messageBuckets s i) s) (\<lambda>found.
         case found of
           None \<Rightarrow> finish_sent ids s
         | Some a \<Rightarrow>
             bindr (deref_message a s) (\<lambda>m.
             if \<not> om_held m then
               bindr (destroy_message a (remove_message i a (cancel_timeouts i a s))) (finish_sent ids)
             else if has_option (om_options m) NO_KEEP_ALIVE then
               finish_sent ids (cancel_timeouts i a s)
             else finish_sent ids s)))"

text \<open>Every round either sends a packet or moves on in the queue, so the outer loop runs at most
  once per granted packet and queued message, in between which it may pass over the queue.\<close>

definition granted_left :: "sender \<Rightarrow> addr \<Rightarrow> nat" where
  "granted_left s a = (case s_heap s a of None \<Rightarrow> 0
     | Some m \<Rightarrow> nat (packetsGranted (om_info m) - packetsSent (om_info m)))"

definition trySend_fuel :: "sender \<Rightarrow> nat" where
  "trySend_fuel s =
     (sum_list (map (granted_left s) (sendQueue s)) + 1) * (length (sendQueue s) + 1)"

definition trySend :: "(nat \<Rightarrow> u64) \<Rightarrow> u32 \<Rightarrow> sender \<Rightarrow> sender res" where
  "trySend tsc queuedBytes s =
     (if \<not> sendReady s then Inr s
      else if sending s then Inr s
      else
        let s1 = s\<lparr>sending := True, sendReady := False\<rparr>;
            it = (case sendQueue s1 of [] \<Rightarrow> None | a # _ \<Rightarrow> Some a)
        in bindr (trySend_loop (trySend_fuel s1) it queuedBytes True [] s1) (\<lambda>(idle, sentIds, s2).
           bindr (finish_sent sentIds (s2\<lparr>sending := False\<rparr>)) (\<lambda>s3.
             Inr (if \<not> idle then emit [PerfAdd active_cycles (fst (Timer_split (tsc 1) (tsc 0)))] s3 else s3))))"

definition sender_poll :: "(nat \<Rightarrow> u64) \<Rightarrow> (nat \<Rightarrow> u64) \<Rightarrow> u32 \<Rightarrow> sender \<Rightarrow> sender res" where
  "sender_poll tsc1 tsc2 queuedBytes s =
     bindr (trySend tsc1 queuedBytes s) (sender_checkTimeouts tsc2)"

declare message_timeouts_loop.simps [simp del] ping_timeouts_loop.simps [simp del]
  send_granted.simps [simp del] trySend_loop.simps [simp del]

end
