(* ===== verification/Sender_Invariant.thy ===== *)
theory Sender_Invariant
  imports Sender
begin

text \<open>
  The invariant of the sender, in four layers that are functions of the components of the
  state they speak about: what a message looks like (\<open>msg_ok\<close>, \<open>heap_ok\<close>), where messages are
  linked (\<open>buckets_ok\<close>), which messages wait in the send queue and in which order (\<open>queue_ok\<close>),
  and the fixed parameters (\<open>static_ok\<close>). The lemmas below are the steps the operations are
  composed of; Sender_Correct puts them together.
\<close>

section \<open>Layers\<close>

definition static_ok :: "driver \<Rightarrow> policy_manager \<Rightarrow> bool" where
  "static_ok d pm \<longleftrightarrow> driver_ok d \<and> policy_ok pm \<and> unat (RTT_BYTES pm) \<le> 65535 * pdl d"

text \<open>What is known of the scheduling data of a message of several packets once it was sent.\<close>

definition info_ok :: "driver \<Rightarrow> addr \<Rightarrow> outMessage \<Rightarrow> bool" where
  "info_ok d a m \<longleftrightarrow>
     qi_packets (om_info m) = Some a \<and> qi_id (om_info m) = om_id m \<and>
     qi_destination (om_info m) = om_destination m \<and>
     0 \<le> packetsSent (om_info m) \<and> packetsSent (om_info m) \<le> packetsGranted (om_info m) \<and>
     packetsGranted (om_info m) \<le> om_numPackets m \<and>
     unsentBytes (om_info m) =
       om_messageLength m - min (om_messageLength m) (packetsSent (om_info m) * int (pdl d))"

definition started :: "outMessage \<Rightarrow> bool" where
  "started m \<longleftrightarrow> om_state m \<noteq> NOT_STARTED"

definition msg_ok :: "driver \<Rightarrow> u64 \<Rightarrow> u64 \<Rightarrow> addr \<Rightarrow> outMessage \<Rightarrow> bool" where
  "msg_ok d tid next a m \<longleftrightarrow>
     om_wf d m \<and>
     (started m \<longrightarrow> 0 < om_numPackets m \<and> transportId (om_id m) = tid \<and> sequence (om_id m) < next) \<and>
     (started m \<and> 1 < om_numPackets m \<longrightarrow> info_ok d a m) \<and>
     (om_state m = IN_PROGRESS \<longrightarrow> 1 < om_numPackets m) \<and>
     (\<not> om_held m \<longrightarrow> 1 < om_numPackets m \<and> started m)"

definition heap_ok :: "driver \<Rightarrow> u64 \<Rightarrow> u64 \<Rightarrow> (addr \<rightharpoonup> outMessage) \<Rightarrow> bool" where
  "heap_ok d tid next H \<longleftrightarrow>
     (\<forall>a m. H a = Some m \<longrightarrow> msg_ok d tid next a m) \<and>
     (\<forall>a b m n. H a = Some m \<and> H b = Some n \<and> started m \<and> started n \<and> om_id m = om_id n \<longrightarrow> a = b)"

definition bucket_ok :: "(addr \<rightharpoonup> outMessage) \<Rightarrow> nat \<Rightarrow> bucket \<Rightarrow> bool" where
  "bucket_ok H i b \<longleftrightarrow>
     distinct (b_messages b) \<and>
     set (b_messages b) = {a. \<exists>m. H a = Some m \<and> started m \<and> getBucket (om_id m) = i} \<and>
     tm_ok (messageTimeouts b) \<and> set (tlist (messageTimeouts b)) \<subseteq> set (b_messages b) \<and>
     tm_ok (pingTimeouts b) \<and> set (tlist (pingTimeouts b)) \<subseteq> set (b_messages b)"

definition buckets_ok :: "(addr \<rightharpoonup> outMessage) \<Rightarrow> (nat \<Rightarrow> bucket) \<Rightarrow> bool" where
  "buckets_ok H B \<longleftrightarrow> (\<forall>i. bucket_ok H i (B i))"

definition key_of :: "(addr \<rightharpoonup> outMessage) \<Rightarrow> addr \<Rightarrow> int" where
  "key_of H a = (case H a of None \<Rightarrow> 0 | Some m \<Rightarrow> unsentBytes (om_info m))"

abbreviation by_unsent :: "(addr \<rightharpoonup> outMessage) \<Rightarrow> addr list \<Rightarrow> bool" where
  "by_unsent H q \<equiv> sorted_wrt (\<lambda>a b. \<not> key_of H b < key_of H a) q"

definition queue_ok :: "(addr \<rightharpoonup> outMessage) \<Rightarrow> addr list \<Rightarrow> bool" where
  "queue_ok H q \<longleftrightarrow>
     distinct q \<and> set q = {a. \<exists>m. H a = Some m \<and> om_state m = IN_PROGRESS} \<and> by_unsent H q"

definition sender_inv :: "sender \<Rightarrow> bool" where
  "sender_inv s \<longleftrightarrow>
     static_ok (s_driver s) (policyManager s) \<and>
     pool_ok (dom (s_heap s)) (messageAllocator s) \<and>
     heap_ok (s_driver s) (s_transportId s) (nextMessageSequenceNumber s) (s_heap s) \<and>
     buckets_ok (s_heap s) (messageBuckets s) \<and>
     queue_ok (s_heap s) (sendQueue s)"

lemma unsent_of_key: "unsent_of s = key_of (s_heap s)"
  by (simp add: unsent_of_def key_of_def fun_eq_iff)

lemma ComparePriority_key: "ComparePriority s = (\<lambda>a b. key_of (s_heap s) a < key_of (s_heap s) b)"
  by (simp add: ComparePriority_def unsent_of_key fun_eq_iff)

section \<open>Steps on messages\<close>

lemma heap_ok_upd:
  assumes "heap_ok d tid next H" "H a = Some m" "msg_ok d tid next a m'" "om_id m' = om_id m"
    "started m' = started m"
  shows "heap_ok d tid next (H(a \<mapsto> m'))"
  using assms unfolding heap_ok_def by (auto split: if_splits)

lemma bucket_ok_upd:
  assumes "bucket_ok H i b" "H a = Some m" "om_id m' = om_id m" "started m' = started m"
  shows "bucket_ok (H(a \<mapsto> m')) i b"
  using assms unfolding bucket_ok_def by (auto split: if_splits)

lemma buckets_ok_upd:
  assumes "buckets_ok H B" "H a = Some m" "om_id m' = om_id m" "started m' = started m"
  shows "buckets_ok (H(a \<mapsto> m')) B"
  using assms bucket_ok_upd unfolding buckets_ok_def by blast

lemma bucket_ok_new:
  assumes "bucket_ok H i b" "H a = None" "\<not> started m'"
  shows "bucket_ok (H(a \<mapsto> m')) i b"
  using assms unfolding bucket_ok_def by (auto split: if_splits)

lemma heap_ok_msg: "heap_ok d tid next H \<Longrightarrow> H a = Some m \<Longrightarrow> msg_ok d tid next a m"
  unfolding heap_ok_def by blast

lemma heap_ok_unstart:
  "heap_ok d tid next H \<Longrightarrow> H a = None \<or> (\<exists>m. H a = Some m \<and> \<not> started m) \<Longrightarrow>
   msg_ok d tid next a m' \<Longrightarrow> \<not> started m' \<Longrightarrow> heap_ok d tid next (H(a \<mapsto> m'))"
  unfolding heap_ok_def by (auto split: if_splits)

lemma heap_ok_remove: "heap_ok d tid next H \<Longrightarrow> heap_ok d tid next (H(a := None))"
  unfolding heap_ok_def by (auto split: if_splits)

section \<open>Steps on buckets\<close>

lemma bucket_ok_set:
  assumes "bucket_ok H i b" "a \<in> set (b_messages b)"
  shows "bucket_ok H i (b\<lparr>messageTimeouts := setTimeout t1 a (messageTimeouts b),
                          pingTimeouts := setTimeout t2 a (pingTimeouts b)\<rparr>)"
    and "bucket_ok H i (b\<lparr>pingTimeouts := setTimeout t2 a (pingTimeouts b)\<rparr>)"
  using assms unfolding bucket_ok_def
  by (auto simp: tm_ok_setTimeout set_tlist_setTimeout simp del: tlist_setTimeout)

lemma bucket_ok_cancel:
  assumes "bucket_ok H i b"
  shows "bucket_ok H i (b\<lparr>messageTimeouts := cancelTimeout a (messageTimeouts b),
                          pingTimeouts := cancelTimeout a (pingTimeouts b)\<rparr>)"
    and "bucket_ok H i (b\<lparr>pingTimeouts := cancelTimeout a (pingTimeouts b)\<rparr>)"
  using assms unfolding bucket_ok_def
  by (auto simp: tm_ok_cancelTimeout set_tlist_cancelTimeout simp del: tlist_cancelTimeout)

lemma buckets_ok_fun_upd: "buckets_ok H B \<Longrightarrow> bucket_ok H i b \<Longrightarrow> buckets_ok H (B(i := b))"
  by (simp add: buckets_ok_def)

lemma buckets_okD: "buckets_ok H B \<Longrightarrow> bucket_ok H i (B i)"
  by (simp add: buckets_ok_def)

text \<open>A message leaves the sender: out of its bucket and the timeout lists, then out of memory.\<close>

lemma bucket_ok_remove:
  assumes "bucket_ok H i b" "H a = Some m" "getBucket (om_id m) = i"
  shows "bucket_ok (H(a := None)) i
    (b\<lparr>messageTimeouts := cancelTimeout a (messageTimeouts b),
       pingTimeouts := cancelTimeout a (pingTimeouts b), b_messages := remove1 a (b_messages b)\<rparr>)"
proof -
  have "set (remove1 a (b_messages b)) = {c. \<exists>n. (H(a := None)) c = Some n \<and> started n \<and> getBucket (om_id n) = i}"
    using assms unfolding bucket_ok_def by (auto split: if_splits)
  then show ?thesis
    using assms(1) unfolding bucket_ok_def
    by (auto simp: tm_ok_cancelTimeout set_tlist_cancelTimeout simp del: tlist_cancelTimeout)
qed

lemma bucket_ok_other:
  assumes "bucket_ok H j b" "H a = Some m" "started m \<longrightarrow> getBucket (om_id m) \<noteq> j"
  shows "bucket_ok (H(a := None)) j b"
  using assms unfolding bucket_ok_def by (auto split: if_splits)

lemma buckets_ok_remove:
  assumes "buckets_ok H B" "H a = Some m"
  defines "i \<equiv> getBucket (om_id m)"
  shows "buckets_ok (H(a := None)) (B(i := (B i)\<lparr>messageTimeouts := cancelTimeout a (messageTimeouts (B i)),
       pingTimeouts := cancelTimeout a (pingTimeouts (B i)), b_messages := remove1 a (b_messages (B i))\<rparr>))"
  unfolding buckets_ok_def
proof
  fix j
  show "bucket_ok (H(a := None)) j ((B(i := (B i)\<lparr>messageTimeouts := cancelTimeout a (messageTimeouts (B i)),
       pingTimeouts := cancelTimeout a (pingTimeouts (B i)), b_messages := remove1 a (b_messages (B i))\<rparr>)) j)"
    using bucket_ok_remove [OF buckets_okD [OF assms(1), of i] assms(2)]
      bucket_ok_other [OF buckets_okD [OF assms(1), of j] assms(2)]
    by (simp add: i_def)
qed

section \<open>Steps on the send queue\<close>

lemma by_unsent_cong:
  "(\<And>a. a \<in> set q \<Longrightarrow> key_of H' a = key_of H a) \<Longrightarrow> by_unsent H' q = by_unsent H q"
  by (rule sorted_wrt_congruent) simp

lemma key_of_upd [simp]:
  "key_of (H(a \<mapsto> m)) b = (if b = a then unsentBytes (om_info m) else key_of H b)"
  by (simp add: key_of_def)

lemma queue_ok_same:
  assumes "queue_ok H q" "H a = Some m" "(om_state m' = IN_PROGRESS) = (om_state m = IN_PROGRESS)"
    "om_state m = IN_PROGRESS \<longrightarrow> unsentBytes (om_info m') = unsentBytes (om_info m)"
  shows "queue_ok (H(a \<mapsto> m')) q"
proof -
  have "by_unsent (H(a \<mapsto> m')) q = by_unsent H q"
    using assms by (intro by_unsent_cong) (auto simp: queue_ok_def key_of_def)
  then show ?thesis
    using assms unfolding queue_ok_def by (auto split: if_splits)
qed

lemma queue_ok_leave:
  assumes "queue_ok H q" "H a = Some m" "om_state m' \<noteq> IN_PROGRESS"
  shows "queue_ok (H(a \<mapsto> m')) (remove1 a q)"
proof -
  have d: "distinct q" using assms(1) by (simp add: queue_ok_def)
  have "by_unsent (H(a \<mapsto> m')) (remove1 a q) = by_unsent H (remove1 a q)"
    using d by (intro by_unsent_cong) auto
  moreover have "by_unsent H (remove1 a q)"
    using assms(1) by (intro sorted_wrt_remove1) (simp add: queue_ok_def)
  ultimately show ?thesis
    using assms d unfolding queue_ok_def by (auto split: if_splits)
qed

lemma queue_ok_enter:
  assumes "queue_ok H q" "a \<notin> set q" "om_state m' = IN_PROGRESS"
  shows "queue_ok (H(a \<mapsto> m'))
    (deprioritize_seq (\<lambda>b c. key_of (H(a \<mapsto> m')) b < key_of (H(a \<mapsto> m')) c) a (a # q))"
proof -
  let ?H = "H(a \<mapsto> m')"
  have "by_unsent ?H q = by_unsent H q"
    using assms(2) by (intro by_unsent_cong) auto
  then have "by_unsent ?H q" using assms(1) by (simp add: queue_ok_def)
  then have "by_unsent ?H (deprioritize_seq (\<lambda>b c. key_of ?H b < key_of ?H c) a (a # q))"
    using by_key.ordered_push_deprioritize [of "key_of ?H" q a] by simp
  then show ?thesis
    using assms unfolding queue_ok_def
    by (auto simp: set_deprioritize_seq distinct_deprioritize_seq simp del: key_of_upd split: if_splits)
qed

lemma queue_ok_advance:
  assumes "queue_ok H q" "H a = Some m" "om_state m = IN_PROGRESS" "om_state m' = IN_PROGRESS"
    "unsentBytes (om_info m') \<le> unsentBytes (om_info m)"
  shows "queue_ok (H(a \<mapsto> m'))
    (prioritize_seq (\<lambda>b c. key_of (H(a \<mapsto> m')) b < key_of (H(a \<mapsto> m')) c) a q)"
proof -
  let ?H = "H(a \<mapsto> m')"
  have q: "distinct q" "a \<in> set q" "by_unsent H q"
    using assms(1-3) by (auto simp: queue_ok_def)
  have "by_unsent ?H (remove1 a q) = by_unsent H (remove1 a q)"
    using q by (intro by_unsent_cong) auto
  then have rest: "by_unsent ?H (remove1 a q)"
    using q(3) by (simp add: sorted_wrt_remove1)
  have "\<not> key_of ?H y < key_of ?H a" if "y \<in> set (after a q)" for y
  proof -
    have s: "q = before a q @ a # after a q" using before_after_id [OF q(2)] .
    with q(1) that have "y \<noteq> a" by (metis distinct.simps(2) distinct_append)
    moreover from s q(3) that have "\<not> key_of H y < key_of H a"
      by (metis sorted_wrt.simps(2) sorted_wrt_append)
    ultimately show ?thesis using assms(2,5) by (simp add: key_of_def)
  qed
  then have "by_unsent ?H (prioritize_seq (\<lambda>b c. key_of ?H b < key_of ?H c) a q)"
    using by_key.ordered_prioritize [of a q "key_of ?H"] q(2) rest by blast
  then show ?thesis
    using assms q unfolding queue_ok_def
    by (auto simp: set_prioritize_seq distinct_prioritize_seq simp del: key_of_upd split: if_splits)
qed

lemma queue_ok_other:
  assumes "queue_ok H q" "a \<notin> set q" "om_state m' \<noteq> IN_PROGRESS"
  shows "queue_ok (H(a \<mapsto> m')) q" "queue_ok (H(a := None)) q"
proof -
  have "by_unsent (H(a \<mapsto> m')) q = by_unsent H q"
    using assms(2) by (intro by_unsent_cong) auto
  moreover have "by_unsent (H(a := None)) q = by_unsent H q"
    using assms(2) by (intro by_unsent_cong) (auto simp: key_of_def)
  ultimately show "queue_ok (H(a \<mapsto> m')) q" "queue_ok (H(a := None)) q"
    using assms unfolding queue_ok_def by (auto split: if_splits)
qed

end
