(* ===== verification/Sender_Correct.thy ===== *)
theory Sender_Correct
  imports Sender_Invariant
begin

text \<open>
  Every operation of the sender, started in a state that satisfies the invariant, returns
  without a failed assertion, a null dereference or an exception, and keeps the invariant.
\<close>

lemmas sender_defs =
  upd_message_def upd_info_def set_state_def upd_bucket_def set_timeouts_def cancel_timeouts_def
  emit_def release_packet_def remove_message_def

section \<open>Lookup\<close>

lemma find_in_cases:
  assumes "\<And>a. a \<in> set as \<Longrightarrow> \<exists>m. s_heap s a = Some m"
  shows "(find_in msgId as s = Inr None \<and> (\<forall>a m. a \<in> set as \<and> s_heap s a = Some m \<longrightarrow> om_id m \<noteq> msgId)) \<or>
         (\<exists>a m. find_in msgId as s = Inr (Some a) \<and> a \<in> set as \<and> s_heap s a = Some m \<and> om_id m = msgId)"
  using assms
proof (induction as)
  case (Cons b as)
  from Cons.prems obtain n where "s_heap s b = Some n" by (meson list.set_intros(1))
  with Cons show ?case by (auto simp: deref_message_def)
qed simp

lemma findMessage_cases [consumes 1, case_names absent present]:
  assumes inv: "sender_inv s"
    and absent: "findMessage msgId (messageBuckets s (getBucket msgId)) s = Inr None \<Longrightarrow>
      (\<And>a m. s_heap s a = Some m \<Longrightarrow> started m \<Longrightarrow> om_id m \<noteq> msgId) \<Longrightarrow> thesis"
    and present: "\<And>a m. findMessage msgId (messageBuckets s (getBucket msgId)) s = Inr (Some a) \<Longrightarrow>
      s_heap s a = Some m \<Longrightarrow> started m \<Longrightarrow> om_id m = msgId \<Longrightarrow>
      a \<in> set (b_messages (messageBuckets s (getBucket msgId))) \<Longrightarrow> thesis"
  shows thesis
proof -
  let ?b = "messageBuckets s (getBucket msgId)"
  have b: "set (b_messages ?b) = {a. \<exists>m. s_heap s a = Some m \<and> started m \<and> getBucket (om_id m) = getBucket msgId}"
    using inv by (simp add: sender_inv_def buckets_ok_def bucket_ok_def)
  then have "\<And>a. a \<in> set (b_messages ?b) \<Longrightarrow> \<exists>m. s_heap s a = Some m" by auto
  from find_in_cases [of "b_messages ?b" s msgId, OF this] show thesis
    using absent present b unfolding findMessage_def by fastforce
qed

lemma deref_message_Some [simp]: "s_heap s a = Some m \<Longrightarrow> deref_message a s = Inr m"
  by (simp add: deref_message_def)

section \<open>Changing one message\<close>

text \<open>Everything but the heap, the buckets, the send queue and the peers' policies is kept.\<close>

definition same_static :: "sender \<Rightarrow> sender \<Rightarrow> bool" where
  "same_static s s' \<longleftrightarrow>
     s_driver s' = s_driver s \<and> s_transportId s' = s_transportId s \<and>
     nextMessageSequenceNumber s' = nextMessageSequenceNumber s \<and>
     messageAllocator s' = messageAllocator s \<and> sending s' = sending s"

lemma inv_change:
  assumes inv: "sender_inv s" and m: "s_heap s a = Some m" and same: "same_static s s'"
    and heap: "s_heap s' = (s_heap s)(a \<mapsto> m')"
    and ok: "msg_ok (s_driver s) (s_transportId s) (nextMessageSequenceNumber s) a m'"
    and id: "om_id m' = om_id m" "started m' = started m"
    and B: "buckets_ok (s_heap s) (messageBuckets s')"
    and Q: "queue_ok ((s_heap s)(a \<mapsto> m')) (sendQueue s')"
    and pm: "static_ok (s_driver s) (policyManager s')"
  shows "sender_inv s'"
proof -
  have "insert a (dom (s_heap s)) = dom (s_heap s)" using m by auto
  moreover have "heap_ok (s_driver s) (s_transportId s) (nextMessageSequenceNumber s) (s_heap s)"
    using inv by (simp add: sender_inv_def)
  from heap_ok_upd [OF this m ok id]
  have "heap_ok (s_driver s) (s_transportId s) (nextMessageSequenceNumber s) ((s_heap s)(a \<mapsto> m'))" .
  ultimately show ?thesis
    using inv same heap Q pm buckets_ok_upd [OF B m id]
    by (simp add: sender_inv_def same_static_def)
qed

lemma inv_frame:
  assumes inv: "sender_inv s" and same: "same_static s s'" and heap: "s_heap s' = s_heap s"
    and B: "buckets_ok (s_heap s) (messageBuckets s')"
    and Q: "sendQueue s' = sendQueue s" and pm: "policyManager s' = policyManager s"
  shows "sender_inv s'"
  using assms by (simp add: sender_inv_def same_static_def)

lemma inv_parts:
  assumes "sender_inv s"
  shows "static_ok (s_driver s) (policyManager s)" "buckets_ok (s_heap s) (messageBuckets s)"
    "queue_ok (s_heap s) (sendQueue s)" "driver_ok (s_driver s)" "policy_ok (policyManager s)"
  using assms by (simp_all add: sender_inv_def static_ok_def)

lemma inv_msg:
  "sender_inv s \<Longrightarrow> s_heap s a = Some m \<Longrightarrow>
   msg_ok (s_driver s) (s_transportId s) (nextMessageSequenceNumber s) a m"
  unfolding sender_inv_def using heap_ok_msg by blast

lemma inv_emit [simp]: "sender_inv (emit es s) = sender_inv s"
  by (simp add: emit_def sender_inv_def)

lemma inv_release [simp]: "sender_inv (release_packet p s) = sender_inv s"
  by (simp add: release_packet_def)

lemma inv_sendReady [simp]: "sender_inv (s\<lparr>sendReady := b\<rparr>) = sender_inv s"
  by (simp add: sender_inv_def)

lemma inv_upd_bucket:
  assumes "sender_inv s" "bucket_ok (s_heap s) i (f (messageBuckets s i))"
  shows "sender_inv (upd_bucket i f s)"
  by (rule inv_frame [OF assms(1)])
    (use buckets_ok_fun_upd [OF inv_parts(2) [OF assms(1)] assms(2)]
     in \<open>simp_all add: upd_bucket_def same_static_def\<close>)

lemma inv_bucket: "sender_inv s \<Longrightarrow> bucket_ok (s_heap s) i (messageBuckets s i)"
  using buckets_okD [OF inv_parts(2)] .

lemma inv_cancel_timeouts: "sender_inv s \<Longrightarrow> sender_inv (cancel_timeouts i a s)"
  unfolding cancel_timeouts_def by (intro inv_upd_bucket bucket_ok_cancel inv_bucket)

lemma inv_set_timeouts:
  assumes "sender_inv s" "a \<in> set (b_messages (messageBuckets s i))"
  shows "sender_inv (set_timeouts i a t1 t2 s)"
  unfolding set_timeouts_def
  by (intro inv_upd_bucket [OF assms(1)] bucket_ok_set inv_bucket [OF assms(1)] assms(2))

lemma inv_upd_message:
  assumes inv: "sender_inv s" and m: "s_heap s a = Some m"
    and ok: "msg_ok (s_driver s) (s_transportId s) (nextMessageSequenceNumber s) a (f m)"
    and id: "om_id (f m) = om_id m" "started (f m) = started m"
    and Q: "queue_ok ((s_heap s)(a \<mapsto> f m)) (sendQueue s)"
  shows "sender_inv (upd_message a f s)"
  by (rule inv_change [OF inv m _ _ ok id])
    (use inv_parts [OF inv] m Q in \<open>simp_all add: upd_message_def same_static_def\<close>)

text \<open>A message that is not in progress may become COMPLETED, FAILED or CANCELED.\<close>

lemma msg_ok_state:
  assumes "msg_ok d tid seq a m" "st \<noteq> IN_PROGRESS" "st \<noteq> NOT_STARTED" "started m"
  shows "msg_ok d tid seq a (m\<lparr>om_state := st\<rparr>)"
proof -
  have "om_wf d (m\<lparr>om_state := st\<rparr>) = om_wf d m"
    by (simp add: om_wf_def om_layout_def)
  moreover have "info_ok d a (m\<lparr>om_state := st\<rparr>) = info_ok d a m"
    by (simp add: info_ok_def)
  ultimately show ?thesis
    using assms by (simp add: msg_ok_def started_def)
qed

lemma inv_set_state:
  assumes "sender_inv s" "s_heap s a = Some m" "started m" "om_state m \<noteq> IN_PROGRESS"
    "st \<noteq> IN_PROGRESS" "st \<noteq> NOT_STARTED"
  shows "sender_inv (set_state a st s)"
  unfolding set_state_def
proof (rule inv_upd_message [OF assms(1,2)])
  show "msg_ok (s_driver s) (s_transportId s) (nextMessageSequenceNumber s) a (m\<lparr>om_state := st\<rparr>)"
    using msg_ok_state [OF inv_msg [OF assms(1,2)]] assms by simp
  show "queue_ok ((s_heap s)(a \<mapsto> m\<lparr>om_state := st\<rparr>)) (sendQueue s)"
    by (rule queue_ok_same [OF inv_parts(3) [OF assms(1)] assms(2)]) (use assms in simp_all)
qed (use assms in \<open>simp_all add: started_def\<close>)

section \<open>DONE and ERROR\<close>

lemma heap_cancel_timeouts [simp]: "s_heap (cancel_timeouts i a s) = s_heap s"
  by (simp add: sender_defs)

lemma handleDonePacket_ok:
  assumes "sender_inv s"
  shows "\<exists>s'. handleDonePacket packet s = Inr s' \<and> sender_inv s'"
  using assms
proof (cases rule: findMessage_cases [where msgId = "hmessageId (decode_common (payload packet))"])
  case absent
  then show ?thesis using assms by (simp add: handleDonePacket_def Let_def)
next
  case (present a m)
  then show ?thesis
    using assms inv_set_state [OF inv_cancel_timeouts [OF assms], where m = m and st = COMPLETED]
    by (auto simp: handleDonePacket_def Let_def getStatus_def split: status.split)
qed

lemma handleErrorPacket_ok:
  assumes "sender_inv s"
  shows "\<exists>s'. handleErrorPacket packet s = Inr s' \<and> sender_inv s'"
  using assms
proof (cases rule: findMessage_cases [where msgId = "hmessageId (decode_common (payload packet))"])
  case absent
  then show ?thesis using assms by (simp add: handleErrorPacket_def Let_def)
next
  case (present a m)
  then show ?thesis
    using assms inv_set_state [OF inv_cancel_timeouts [OF assms], where m = m and st = FAILED]
    by (auto simp: handleErrorPacket_def Let_def getStatus_def split: status.split)
qed

section \<open>Allocation and contents\<close>

lemma allocMessage_ok:
  assumes inv: "sender_inv s" and r: "allocMessage port s = Inr (a, s')"
  shows "sender_inv s' \<and> s_heap s a = None \<and> s_heap s' a = Some (OutMessage (s_driver s) port)"
proof -
  let ?m = "OutMessage (s_driver s) port"
  obtain pool where p: "pool_construct (messageAllocator s) = Inr (a, pool)"
    and s': "s' = emit [PerfAdd allocated_tx_messages 1] (s\<lparr>messageAllocator := pool, s_heap := (s_heap s)(a \<mapsto> ?m)\<rparr>)"
    using r by (auto simp: allocMessage_def res_simps)
  have "pool_ok (dom (s_heap s)) (messageAllocator s)" using inv by (simp add: sender_inv_def)
  from opool.alloc_fresh [OF this p] have a: "s_heap s a = None" "pool_ok (insert a (dom (s_heap s))) pool"
    by (auto simp: domIff)
  have n: "\<not> started ?m" "om_state ?m \<noteq> IN_PROGRESS" "om_held ?m"
    by (simp_all add: started_def OutMessage_def)
  then have ok: "msg_ok (s_driver s) tid seq a ?m" for tid seq
    using OutMessage_wf [OF inv_parts(4) [OF inv], of port] by (simp add: msg_ok_def)
  have "a \<notin> set (sendQueue s)"
    using inv_parts(3) [OF inv] a(1) by (auto simp: queue_ok_def)
  then have "queue_ok ((s_heap s)(a \<mapsto> ?m)) (sendQueue s)"
    using queue_ok_other(1) [OF inv_parts(3) [OF inv]] n(2) by blast
  moreover have "buckets_ok ((s_heap s)(a \<mapsto> ?m)) (messageBuckets s)"
    using inv_parts(2) [OF inv] a(1) n(1) bucket_ok_new unfolding buckets_ok_def by blast
  moreover have "heap_ok (s_driver s) (s_transportId s) (nextMessageSequenceNumber s) ((s_heap s)(a \<mapsto> ?m))"
    using inv a(1) n(1) ok by (intro heap_ok_unstart) (simp_all add: sender_inv_def)
  ultimately show ?thesis
    using inv a s' by (simp add: sender_inv_def emit_def)
qed

lemma allocMessage_error: "allocMessage port s = Inl e \<Longrightarrow> e = BadAlloc"
  using pool_construct_error by (fastforce simp: allocMessage_def bindr_def split: sum.splits prod.splits)

lemma message_op_ok:
  assumes inv: "sender_inv s" and m: "s_heap s a = Some m" "\<not> started m"
    and f: "f (s_driver s) m = Inr m'" "om_wf (s_driver s) m'" "om_state m' = om_state m" "om_held m' = om_held m"
      "om_id m' = om_id m"
  shows "message_op f a s = Inr (upd_message a (\<lambda>_. m') s) \<and> sender_inv (upd_message a (\<lambda>_. m') s)"
proof -
  have st: "om_state m = NOT_STARTED" using m(2) by (simp add: started_def)
  have "msg_ok (s_driver s) (s_transportId s) (nextMessageSequenceNumber s) a m'"
    using inv_msg [OF inv m(1)] m(2) f st by (simp add: msg_ok_def started_def)
  moreover have "queue_ok ((s_heap s)(a \<mapsto> m')) (sendQueue s)"
    using queue_ok_same [OF inv_parts(3) [OF inv] m(1), of m'] f st by simp
  ultimately have "sender_inv (upd_message a (\<lambda>_. m') s)"
    using inv_upd_message [OF inv m(1), of "\<lambda>_. m'"] f(3,5) by (simp add: started_def)
  with m(1) f(1) show ?thesis by (simp add: message_op_def)
qed

section \<open>GRANT and RESEND\<close>

lemma msg_ok_parts:
  assumes "msg_ok d tid seq a m" "driver_ok d"
  shows "om_wf d m" "om_PACKET_DATA_LENGTH m = int (pdl d)" "om_TRANSPORT_HEADER_LENGTH m = int sizeof_DataHeader"
    "om_numPackets m = int (packets_for d (nat (om_messageLength m)))" "0 < pdl d"
    "om_numPackets m \<le> int MAX_MESSAGE_PACKETS"
proof -
  show wf: "om_wf d m" using assms by (simp add: msg_ok_def)
  then show "om_PACKET_DATA_LENGTH m = int (pdl d)" "om_TRANSPORT_HEADER_LENGTH m = int sizeof_DataHeader"
    and n: "om_numPackets m = int (packets_for d (nat (om_messageLength m)))"
    by (simp_all add: om_wf_def om_layout_def)
  show pos: "0 < pdl d" using assms(2) by (rule pdl_pos)
  show "om_numPackets m \<le> int MAX_MESSAGE_PACKETS"
    unfolding n using packets_for_le [OF pos, of "nat (om_messageLength m)" MAX_MESSAGE_PACKETS] wf
    by (simp add: om_wf_def om_layout_def)
qed

lemma om_wf_info [simp]: "om_wf d (m\<lparr>om_info := q\<rparr>) = om_wf d m"
  by (simp add: om_wf_def om_layout_def)

lemma inv_grant:
  assumes inv: "sender_inv s" and m: "s_heap s a = Some m" "started m" "1 < om_numPackets m"
    and g: "packetsGranted (om_info m) \<le> g" "g \<le> om_numPackets m"
  shows "sender_inv (upd_info a (\<lambda>q. q\<lparr>packetsGranted := g, qi_priority := p\<rparr>) s)"
  unfolding upd_info_def
proof (rule inv_upd_message [OF inv m(1)])
  show "msg_ok (s_driver s) (s_transportId s) (nextMessageSequenceNumber s) a
      (m\<lparr>om_info := (om_info m)\<lparr>packetsGranted := g, qi_priority := p\<rparr>\<rparr>)"
    using inv_msg [OF inv m(1)] m g by (auto simp: msg_ok_def started_def info_ok_def)
qed (use queue_ok_same [OF inv_parts(3) [OF inv] m(1)] in \<open>simp_all add: started_def\<close>)

lemma deref_packets:
  assumes "sender_inv s" "s_heap s a = Some m" "started m" "1 < om_numPackets m" "s_heap s' = s_heap s"
  shows "deref_pointer (qi_packets (om_info m)) s' = Inr m"
  using inv_msg [OF assms(1,2)] assms(2-5)
  by (simp add: msg_ok_def info_ok_def deref_pointer_def deref_message_def)

lemma heap_set_timeouts [simp]: "s_heap (set_timeouts i a t1 t2 s) = s_heap s"
  by (simp add: sender_defs)

lemma handleGrantPacket_ok:
  assumes inv: "sender_inv s"
  shows "\<exists>s'. handleGrantPacket tsc packet s = Inr s' \<and> sender_inv s'"
  using inv
proof (cases rule: findMessage_cases [where msgId = "hmessageId (gh_common (decode_grant (payload packet)))"])
  case absent
  then show ?thesis using inv by (simp add: handleGrantPacket_def Let_def)
next
  case (present a m)
  let ?i = "getBucket (hmessageId (gh_common (decode_grant (payload packet))))"
  let ?s1 = "set_timeouts ?i a (tsc 0) (tsc 1) s"
  have s1: "sender_inv ?s1" using inv_set_timeouts [OF inv present(5)] .
  have m1: "s_heap ?s1 a = Some m" using present(2) by simp
  show ?thesis
  proof (cases "om_state m = IN_PROGRESS")
    case False
    with present s1 show ?thesis by (simp add: handleGrantPacket_def Let_def)
  next
    case True
    have n: "1 < om_numPackets m" using inv_msg [OF inv present(2)] True by (simp add: msg_ok_def)
    note parts = msg_ok_parts [OF inv_msg [OF inv present(2)] inv_parts(4) [OF inv]]
    obtain limit where l: "packet_limit (byteLimit (decode_grant (payload packet))) (om_PACKET_DATA_LENGTH m) = Inr limit"
      using parts(2,5) by (simp add: packet_limit_def)
    have "deref_pointer (qi_packets (om_info m)) ?s1 = Inr m"
      using deref_packets [OF inv present(2,3) n, of ?s1] by simp
    moreover have "sender_inv (upd_info a (\<lambda>q. q\<lparr>packetsGranted := g, qi_priority := p\<rparr>) ?s1)"
      if "packetsGranted (om_info m) < g" "g \<le> om_numPackets m" for g p
      using inv_grant [OF s1 m1 present(3) n] that by simp
    ultimately show ?thesis
      using present True l s1 by (auto simp: handleGrantPacket_def Let_def)
  qed
qed

lemma resend_packets_ok:
  assumes "\<And>i. i \<in> set is \<Longrightarrow> \<exists>p. getPacket i m = Inr (Some p)"
  shows "\<exists>es. resend_packets is m ip prio s = Inr (emit es s) \<and>
    sent_packets es = map (\<lambda>i. the (om_packets m (nat i))) is \<and> sent_priorities es = map (\<lambda>_. prio) is"
  using assms
proof (induction "is" arbitrary: s)
  case Nil
  then show ?case by (auto simp: emit_def intro!: exI [of _ "[]"])
next
  case (Cons i "is")
  from Cons.prems obtain p where p: "getPacket i m = Inr (Some p)" by (meson list.set_intros(1))
  then have pk: "om_packets m (nat i) = Some p" by (simp add: getPacket_def res_simps)
  let ?e = "[PerfAdd tx_data_pkts 1, PerfAdd tx_bytes (word_of_int (plength p)), SendPacket p ip prio]"
  obtain es where es: "resend_packets is m ip prio (emit ?e s) = Inr (emit es (emit ?e s))"
    "sent_packets es = map (\<lambda>i. the (om_packets m (nat i))) is" "sent_priorities es = map (\<lambda>_. prio) is"
    using Cons.IH Cons.prems by (metis list.set_intros(2))
  have "emit es (emit ?e s) = emit (?e @ es) s" by (simp add: emit_def)
  with p pk es show ?case by (auto intro!: exI [of _ "?e @ es"])
qed

lemma getPacket_ok:
  assumes "driver_ok d" "om_wf d m" "0 \<le> i" "i < om_numPackets m"
  obtains p where "getPacket i m = Inr (Some p)" "om_packets m (nat i) = Some p"
    "packet_ok d (chunk d (nat (om_messageLength m)) (nat i)) p"
proof -
  have lay: "om_layout d (nat (om_messageLength m)) m" using assms(2) by (simp add: om_wf_def)
  have "nat i < packets_for d (nat (om_messageLength m))"
    using lay assms(3,4) by (simp add: om_layout_def nat_less_iff)
  then have "nat i * pdl d < nat (om_messageLength m)"
    using packets_for_iff [OF pdl_pos [OF assms(1)]] by simp
  from layout_packet [OF assms(1) lay this] that assms(3) show ?thesis
    by (metis getPacket_def require_holds nat_less_iff)
qed

lemma inv_sent_bound:
  assumes "sender_inv s" "s_heap s a = Some m" "started m" "1 < om_numPackets m"
  shows "0 \<le> packetsSent (om_info m)" "packetsSent (om_info m) \<le> packetsGranted (om_info m)"
    "packetsGranted (om_info m) \<le> om_numPackets m"
  using inv_msg [OF assms(1,2)] assms(3,4) by (simp_all add: msg_ok_def info_ok_def)

lemma handleResendPacket_ok:
  assumes inv: "sender_inv s"
  shows "\<exists>s'. handleResendPacket tsc packet s = Inr s' \<and> sender_inv s'"
  using inv
proof (cases rule: findMessage_cases [where msgId = "hmessageId (rh_common (decode_resend (payload packet)))"])
  case absent
  then show ?thesis using inv by (simp add: handleResendPacket_def Let_def)
next
  case (present a m)
  let ?h = "decode_resend (payload packet)"
  let ?i = "getBucket (hmessageId (rh_common ?h))"
  let ?s1 = "set_timeouts ?i a (tsc 0) (tsc 1) s"
  let ?ix = "uint (rh_index ?h)" and ?stop = "uint (rh_index ?h) + uint (rh_num ?h)"
  have s1: "sender_inv ?s1" using inv_set_timeouts [OF inv present(5)] .
  have m1: "s_heap ?s1 a = Some m" using present(2) by simp
  show ?thesis
  proof (cases "om_numPackets m < 2 \<or> ?ix \<ge> om_numPackets m \<or> ?stop > om_numPackets m")
    case True
    with present s1 inv deref_packets [OF inv present(2,3), of ?s1] show ?thesis
      by (auto simp: handleResendPacket_def Let_def)
  next
    case False
    then have n: "1 < om_numPackets m" and le: "?stop \<le> om_numPackets m" by auto
    have d: "deref_pointer (qi_packets (om_info m)) ?s1 = Inr m"
      using deref_packets [OF inv present(2,3) n, of ?s1] by simp
    define s2 where "s2 = (if packetsGranted (om_info m) < ?stop
      then (upd_info a (\<lambda>q. q\<lparr>packetsGranted := ?stop, qi_priority := uint (rh_priority ?h)\<rparr>) ?s1)\<lparr>sendReady := True\<rparr>
      else ?s1)"
    have s2: "sender_inv s2"
      using inv_grant [OF s1 m1 present(3) n _ le] s1 by (simp add: s2_def)
    have "\<exists>p. getPacket i m = Inr (Some p)"
      if "i \<in> set (map int [nat ?ix..<nat (min ?stop (packetsSent (om_info m)))])" for i
    proof -
      from that have "0 \<le> i" "i < om_numPackets m" using le by auto
      with getPacket_ok [OF inv_parts(4) [OF inv] msg_ok_parts(1) [OF inv_msg [OF inv present(2)] inv_parts(4) [OF inv]]]
      show ?thesis by metis
    qed
    from resend_packets_ok [OF this, where ip = "sa_ip (om_destination m)" and
        prio = "getResendPriority (policyManager s)" and s = s2]
    obtain es where "resend_packets (map int [nat ?ix..<nat (min ?stop (packetsSent (om_info m)))]) m
        (sa_ip (om_destination m)) (getResendPriority (policyManager s)) s2 = Inr (emit es s2)" by blast
    with False present d s2 show ?thesis
      unfolding s2_def by (simp add: handleResendPacket_def Let_def split: if_splits)
  qed
qed

section \<open>Leaving the queue\<close>

lemma inv_queue_iff: "sender_inv s \<Longrightarrow> s_heap s a = Some m \<Longrightarrow> a \<in> set (sendQueue s) \<longleftrightarrow> om_state m = IN_PROGRESS"
  by (auto simp: sender_inv_def queue_ok_def)

text \<open>A message that ends leaves the send queue if it is in it and changes its state.\<close>

lemma inv_end_message:
  assumes inv: "sender_inv s" and m: "s_heap s a = Some m" "started m" and st: "st \<noteq> IN_PROGRESS" "st \<noteq> NOT_STARTED"
  shows "sender_inv (set_state a st (s\<lparr>sendQueue := remove1 a (sendQueue s)\<rparr>))"
proof (rule inv_change [OF inv m(1), where m' = "m\<lparr>om_state := st\<rparr>"])
  show "queue_ok ((s_heap s)(a \<mapsto> m\<lparr>om_state := st\<rparr>)) (sendQueue (set_state a st (s\<lparr>sendQueue := remove1 a (sendQueue s)\<rparr>)))"
    using queue_ok_leave [OF inv_parts(3) [OF inv] m(1), of "m\<lparr>om_state := st\<rparr>"] st by (simp add: sender_defs)
qed (use inv_parts [OF inv] msg_ok_state [OF inv_msg [OF inv m(1)] st m(2)] m st
     in \<open>simp_all add: sender_defs same_static_def started_def\<close>)

lemma remove1_queue:
  "sender_inv s \<Longrightarrow> s_heap s a = Some m \<Longrightarrow> om_state m \<noteq> IN_PROGRESS \<Longrightarrow> remove1 a (sendQueue s) = sendQueue s"
  using inv_queue_iff by (simp add: remove1_idem)

lemma cancelMessage_ok:
  assumes inv: "sender_inv s" and m: "s_heap s a = Some m"
  shows "\<exists>s'. cancelMessage a s = Inr s' \<and> sender_inv s'"
proof -
  let ?i = "getBucket (om_id m)"
  let ?s1 = "cancel_timeouts ?i a s"
  have s1: "sender_inv ?s1" "s_heap ?s1 a = Some m" using inv_cancel_timeouts [OF inv] m by simp_all
  have started: "started m" if "a \<in> set (b_messages (messageBuckets s ?i))"
    using inv_bucket [OF inv, of ?i] that m by (auto simp: bucket_ok_def)
  show ?thesis
  proof (cases "om_state m = IN_PROGRESS")
    case True
    then have "1 < om_numPackets m" "a \<in> set (sendQueue ?s1)"
      using inv_msg [OF inv m] inv_queue_iff [OF s1] by (simp_all add: msg_ok_def)
    with True m started inv inv_end_message [OF s1, of CANCELED] show ?thesis
      by (simp add: cancelMessage_def Let_def)
  next
    case False
    with m started inv inv_set_state [OF s1, of CANCELED] show ?thesis
      by (simp add: cancelMessage_def Let_def)
  qed
qed

section \<open>Destruction\<close>

lemma inv_destroy:
  assumes inv: "sender_inv s" and m: "s_heap s a = Some m" "om_state m \<noteq> IN_PROGRESS"
  defines "i \<equiv> getBucket (om_id m)"
  shows "\<exists>s'. destroy_message a (remove_message i a (cancel_timeouts i a s)) = Inr s' \<and> sender_inv s' \<and>
              s_heap s' = (s_heap s)(a := None) \<and> sendQueue s' = sendQueue s"
proof -
  let ?s1 = "remove_message i a (cancel_timeouts i a s)"
  have "pool_ok (dom (s_heap s)) (messageAllocator s)" "a \<in> dom (s_heap s)"
    using inv m(1) by (auto simp: sender_inv_def)
  from opool.dealloc_ok [OF this] obtain pool where
    pool: "pool_destroy a (messageAllocator s) = Inr pool" "pool_ok (dom (s_heap s) - {a}) pool" by blast
  let ?s2 = "emit [ReleasePackets (message_packets m), PerfAdd destroyed_tx_messages 1]
              (?s1\<lparr>messageAllocator := pool, s_heap := (s_heap s)(a := None)\<rparr>)"
  have q: "a \<notin> set (sendQueue s)" using inv_queue_iff [OF inv m(1)] m(2) by simp
  then have r: "destroy_message a ?s1 = Inr ?s2"
    using m pool by (simp add: destroy_message_def deref_message_def sender_defs)
  have "buckets_ok ((s_heap s)(a := None)) (messageBuckets ?s2)"
    using buckets_ok_remove [OF inv_parts(2) [OF inv] m(1)] by (simp add: sender_defs i_def)
  moreover have "queue_ok ((s_heap s)(a := None)) (sendQueue s)"
    using queue_ok_other(2) [OF inv_parts(3) [OF inv] q m(2)] .
  moreover have "heap_ok (s_driver s) (s_transportId s) (nextMessageSequenceNumber s) ((s_heap s)(a := None))"
    using inv by (intro heap_ok_remove) (simp add: sender_inv_def)
  ultimately have "sender_inv ?s2"
    using inv pool(2) by (simp add: sender_inv_def sender_defs)
  with r show ?thesis by (simp add: sender_defs)
qed

lemma sender_dropMessage_ok:
  assumes inv: "sender_inv s" and m: "s_heap s a = Some m" "om_held m"
  shows "\<exists>s'. sender_dropMessage a s = Inr s' \<and> sender_inv s'"
proof (cases "om_state m = IN_PROGRESS")
  case True
  have "sender_inv (upd_message a (\<lambda>m. m\<lparr>om_held := False\<rparr>) s)"
  proof (rule inv_upd_message [OF inv m(1)])
    have "om_wf (s_driver s) (m\<lparr>om_held := False\<rparr>) = om_wf (s_driver s) m"
      by (simp add: om_wf_def om_layout_def)
    then show "msg_ok (s_driver s) (s_transportId s) (nextMessageSequenceNumber s) a (m\<lparr>om_held := False\<rparr>)"
      using inv_msg [OF inv m(1)] True by (simp add: msg_ok_def started_def info_ok_def)
  qed (use queue_ok_same [OF inv_parts(3) [OF inv] m(1)] in \<open>simp_all add: started_def\<close>)
  with True m show ?thesis by (simp add: sender_dropMessage_def Let_def)
next
  case False
  define s1 where "s1 = emit [PerfAdd released_tx_messages 1] (upd_message a (\<lambda>m. m\<lparr>om_held := False\<rparr>) s)"
  let ?i = "getBucket (om_id m)"
  text \<open>The destructor does not look at \<open>held\<close>, so the result is that of destroying \<open>m\<close> itself.\<close>
  obtain s' where s': "destroy_message a (remove_message ?i a (cancel_timeouts ?i a s)) = Inr s'" "sender_inv s'"
    using inv_destroy [OF inv m(1) False] by blast
  have q: "a \<notin> set (sendQueue s)" using inv_queue_iff [OF inv m(1)] False by simp
  from s'(1) obtain pool where pool: "pool_destroy a (messageAllocator s) = Inr pool"
    and eq: "s' = emit [ReleasePackets (message_packets m), PerfAdd destroyed_tx_messages 1]
      (remove_message ?i a (cancel_timeouts ?i a s)\<lparr>messageAllocator := pool, s_heap := (s_heap s)(a := None)\<rparr>)"
    using m(1) by (auto simp: destroy_message_def deref_message_def sender_defs res_simps)
  have "message_packets (m\<lparr>om_held := False\<rparr>) = message_packets m"
    by (simp add: message_packets_def)
  then have "destroy_message a (remove_message ?i a (cancel_timeouts ?i a s1)) =
      Inr (s'\<lparr>s_events := s_events s @ [PerfAdd released_tx_messages 1, ReleasePackets (message_packets m),
             PerfAdd destroyed_tx_messages 1]\<rparr>)"
    using m(1) pool q by (simp add: eq s1_def destroy_message_def deref_message_def sender_defs)
  moreover have "sender_inv (s'\<lparr>s_events := es\<rparr>) = sender_inv s'" for es
    by (simp add: sender_inv_def)
  ultimately show ?thesis
    using False m(1) s'(2) by (simp add: sender_dropMessage_def Let_def s1_def)
qed

section \<open>Timeouts\<close>

lemma inv_in_bucket:
  assumes "sender_inv s" "a \<in> set (b_messages (messageBuckets s i))"
  obtains m where "s_heap s a = Some m" "started m" "getBucket (om_id m) = i"
  using inv_bucket [OF assms(1), of i] assms(2) by (auto simp: bucket_ok_def)

lemma inv_timeouts_linked:
  assumes "sender_inv s"
  shows "tm_ok (messageTimeouts (messageBuckets s i))" "tm_ok (pingTimeouts (messageBuckets s i))"
    "set (tlist (messageTimeouts (messageBuckets s i))) \<subseteq> set (b_messages (messageBuckets s i))"
    "set (tlist (pingTimeouts (messageBuckets s i))) \<subseteq> set (b_messages (messageBuckets s i))"
  using inv_bucket [OF assms, of i] unfolding bucket_ok_def by blast+

lemma expire_message_ok:
  assumes inv: "sender_inv s" and m: "s_heap s a = Some m" "started m"
  shows "\<exists>s'. expire_message i a m s = Inr s' \<and> sender_inv s' \<and>
    messageTimeouts (messageBuckets s' i) = cancelTimeout a (messageTimeouts (messageBuckets s i)) \<and>
    (\<exists>m'. s_heap s' = (s_heap s)(a \<mapsto> m') \<and> m' = m\<lparr>om_state := if om_state m = COMPLETED then COMPLETED else FAILED\<rparr>)"
proof (cases "om_state m = IN_PROGRESS")
  case True
  then have "a \<in> set (sendQueue s)" using inv_queue_iff [OF inv m(1)] by simp
  with True m inv_cancel_timeouts [OF inv_end_message [OF inv m, of FAILED]] show ?thesis
    by (auto simp: expire_message_def sender_defs)
next
  case False
  show ?thesis
  proof (cases "om_state m = COMPLETED")
    case True
    moreover have "(s_heap s)(a \<mapsto> m\<lparr>om_state := COMPLETED\<rparr>) = s_heap s"
    proof -
      have "m\<lparr>om_state := COMPLETED\<rparr> = m" using True by simp
      with m(1) show ?thesis by (simp add: fun_upd_idem)
    qed
    ultimately show ?thesis
      using m inv_cancel_timeouts [OF inv, of i a] by (auto simp: expire_message_def sender_defs)
  next
    case c: False
    with False m inv_cancel_timeouts [OF inv_set_state [OF inv m False, of FAILED]] show ?thesis
      by (auto simp: expire_message_def sender_defs)
  qed
qed

lemma message_timeouts_loop_ok:
  assumes "sender_inv s" "length (tlist (messageTimeouts (messageBuckets s i))) \<le> fuel"
  shows "\<exists>s'. message_timeouts_loop fuel now i s = Inr s' \<and> sender_inv s' \<and>
    (\<forall>a. tm_front (messageTimeouts (messageBuckets s' i)) = Some a \<longrightarrow>
         \<not> hasElapsed now a (messageTimeouts (messageBuckets s' i)))"
  using assms
proof (induction fuel arbitrary: s)
  case 0
  then show ?case
    by (subst message_timeouts_loop.simps) (auto simp: tm_front_def)
next
  case (Suc fuel)
  let ?tm = "messageTimeouts (messageBuckets s i)"
  show ?case
  proof (cases "\<exists>a. tm_front ?tm = Some a \<and> hasElapsed now a ?tm")
    case False
    with Suc.prems show ?thesis
      by (subst message_timeouts_loop.simps) (auto split: option.splits)
  next
    case True
    then obtain a as where a: "tlist ?tm = a # as" "tm_front ?tm = Some a" "hasElapsed now a ?tm"
      by (auto simp: tm_front_iff)
    then have "a \<in> set (b_messages (messageBuckets s i))"
      using inv_timeouts_linked(3) [OF Suc.prems(1), of i] by auto
    then obtain m where m: "s_heap s a = Some m" "started m"
      using inv_in_bucket [OF Suc.prems(1)] by metis
    obtain s' where s': "expire_message i a m s = Inr s'" "sender_inv s'"
      "messageTimeouts (messageBuckets s' i) = cancelTimeout a ?tm"
      using expire_message_ok [OF Suc.prems(1) m] by blast
    have "length (tlist (messageTimeouts (messageBuckets s' i))) \<le> fuel"
      using s'(3) a(1) Suc.prems(2) by simp
    from Suc.IH [OF s'(2) this] show ?thesis
      using a m s'(1) by (subst message_timeouts_loop.simps) simp
  qed
qed

lemma sender_checkMessageTimeouts_ok:
  assumes "sender_inv s"
  shows "\<exists>s'. sender_checkMessageTimeouts now i s = Inr s' \<and> sender_inv s'"
  using message_timeouts_loop_ok [OF assms, of i "length (tlist (messageTimeouts (messageBuckets s i)))" now] assms
  by (auto simp: sender_checkMessageTimeouts_def)

lemma ping_message_ok:
  assumes inv: "sender_inv s" and m: "s_heap s a = Some m" "started m"
    and l: "tlist (pingTimeouts (messageBuckets s i)) = a # as"
    and later: "now < t + timeoutIntervalCycles (pingTimeouts (messageBuckets s i))"
  defines "s' \<equiv> ping_message t i a m s"
  shows "sender_inv s'" "s_heap s' = s_heap s"
    "timeoutIntervalCycles (pingTimeouts (messageBuckets s' i)) = timeoutIntervalCycles (pingTimeouts (messageBuckets s i))"
    "tlist (pingTimeouts (messageBuckets s' i)) = as \<or>
     tlist (pingTimeouts (messageBuckets s' i)) = as @ [a] \<and> \<not> hasElapsed now a (pingTimeouts (messageBuckets s' i))"
    "\<And>x. x \<noteq> a \<Longrightarrow> hasElapsed now x (pingTimeouts (messageBuckets s' i)) = hasElapsed now x (pingTimeouts (messageBuckets s i))"
proof -
  have a: "a \<in> set (b_messages (messageBuckets s i))"
    using inv_timeouts_linked(4) [OF inv, of i] l by auto
  have c: "sender_inv (upd_bucket i (\<lambda>b. b\<lparr>pingTimeouts := cancelTimeout a (pingTimeouts b)\<rparr>) s)"
    by (intro inv_upd_bucket [OF inv] bucket_ok_cancel inv_bucket [OF inv])
  have r: "sender_inv (upd_bucket i (\<lambda>b. b\<lparr>pingTimeouts := setTimeout t a (pingTimeouts b)\<rparr>) s)"
    by (intro inv_upd_bucket [OF inv] bucket_ok_set inv_bucket [OF inv] a)
  show "sender_inv s'"
    using c r inv_cancel_timeouts [OF inv, of i a] by (simp add: s'_def ping_message_def Let_def)
  show "s_heap s' = s_heap s"
    by (simp add: s'_def ping_message_def Let_def sender_defs)
  show "timeoutIntervalCycles (pingTimeouts (messageBuckets s' i)) = timeoutIntervalCycles (pingTimeouts (messageBuckets s i))"
    by (simp add: s'_def ping_message_def Let_def sender_defs)
  show "tlist (pingTimeouts (messageBuckets s' i)) = as \<or>
     tlist (pingTimeouts (messageBuckets s' i)) = as @ [a] \<and> \<not> hasElapsed now a (pingTimeouts (messageBuckets s' i))"
    using l later by (auto simp: s'_def ping_message_def Let_def sender_defs hasElapsed_def not_le)
  show "\<And>x. x \<noteq> a \<Longrightarrow> hasElapsed now x (pingTimeouts (messageBuckets s' i)) = hasElapsed now x (pingTimeouts (messageBuckets s i))"
    by (simp add: s'_def ping_message_def Let_def sender_defs hasElapsed_def)
qed

lemma ping_message_inv:
  assumes inv: "sender_inv s" and a: "a \<in> set (b_messages (messageBuckets s i))"
  shows "sender_inv (ping_message t i a m s)"
proof -
  have "sender_inv (upd_bucket i (\<lambda>b. b\<lparr>pingTimeouts := cancelTimeout a (pingTimeouts b)\<rparr>) s)"
    by (intro inv_upd_bucket [OF inv] bucket_ok_cancel inv_bucket [OF inv])
  moreover have "sender_inv (upd_bucket i (\<lambda>b. b\<lparr>pingTimeouts := setTimeout t a (pingTimeouts b)\<rparr>) s)"
    by (intro inv_upd_bucket [OF inv] bucket_ok_set inv_bucket [OF inv] a)
  ultimately show ?thesis
    using inv_cancel_timeouts [OF inv, of i a] by (simp add: ping_message_def Let_def)
qed

text \<open>Whatever the clock shows, the loop keeps the invariant if it ends.\<close>

lemma ping_timeouts_loop_inv:
  "\<lbrakk>sender_inv s; ping_timeouts_loop fuel tsc now i s = Inr s'\<rbrakk> \<Longrightarrow> sender_inv s'"
proof (induction fuel arbitrary: tsc s)
  case 0
  then show ?case
    by (subst (asm) ping_timeouts_loop.simps) (auto split: option.splits if_splits)
next
  case (Suc fuel)
  show ?case
  proof (cases "\<exists>a. tm_front (pingTimeouts (messageBuckets s i)) = Some a \<and> hasElapsed now a (pingTimeouts (messageBuckets s i))")
    case False
    with Suc.prems show ?thesis
      by (subst (asm) ping_timeouts_loop.simps) (auto split: option.splits if_splits)
  next
    case True
    then obtain a as where a: "tm_front (pingTimeouts (messageBuckets s i)) = Some a"
      "hasElapsed now a (pingTimeouts (messageBuckets s i))" "tlist (pingTimeouts (messageBuckets s i)) = a # as"
      by (auto simp: tm_front_iff)
    then have "a \<in> set (b_messages (messageBuckets s i))"
      using inv_timeouts_linked(4) [OF Suc.prems(1), of i] by auto
    then obtain m where m: "s_heap s a = Some m" "sender_inv (ping_message (tsc 0) i a m s)"
      using inv_in_bucket [OF Suc.prems(1)] ping_message_inv [OF Suc.prems(1)] by metis
    have "ping_timeouts_loop fuel (\<lambda>j. tsc (Suc j)) now i (ping_message (tsc 0) i a m s) = Inr s'"
      using Suc.prems(2) a(1,2) m(1) by (subst (asm) ping_timeouts_loop.simps) simp
    from Suc.IH [OF m(2) this] show ?thesis .
  qed
qed

lemma ping_timeouts_loop_ok:
  assumes "sender_inv s" "tlist (pingTimeouts (messageBuckets s i)) = pending @ visited"
    "\<forall>x \<in> set visited. \<not> hasElapsed now x (pingTimeouts (messageBuckets s i))"
    "length pending \<le> fuel" "restarts_later tsc now (timeoutIntervalCycles (pingTimeouts (messageBuckets s i)))"
  shows "\<exists>s'. ping_timeouts_loop fuel tsc now i s = Inr s' \<and> sender_inv s'"
  using assms
proof (induction pending arbitrary: s visited fuel tsc)
  case Nil
  then show ?case
    by (subst ping_timeouts_loop.simps) (auto simp: tm_front_def split: list.splits)
next
  case (Cons a pending)
  let ?tm = "pingTimeouts (messageBuckets s i)"
  have front: "tm_front ?tm = Some a" using Cons.prems(2) by (simp add: tm_front_def)
  show ?case
  proof (cases "hasElapsed now a ?tm")
    case False
    with front Cons.prems(1) show ?thesis
      by (subst ping_timeouts_loop.simps) simp
  next
    case True
    obtain k where k: "fuel = Suc k" "length pending \<le> k" using Cons.prems(4) by (cases fuel) auto
    have "a \<in> set (b_messages (messageBuckets s i))"
      using inv_timeouts_linked(4) [OF Cons.prems(1), of i] Cons.prems(2) by auto
    then obtain m where m: "s_heap s a = Some m" "started m"
      using inv_in_bucket [OF Cons.prems(1)] by metis
    have l: "tlist ?tm = a # (pending @ visited)" using Cons.prems(2) by simp
    then have na: "a \<notin> set visited"
      using inv_timeouts_linked(2) [OF Cons.prems(1), of i] by (auto simp: tm_ok_def)
    have later: "now < tsc 0 + timeoutIntervalCycles ?tm"
      using Cons.prems(5) by (simp add: restarts_later_def)
    let ?s = "ping_message (tsc 0) i a m s"
    note p = ping_message_ok [OF Cons.prems(1) m l later]
    have later': "restarts_later (\<lambda>j. tsc (Suc j)) now (timeoutIntervalCycles (pingTimeouts (messageBuckets ?s i)))"
      using Cons.prems(5) p(3) by (simp add: restarts_later_def)
    have old: "\<forall>x \<in> set visited. \<not> hasElapsed now x (pingTimeouts (messageBuckets ?s i))"
      using Cons.prems(3) p(5) na by metis
    from p(4) have "\<exists>s'. ping_timeouts_loop k (\<lambda>j. tsc (Suc j)) now i ?s = Inr s' \<and> sender_inv s'"
    proof
      assume "tlist (pingTimeouts (messageBuckets ?s i)) = pending @ visited"
      then show ?thesis
        using Cons.IH [OF p(1) _ old k(2) later'] by blast
    next
      assume "tlist (pingTimeouts (messageBuckets ?s i)) = (pending @ visited) @ [a] \<and>
        \<not> hasElapsed now a (pingTimeouts (messageBuckets ?s i))"
      then show ?thesis
        using Cons.IH [OF p(1) _ _ k(2) later', of "visited @ [a]"] old by simp
    qed
    with front True m k(1) show ?thesis
      by (subst ping_timeouts_loop.simps) simp
  qed
qed

lemma checkPingTimeouts_ok:
  assumes "sender_inv s" "restarts_later tsc now (timeoutIntervalCycles (pingTimeouts (messageBuckets s i)))"
  shows "\<exists>s'. checkPingTimeouts tsc now i s = Inr s' \<and> sender_inv s'"
  using ping_timeouts_loop_ok [OF assms(1), of i _ "[]", OF _ _ _ assms(2)] assms(1)
  by (auto simp: checkPingTimeouts_def)

lemma sender_checkTimeouts_inv:
  assumes "sender_inv s" "sender_checkTimeouts tsc s = Inr s'"
  shows "sender_inv s'"
proof -
  let ?s = "s\<lparr>s_nextBucketIndex := s_nextBucketIndex s + 1\<rparr>"
  let ?i = "unat (s_nextBucketIndex s AND HASH_KEY_MASK)"
  have inv: "sender_inv ?s" using assms(1) by (simp add: sender_inv_def)
  from assms(2) obtain s1 where s1: "checkPingTimeouts (\<lambda>j. tsc (Suc j)) (tsc 0) ?i ?s = Inr s1"
    "sender_checkMessageTimeouts (tsc 0) ?i s1 = Inr s'"
    by (auto simp: sender_checkTimeouts_def Let_def bindr_eq_Inr)
  have "sender_inv s1"
    using s1(1) inv ping_timeouts_loop_inv [OF inv] by (auto simp: checkPingTimeouts_def split: if_splits)
  with sender_checkMessageTimeouts_ok [of s1 "tsc 0" ?i] s1(2) show ?thesis by auto
qed

lemma sender_checkTimeouts_ok:
  assumes "sender_inv s"
    "\<And>i. restarts_later (\<lambda>j. tsc (Suc j)) (tsc 0) (timeoutIntervalCycles (pingTimeouts (messageBuckets s i)))"
  shows "\<exists>s'. sender_checkTimeouts tsc s = Inr s' \<and> sender_inv s'"
proof -
  let ?s = "s\<lparr>s_nextBucketIndex := s_nextBucketIndex s + 1\<rparr>"
  let ?i = "unat (s_nextBucketIndex s AND HASH_KEY_MASK)"
  have "sender_inv ?s" using assms(1) by (simp add: sender_inv_def)
  then obtain s1 where "checkPingTimeouts (\<lambda>j. tsc (Suc j)) (tsc 0) ?i ?s = Inr s1" "sender_inv s1"
    using checkPingTimeouts_ok [of ?s "\<lambda>j. tsc (Suc j)" "tsc 0" ?i] assms(2) [of ?i] by auto
  with sender_checkMessageTimeouts_ok [of s1] show ?thesis
    by (auto simp: sender_checkTimeouts_def Let_def)
qed

section \<open>Writing headers\<close>

definition map_packets :: "(nat \<Rightarrow> packet \<Rightarrow> packet) \<Rightarrow> int list \<Rightarrow> outMessage \<Rightarrow> outMessage" where
  "map_packets g is m =
     m\<lparr>om_packets := (\<lambda>j. if int j \<in> set is then map_option (g j) (om_packets m j) else om_packets m j)\<rparr>"

text \<open>A change of the header only.\<close>

definition header_only :: "(nat \<Rightarrow> packet \<Rightarrow> packet) \<Rightarrow> bool" where
  "header_only g \<longleftrightarrow> (\<forall>j p. sizeof_DataHeader \<le> length (payload p) \<longrightarrow>
     plength (g j p) = plength p \<and> length (payload (g j p)) = length (payload p) \<and>
     drop sizeof_DataHeader (payload (g j p)) = drop sizeof_DataHeader (payload p))"

lemma packet_ok_room: "driver_ok d \<Longrightarrow> packet_ok d n p \<Longrightarrow> sizeof_DataHeader \<le> length (payload p)"
  by (simp add: packet_ok_def driver_ok_def)

lemma map_packets_layout:
  assumes "driver_ok d" "header_only g" "om_layout d len m"
  shows "om_layout d len (map_packets g is m)"
proof -
  have "case om_packets (map_packets g is m) j of
          Some p \<Rightarrow> j < packets_for d len \<and> packet_ok d (chunk d len j) p
        | None \<Rightarrow> packets_for d len \<le> j" for j
  proof -
    have "case om_packets m j of Some p \<Rightarrow> j < packets_for d len \<and> packet_ok d (chunk d len j) p
        | None \<Rightarrow> packets_for d len \<le> j"
      using assms(3) unfolding om_layout_def by blast
    moreover have "packet_ok d n (g j p)" if "packet_ok d n p" for n p
      using packet_ok_room [OF assms(1) that] assms(2) that by (simp add: packet_ok_def header_only_def)
    ultimately show ?thesis
      by (auto simp: map_packets_def split: option.splits)
  qed
  then show ?thesis
    using assms(3) by (simp add: om_layout_def map_packets_def)
qed

lemma map_packets_wf:
  "driver_ok d \<Longrightarrow> header_only g \<Longrightarrow> om_wf d m \<Longrightarrow> om_wf d (map_packets g is m)"
  using map_packets_layout [of d g "nat (om_messageLength m)" m "is"] by (simp add: om_wf_def map_packets_def)

lemma map_packets_buffer:
  assumes "driver_ok d" "header_only g" "om_wf d m"
  shows "om_buffer d (map_packets g is m) = om_buffer d m"
proof -
  have pos: "0 < pdl d" using assms(1) by (rule pdl_pos)
  have "om_byte d (map_packets g is m) k = om_byte d m k" if k: "k < nat (om_messageLength m)" for k
  proof -
    have lay: "om_layout d (nat (om_messageLength m)) m" using assms(3) by (simp add: om_wf_def)
    have "k div pdl d * pdl d < nat (om_messageLength m)"
      using k div_times_less_eq_dividend [of k "pdl d"] by linarith
    then obtain p where p: "om_packets m (k div pdl d) = Some p"
      "packet_ok d (chunk d (nat (om_messageLength m)) (k div pdl d)) p"
      using layout_packet [OF assms(1) lay] by metis
    have "sizeof_DataHeader \<le> length (payload p)" using packet_ok_room [OF assms(1) p(2)] .
    with assms(2) have g: "length (payload (g (k div pdl d) p)) = length (payload p)"
      "drop sizeof_DataHeader (payload (g (k div pdl d) p)) = drop sizeof_DataHeader (payload p)"
      by (simp_all add: header_only_def)
    have "k mod pdl d < pdl d" using pos by simp
    then have "sizeof_DataHeader + k mod pdl d < length (payload p)"
      using p(2) pdl_bound [OF assms(1)] by (simp add: packet_ok_def)
    then have "payload (g (k div pdl d) p) ! (sizeof_DataHeader + k mod pdl d) =
        payload p ! (sizeof_DataHeader + k mod pdl d)"
      using g by (metis add_leD1 less_imp_le_nat nth_drop)
    with p show ?thesis by (simp add: om_byte_def map_packets_def)
  qed
  moreover have "om_messageLength (map_packets g is m) = om_messageLength m"
    by (simp add: map_packets_def)
  ultimately show ?thesis by (simp add: om_buffer_def)
qed

lemma setPacket_map_packets:
  assumes "om_packets m (nat i) = Some p" "0 \<le> i" "i \<notin> set is"
  shows "map_packets g is (setPacket i (g (nat i) p) m) = map_packets g (i # is) m"
proof -
  have "(\<lambda>j. if int j \<in> set is then map_option (g j) (((om_packets m)(nat i \<mapsto> g (nat i) p)) j)
             else ((om_packets m)(nat i \<mapsto> g (nat i) p)) j) =
        (\<lambda>j. if int j = i \<or> int j \<in> set is then map_option (g j) (om_packets m j) else om_packets m j)"
    using assms by (intro ext) (auto simp: nat_eq_iff)
  then show ?thesis by (simp add: map_packets_def setPacket_def cong: if_cong)
qed

lemma header_only_put: "header_only (\<lambda>j. put_header (encode_data (h j)))"
  by (simp add: header_only_def put_header_def drop_memcpy_after)

lemma header_only_policy: "header_only (\<lambda>_. update_policy_header v l)"
  by (simp add: header_only_def update_policy_header_def drop_memcpy_after sizeof_DataHeader_def)

text \<open>The in-place update changes the two fields and no other.\<close>

lemma update_policy_header_fields:
  assumes "sizeof_DataHeader \<le> length (payload p)"
  shows "decode_data (payload (update_policy_header v l p)) =
    (decode_data (payload p))\<lparr>policyVersion := v, unscheduledIndexLimit := l\<rparr>"
  using assms by (simp add: update_policy_header_def decode_data_def decode_common_def
      field_memcpy_other field_memcpy_same sizeof_DataHeader_def)

lemma put_header_decode:
  assumes "sizeof_DataHeader \<le> length (payload p)"
  shows "decode_data (payload (put_header (encode_data h) p)) = h"
  by (simp add: put_header_def memcpy_def)

end
