(* ===== verification/Sender_Send.thy ===== *)
theory Sender_Send
  imports Sender_Correct
begin

text \<open>
  Starting, restarting and carrying out transmissions: \<open>sendMessage\<close>, \<open>handleUnknownPacket\<close>
  and \<open>trySend\<close> return and keep the invariant; and what they put on the wire.
\<close>

section \<open>Headers of a message that is sent\<close>

definition data_header :: "u16 \<Rightarrow> u16 \<Rightarrow> u8 \<Rightarrow> int \<Rightarrow> outMessage \<Rightarrow> nat \<Rightarrow> dataHeader" where
  "data_header sp dp version limit m j =
     DataHeader sp dp (om_id m) (word_of_int (om_messageLength m)) version (word_of_int limit) (of_nat j)"

lemma fill_headers_eq:
  assumes "driver_ok d" "om_wf d m" "0 \<le> limit" "limit < 2 ^ 16"
    "\<forall>i \<in> set is. 0 \<le> i \<and> i < om_numPackets m" "distinct is"
  shows "fill_headers is sp dp version limit actual m =
    Inr (actual + (\<Sum>i\<leftarrow>is. int (chunk d (nat (om_messageLength m)) (nat i))),
         map_packets (\<lambda>j. put_header (encode_data (data_header sp dp version limit m j))) is m)"
  using assms
proof (induction "is" arbitrary: actual m)
  case Nil
  then show ?case by (simp add: map_packets_def)
next
  case (Cons i "is")
  let ?g = "\<lambda>j. put_header (encode_data (data_header sp dp version limit m j))"
  have i: "0 \<le> i" "i < om_numPackets m" "i \<notin> set is" using Cons.prems(5,6) by auto
  obtain p where p: "getPacket i m = Inr (Some p)" "om_packets m (nat i) = Some p"
    "packet_ok d (chunk d (nat (om_messageLength m)) (nat i)) p"
    using getPacket_ok [OF Cons.prems(1,2) i(1,2)] by metis
  have "i < int MAX_MESSAGE_PACKETS"
    using p(1) by (simp add: getPacket_def require_def split: if_splits)
  then have ix: "downCast_u16 i = Inr (of_nat (nat i))"
    using i(1) by (simp add: downCast_u16_iff MAX_MESSAGE_PACKETS_def)
  let ?m = "setPacket i (?g (nat i) p) m"
  have wf: "om_wf d ?m"
  proof -
    have "?m = map_packets ?g [i] m"
      using setPacket_map_packets [OF p(2) i(1), of "[]" ?g] by (simp add: map_packets_def)
    then show ?thesis using map_packets_wf [OF Cons.prems(1) header_only_put Cons.prems(2)] by simp
  qed
  have same: "om_numPackets ?m = om_numPackets m" "om_messageLength ?m = om_messageLength m"
    "data_header sp dp version limit ?m = data_header sp dp version limit m"
    by (simp_all add: setPacket_def data_header_def fun_eq_iff)
  have h: "om_TRANSPORT_HEADER_LENGTH m = int sizeof_DataHeader"
    using Cons.prems(2) by (simp add: om_wf_def om_layout_def)
  have "fill_headers (i # is) sp dp version limit actual m =
      fill_headers is sp dp version limit (actual + int (chunk d (nat (om_messageLength m)) (nat i))) ?m"
    using p ix Cons.prems(3,4) h
    by (simp add: downCast_u16_iff data_header_def packet_ok_def)
  also have "\<dots> = Inr (actual + int (chunk d (nat (om_messageLength m)) (nat i)) +
        (\<Sum>i\<leftarrow>is. int (chunk d (nat (om_messageLength m)) (nat i))), map_packets ?g is ?m)"
    using Cons.IH [OF Cons.prems(1) wf Cons.prems(3,4)] Cons.prems(5,6) unfolding same by simp
  finally show ?case
    using setPacket_map_packets [OF p(2) i(1,3), of ?g] by (simp add: add.assoc)
qed

lemma update_headers_eq:
  assumes "driver_ok d" "om_wf d m" "0 \<le> limit" "limit < 2 ^ 16"
    "\<forall>i \<in> set is. 0 \<le> i \<and> i < om_numPackets m" "distinct is"
  shows "update_headers is version limit m =
    Inr (map_packets (\<lambda>_. update_policy_header version (word_of_int limit)) is m)"
  using assms
proof (induction "is" arbitrary: m)
  case Nil
  then show ?case by (simp add: map_packets_def)
next
  case (Cons i "is")
  let ?g = "\<lambda>_. update_policy_header version (word_of_int limit)"
  have i: "0 \<le> i" "i < om_numPackets m" "i \<notin> set is" using Cons.prems(5,6) by auto
  obtain p where p: "getPacket i m = Inr (Some p)" "om_packets m (nat i) = Some p"
    using getPacket_ok [OF Cons.prems(1,2) i(1,2)] by metis
  let ?m = "setPacket i (?g (nat i) p) m"
  have "?m = map_packets ?g [i] m"
    using setPacket_map_packets [OF p(2) i(1), of "[]" ?g] by (simp add: map_packets_def)
  then have wf: "om_wf d ?m"
    using map_packets_wf [OF Cons.prems(1) header_only_policy Cons.prems(2)] by metis
  have "om_numPackets ?m = om_numPackets m" by (simp add: setPacket_def)
  with Cons.IH [OF Cons.prems(1) wf Cons.prems(3,4)] Cons.prems(3-6) p
    setPacket_map_packets [OF p(2) i(1,3), of ?g]
  show ?case by (simp add: downCast_u16_iff)
qed

lemma sum_chunks_message:
  assumes "driver_ok d" "om_wf d m"
  shows "(\<Sum>i\<leftarrow>map int [0..<nat (om_numPackets m)]. int (chunk d (nat (om_messageLength m)) (nat i))) =
    om_messageLength m"
proof -
  let ?len = "nat (om_messageLength m)"
  have pos: "0 < pdl d" using assms(1) by (rule pdl_pos)
  have n: "nat (om_numPackets m) = packets_for d ?len" and ml: "0 \<le> om_messageLength m"
    using assms(2) by (simp_all add: om_wf_def om_layout_def)
  have "\<not> packets_for d ?len * pdl d < ?len"
    using packets_for_iff [OF pos, of "packets_for d ?len" ?len] by simp
  then have "(\<Sum>i\<leftarrow>[0..<packets_for d ?len]. chunk d ?len i) = ?len"
    using sum_chunks [OF pos, of ?len "packets_for d ?len"] by simp
  then have "int (\<Sum>i\<leftarrow>[0..<packets_for d ?len]. chunk d ?len i) = om_messageLength m"
    using ml by simp
  moreover have "int (\<Sum>i\<leftarrow>xs. chunk d ?len i) = (\<Sum>i\<leftarrow>map int xs. int (chunk d ?len (nat i)))" for xs
    by (induction xs) simp_all
  ultimately show ?thesis using n by metis
qed

lemma all_indices:
  "\<forall>i \<in> set (map int [0..<nat (om_numPackets m)]). 0 \<le> i \<and> i < om_numPackets m"
  "distinct (map int [0..<nat (om_numPackets m)])"
  by (auto simp: distinct_map inj_on_def)

section \<open>The unscheduled limit\<close>

lemma packet_limit_small:
  assumes "0 < pdl d" "pdl d < 2 ^ 16" "unat n \<le> 65535 * pdl d"
  shows "packet_limit n (int (pdl d)) = Inr (int (packets_for d (unat n)))" "packets_for d (unat n) < 2 ^ 16"
proof -
  let ?p = "word_of_int (int (pdl d)) :: u32"
  have p: "unat ?p = pdl d"
    using assms(2) by (simp add: unat_of_nat take_bit_nat_eq_self)
  have "unat n + pdl d - 1 < 65536 * pdl d"
    using assms(1,3) by simp
  also have "\<dots> \<le> 65536 * 65535" using assms(2) by simp
  finally have lt: "unat n + pdl d - 1 < 2 ^ 32" by simp
  have one: "1 \<le> ?p" using assms(1) p by (simp add: word_le_nat_alt)
  have u: "unat (?p - 1) = pdl d - 1" using one p by (simp add: unat_sub)
  have "unat n + unat (?p - 1) < 2 ^ LENGTH(32)" unfolding u using lt assms(1) by simp
  then have "unat (n + (?p - 1)) = unat n + (pdl d - 1)" using unat_add_lem u by metis
  then have "unat (n + ?p - 1) = unat n + (pdl d - 1)" by (simp only: add_diff_eq)
  then have q: "unat ((n + ?p - 1) div ?p) = packets_for d (unat n)"
    using p assms(1) by (simp add: unat_div packets_for_def)
  show b: "packets_for d (unat n) < 2 ^ 16"
    using packets_for_le [OF assms(1) assms(3)] by simp
  then have "int_of_u32 ((n + ?p - 1) div ?p) = int (packets_for d (unat n))"
    using int_of_u32_small [of "(n + ?p - 1) div ?p", unfolded q] by simp
  then show "packet_limit n (int (pdl d)) = Inr (int (packets_for d (unat n)))"
    using assms(1) by (simp add: packet_limit_def)
qed

lemma inv_unscheduled_limit:
  assumes "static_ok d pm"
  shows "packet_limit (RTT_BYTES pm) (int (pdl d)) = Inr (int (packets_for d (unat (RTT_BYTES pm))))"
    "packets_for d (unat (RTT_BYTES pm)) < 2 ^ 16"
  using packet_limit_small [of d "RTT_BYTES pm"] assms pdl_pos [of d] pdl_bound [of d]
  by (simp_all add: static_ok_def)

section \<open>Sending a message\<close>

lemma send_single_ok:
  assumes d: "driver_ok (s_driver s)" and m: "s_heap s a = Some m" "om_wf (s_driver s) m"
    "om_numPackets m = 1" "om_held m"
  shows "\<exists>es. send_single i a prio s = Inr
    (if has_option (om_options m) NO_KEEP_ALIVE then cancel_timeouts i a (set_state a SENT (emit es s))
     else set_state a SENT (emit es s)) \<and>
    sent_packets es = [the (om_packets m 0)] \<and> sent_priorities es = [prio]"
proof -
  obtain p where p: "getPacket 0 m = Inr (Some p)" "om_packets m 0 = Some p"
    using getPacket_ok [OF d m(2), of 0] m(3) by auto
  then show ?thesis
    using m by (auto simp: send_single_def intro!: exI [of _ "[PerfAdd tx_data_pkts 1,
      PerfAdd tx_bytes (word_of_int (plength p)), SendPacket p (sa_ip (om_destination m)) prio]"])
qed

text \<open>A message enters the sender: from an application-owned message to a member of a bucket.\<close>

lemma getBucket_less: "getBucket msgId < NUM_BUCKETS"
proof -
  have "Hasher msgId AND 255 = take_bit 8 (Hasher msgId)"
    by (simp add: take_bit_eq_mask mask_eq_exp_minus_1)
  then have "getBucket msgId = unat (ucast (take_bit 8 (Hasher msgId)) :: u32)"
    by (simp add: getBucket_def HASH_KEY_MASK_def)
  also have "\<dots> \<le> unat (take_bit 8 (Hasher msgId))"
    by (simp add: unsigned_ucast_eq take_bit_nat_less_eq_self)
  also have "\<dots> < 2 ^ 8"
    using take_bit_nat_less_exp [of 8 "unat (Hasher msgId)"] by (simp add: unsigned_take_bit_eq)
  finally show ?thesis by (simp add: NUM_BUCKETS_def)
qed

lemma bucket_ok_enter:
  assumes "bucket_ok H i b" "H a = Some m" "\<not> started m" "started m'" "getBucket (om_id m') = i"
  shows "bucket_ok (H(a \<mapsto> m')) i (b\<lparr>b_messages := b_messages b @ [a]\<rparr>)"
proof -
  have "a \<notin> set (b_messages b)" using assms(1-3) by (auto simp: bucket_ok_def)
  moreover have "set (b_messages b @ [a]) = {c. \<exists>n. (H(a \<mapsto> m')) c = Some n \<and> started n \<and> getBucket (om_id n) = i}"
    using assms unfolding bucket_ok_def by (auto split: if_splits)
  ultimately show ?thesis using assms(1) unfolding bucket_ok_def by auto
qed

lemma bucket_ok_enter_other:
  assumes "bucket_ok H j b" "H a = Some m" "\<not> started m" "getBucket (om_id m') \<noteq> j"
  shows "bucket_ok (H(a \<mapsto> m')) j b"
  using assms unfolding bucket_ok_def by (auto split: if_splits)

lemma buckets_ok_enter:
  assumes "buckets_ok H B" "H a = Some m" "\<not> started m" "started m'"
  defines "i \<equiv> getBucket (om_id m')"
  shows "buckets_ok (H(a \<mapsto> m')) (B(i := (B i)\<lparr>b_messages := b_messages (B i) @ [a]\<rparr>))"
  unfolding buckets_ok_def
proof
  fix j
  show "bucket_ok (H(a \<mapsto> m')) j ((B(i := (B i)\<lparr>b_messages := b_messages (B i) @ [a]\<rparr>)) j)"
    using bucket_ok_enter [OF buckets_okD [OF assms(1), of i] assms(2-4)]
      bucket_ok_enter_other [OF buckets_okD [OF assms(1), of j] assms(2,3)] by (simp add: i_def)
qed

text \<open>Identifiers are never reused: the new one has the next sequence number.\<close>

lemma heap_ok_enter:
  assumes H: "heap_ok d tid seq H" "H a = Some m" "\<not> started m"
    and m': "msg_ok d tid (seq + 1) a m'" "om_id m' = \<lparr>transportId = tid, sequence = seq\<rparr>"
    and no_wrap: "seq \<noteq> - 1"
  shows "heap_ok d tid (seq + 1) (H(a \<mapsto> m'))"
proof -
  have less: "x < seq \<Longrightarrow> x < seq + 1" for x
    using unat_increment [OF no_wrap] by (simp add: word_less_nat_alt)
  have "msg_ok d tid (seq + 1) b n" if "H b = Some n" for b n
    using heap_ok_msg [OF H(1) that] less by (auto simp: msg_ok_def)
  moreover have "om_id n \<noteq> om_id m'" if "H b = Some n" "started n" for b n
  proof -
    have "sequence (om_id n) < seq" using heap_ok_msg [OF H(1) that(1)] that(2) by (simp add: msg_ok_def)
    then show ?thesis using m'(2) by (metis less_irrefl messageId.select_convs(2))
  qed
  ultimately show ?thesis
    using H m'(1) unfolding heap_ok_def by (auto split: if_splits) metis+
qed

lemma track_buckets:
  assumes "buckets_ok H B" "H a = Some m" "\<not> started m" "started m'" "i = getBucket (om_id m')"
    "b' = (B i)\<lparr>b_messages := b_messages (B i) @ [a],
               messageTimeouts := setTimeout t1 a (messageTimeouts (B i)),
               pingTimeouts := setTimeout t2 a (pingTimeouts (B i))\<rparr>"
  shows "buckets_ok (H(a \<mapsto> m')) (B(i := b'))"
    "buckets_ok (H(a \<mapsto> m')) (B(i := b'\<lparr>messageTimeouts := cancelTimeout a (messageTimeouts b'),
                                       pingTimeouts := cancelTimeout a (pingTimeouts b')\<rparr>))"
proof -
  let ?b1 = "(B i)\<lparr>b_messages := b_messages (B i) @ [a]\<rparr>"
  have e: "buckets_ok (H(a \<mapsto> m')) (B(i := ?b1))"
    using buckets_ok_enter [OF assms(1-4)] assms(5) by simp
  then have "bucket_ok (H(a \<mapsto> m')) i ?b1" using buckets_okD [OF e, of i] by simp
  from bucket_ok_set(1) [OF this, of a t2 t1] have b: "bucket_ok (H(a \<mapsto> m')) i b'"
    using assms(6) by simp
  show "buckets_ok (H(a \<mapsto> m')) (B(i := b'))"
    using buckets_ok_fun_upd [OF e b] by simp
  show "buckets_ok (H(a \<mapsto> m')) (B(i := b'\<lparr>messageTimeouts := cancelTimeout a (messageTimeouts b'),
                                       pingTimeouts := cancelTimeout a (pingTimeouts b')\<rparr>))"
    using buckets_ok_fun_upd [OF e bucket_ok_cancel(1) [OF b]] by simp
qed

text \<open>The message as \<open>sendMessage\<close> leaves it, but for its final state and scheduling data.\<close>

definition prepared ::
  "messageId \<Rightarrow> socketAddress \<Rightarrow> u32 \<Rightarrow> u8 \<Rightarrow> int \<Rightarrow> outMessage \<Rightarrow> outMessage" where
  "prepared msgId destination options version limit m =
     (let m1 = m\<lparr>om_id := msgId, om_destination := destination, om_options := options, om_state := IN_PROGRESS\<rparr>
      in map_packets (\<lambda>j. put_header (encode_data
           (data_header (sa_port (om_source m)) (sa_port destination) version limit m1 j)))
           (map int [0..<nat (om_numPackets m)]) m1)"

lemma om_wf_meta [simp]:
  "om_wf d (m\<lparr>om_id := x\<rparr>) = om_wf d m" "om_wf d (m\<lparr>om_destination := y\<rparr>) = om_wf d m"
  "om_wf d (m\<lparr>om_options := z\<rparr>) = om_wf d m" "om_wf d (m\<lparr>om_state := w\<rparr>) = om_wf d m"
  by (simp_all add: om_wf_def om_layout_def)

lemma om_buffer_meta [simp]:
  "om_buffer d (m\<lparr>om_id := x\<rparr>) = om_buffer d m" "om_buffer d (m\<lparr>om_destination := y\<rparr>) = om_buffer d m"
  "om_buffer d (m\<lparr>om_options := z\<rparr>) = om_buffer d m" "om_buffer d (m\<lparr>om_state := w\<rparr>) = om_buffer d m"
  "om_buffer d (m\<lparr>om_info := q\<rparr>) = om_buffer d m"
  by (simp_all add: om_buffer_def om_byte_def fun_eq_iff)

lemma prepared_fields [simp]:
  "om_id (prepared msgId dst opt v l m) = msgId" "om_destination (prepared msgId dst opt v l m) = dst"
  "om_options (prepared msgId dst opt v l m) = opt" "om_state (prepared msgId dst opt v l m) = IN_PROGRESS"
  "om_numPackets (prepared msgId dst opt v l m) = om_numPackets m"
  "om_messageLength (prepared msgId dst opt v l m) = om_messageLength m"
  "om_held (prepared msgId dst opt v l m) = om_held m" "om_info (prepared msgId dst opt v l m) = om_info m"
  "om_start (prepared msgId dst opt v l m) = om_start m"
  by (simp_all add: prepared_def map_packets_def Let_def)

lemma prepared_ok:
  assumes "driver_ok d" "om_wf d m"
  shows "om_wf d (prepared msgId dst opt v l m)" "om_buffer d (prepared msgId dst opt v l m) = om_buffer d m"
  using map_packets_wf [OF assms(1) header_only_put] map_packets_buffer [OF assms(1) header_only_put] assms(2)
  by (simp_all add: prepared_def Let_def)

text \<open>Every packet of the message carries its header.\<close>

lemma prepared_header:
  assumes "driver_ok d" "om_wf d m" "int j < om_numPackets m"
  shows "\<exists>p q. om_packets m j = Some q \<and> om_packets (prepared msgId dst opt v l m) j = Some p \<and>
    plength p = plength q \<and> decode_data (payload p) =
      DataHeader (sa_port (om_source m)) (sa_port dst) msgId (word_of_int (om_messageLength m)) v
        (word_of_int l) (of_nat j)"
proof -
  obtain q where q: "om_packets m j = Some q" "packet_ok d (chunk d (nat (om_messageLength m)) j) q"
    using getPacket_ok [OF assms(1,2), of "int j"] assms(3) by auto
  have "int j \<in> set (map int [0..<nat (om_numPackets m)])" using assms(3) by auto
  with q packet_ok_room [OF assms(1) q(2)] show ?thesis
    by (simp add: prepared_def Let_def map_packets_def data_header_def put_header_decode)
qed

definition new_info :: "addr \<Rightarrow> messageId \<Rightarrow> socketAddress \<Rightarrow> int \<Rightarrow> int \<Rightarrow> int \<Rightarrow> queuedMessageInfo" where
  "new_info a msgId destination len granted prio =
     \<lparr>qi_id = msgId, qi_destination = destination, qi_packets = Some a, unsentBytes = len,
      packetsGranted = granted, qi_priority = prio, packetsSent = 0\<rparr>"

text \<open>What \<open>sendMessage\<close> computes: one packet goes out at once, more are queued.\<close>

lemma sendMessage_eq:
  fixes dst :: socketAddress and opt :: u32 and tsc :: "nat \<Rightarrow> u64"
  assumes inv: "sender_inv s" and m: "s_heap s a = Some m" "\<not> started m" "om_held m" "0 < om_numPackets m"
  defines "d \<equiv> s_driver s"
  defines "msgId \<equiv> \<lparr>transportId = s_transportId s, sequence = nextMessageSequenceNumber s\<rparr>"
  defines "pol \<equiv> getUnscheduledPolicy (sa_ip dst) (word_of_int (om_messageLength m)) (policyManager s)"
  defines "limit \<equiv> int (packets_for d (unat (RTT_BYTES (policyManager s))))"
  defines "m2 \<equiv> prepared msgId dst opt 0 limit m"
  defines "s2 \<equiv> set_timeouts (getBucket msgId) a (tsc 0) (tsc 1)
    (upd_bucket (getBucket msgId) (\<lambda>b. b\<lparr>b_messages := b_messages b @ [a]\<rparr>)
      (upd_message a (\<lambda>_. m2) (s\<lparr>nextMessageSequenceNumber := nextMessageSequenceNumber s + 1, policyManager := snd pol\<rparr>)))"
  shows "sendMessage tsc a dst opt s =
    (if om_numPackets m = 1 then send_single (getBucket msgId) a (us_priority (fst pol)) s2
     else Inr (enter_sendQueue a (upd_info a (\<lambda>_. new_info a msgId dst (om_messageLength m)
                 (min limit (om_numPackets m)) (us_priority (fst pol))) s2)))"
proof -
  have dok: "driver_ok d" and pok: "policy_ok (policyManager s)" and st: "static_ok d (policyManager s)"
    using inv_parts [OF inv] by (simp_all add: d_def)
  note parts = msg_ok_parts [OF inv_msg [OF inv m(1)] inv_parts(4) [OF inv], folded d_def]
  have f: "fst pol = \<lparr>us_version = 0, unscheduledByteLimit = RTT_BYTES (policyManager s),
     us_priority = us_priority (fst pol)\<rparr>"
    using unscheduled_policy_of_ok [OF pok] by (simp add: pol_def)
  have lim: "packet_limit (RTT_BYTES (policyManager s)) (int (pdl d)) = Inr limit" "0 \<le> limit" "limit < 2 ^ 16"
    using inv_unscheduled_limit [OF st] by (simp_all add: limit_def)
  let ?m1 = "m\<lparr>om_id := msgId, om_destination := dst, om_options := opt, om_state := IN_PROGRESS\<rparr>"
  have wf1: "om_wf d ?m1" using parts(1) by simp
  have fill: "fill_headers (map int [0..<nat (om_numPackets m)]) (sa_port (om_source m)) (sa_port dst) 0 limit 0 ?m1 =
      Inr (om_messageLength m, m2)"
    using fill_headers_eq [OF dok wf1 lim(2,3) all_indices] sum_chunks_message [OF dok wf1]
    by (simp add: m2_def prepared_def Let_def del: map_map)
  have nb: "a \<notin> set (b_messages (messageBuckets s i))" for i
    using inv_bucket [OF inv, of i] m by (auto simp: bucket_ok_def)
  obtain v prio pm where pol: "getUnscheduledPolicy (sa_ip dst) (word_of_int (om_messageLength m)) (policyManager s) =
      (\<lparr>us_version = 0, unscheduledByteLimit = RTT_BYTES (policyManager s), us_priority = prio\<rparr>, pm)"
    "prio = us_priority (fst pol)" "pm = snd pol"
    using f by (simp add: pol_def prod_eq_iff)
  have info: "(\<lambda>m. m\<lparr>om_info := (om_info m)\<lparr>qi_id := msgId, qi_destination := dst, qi_packets := Some a,
      unsentBytes := x, packetsGranted := y, qi_priority := z, packetsSent := 0\<rparr>\<rparr>) =
    (\<lambda>m. m\<lparr>om_info := new_info a msgId dst x y z\<rparr>)" for x y z
    by (simp add: new_info_def fun_eq_iff)
  have nq: "a \<notin> set (sendQueue s)" using inv_queue_iff [OF inv m(1)] m(2) by (simp add: started_def)
  show ?thesis
    using m parts(2,3) lim(1) fill nb nq pol
    by (simp add: sendMessage_def Let_def msgId_def [symmetric] s2_def sender_defs info)
qed

text \<open>A state that differs from \<open>s\<close> by a message that was started.\<close>

lemma inv_enter:
  assumes inv: "sender_inv s" and m: "s_heap s a = Some m" "\<not> started m"
    and m': "msg_ok (s_driver s) (s_transportId s) (nextMessageSequenceNumber s + 1) a m'"
      "om_id m' = \<lparr>transportId = s_transportId s, sequence = nextMessageSequenceNumber s\<rparr>"
    and no_wrap: "nextMessageSequenceNumber s \<noteq> - 1"
    and s': "s_heap s' = (s_heap s)(a \<mapsto> m')" "nextMessageSequenceNumber s' = nextMessageSequenceNumber s + 1"
      "s_driver s' = s_driver s" "s_transportId s' = s_transportId s" "messageAllocator s' = messageAllocator s"
      "sending s' = sending s"
    and B: "buckets_ok ((s_heap s)(a \<mapsto> m')) (messageBuckets s')"
    and Q: "queue_ok ((s_heap s)(a \<mapsto> m')) (sendQueue s')"
    and pm: "static_ok (s_driver s) (policyManager s')"
  shows "sender_inv s'"
proof -
  have "insert a (dom (s_heap s)) = dom (s_heap s)" using m by auto
  moreover have "heap_ok (s_driver s) (s_transportId s) (nextMessageSequenceNumber s) (s_heap s)"
    using inv by (simp add: sender_inv_def)
  from heap_ok_enter [OF this m m' no_wrap]
  have "heap_ok (s_driver s) (s_transportId s) (nextMessageSequenceNumber s + 1) ((s_heap s)(a \<mapsto> m'))" .
  ultimately show ?thesis
    using inv s' B Q pm by (simp add: sender_inv_def)
qed

lemma static_ok_policy:
  "static_ok d pm \<Longrightarrow> static_ok d (snd (getUnscheduledPolicy ip len pm))"
  using policy_ok_unscheduled by (simp add: static_ok_def)

theorem sendMessage_ok:
  assumes inv: "sender_inv s" and m: "s_heap s a = Some m" "\<not> started m" "om_held m" "0 < om_numPackets m"
    and no_wrap: "nextMessageSequenceNumber s \<noteq> - 1"
  shows "\<exists>s' m'. sendMessage tsc a dst opt s = Inr s' \<and> sender_inv s' \<and> s_heap s' = (s_heap s)(a \<mapsto> m') \<and>
    om_state m' = (if om_numPackets m = 1 then SENT else IN_PROGRESS) \<and>
    om_contents (s_driver s) m' = om_contents (s_driver s) m \<and>
    m' = (prepared \<lparr>transportId = s_transportId s, sequence = nextMessageSequenceNumber s\<rparr> dst opt 0
             (int (packets_for (s_driver s) (unat (RTT_BYTES (policyManager s))))) m)
           \<lparr>om_state := if om_numPackets m = 1 then SENT else IN_PROGRESS, om_info := om_info m'\<rparr> \<and>
    (om_numPackets m \<noteq> 1 \<longrightarrow> om_info m' = new_info a \<lparr>transportId = s_transportId s, sequence = nextMessageSequenceNumber s\<rparr> dst
       (om_messageLength m) (min (int (packets_for (s_driver s) (unat (RTT_BYTES (policyManager s))))) (om_numPackets m))
       (us_priority (fst (getUnscheduledPolicy (sa_ip dst) (word_of_int (om_messageLength m)) (policyManager s)))))"
proof -
  define d where "d = s_driver s"
  define msgId where "msgId = \<lparr>transportId = s_transportId s, sequence = nextMessageSequenceNumber s\<rparr>"
  define pol where "pol = getUnscheduledPolicy (sa_ip dst) (word_of_int (om_messageLength m)) (policyManager s)"
  define limit where "limit = int (packets_for d (unat (RTT_BYTES (policyManager s))))"
  define m2 where "m2 = prepared msgId dst opt 0 limit m"
  define i where "i = getBucket msgId"
  define s2 where "s2 = set_timeouts i a (tsc 0) (tsc 1) (upd_bucket i (\<lambda>b. b\<lparr>b_messages := b_messages b @ [a]\<rparr>)
      (upd_message a (\<lambda>_. m2) (s\<lparr>nextMessageSequenceNumber := nextMessageSequenceNumber s + 1, policyManager := snd pol\<rparr>)))"
  have eq: "sendMessage tsc a dst opt s =
    (if om_numPackets m = 1 then send_single i a (us_priority (fst pol)) s2
     else Inr (enter_sendQueue a (upd_info a (\<lambda>_. new_info a msgId dst (om_messageLength m)
                 (min limit (om_numPackets m)) (us_priority (fst pol))) s2)))"
    using sendMessage_eq [OF inv m, of tsc dst opt]
    by (simp only: d_def msgId_def pol_def limit_def m2_def i_def s2_def)
  have dok: "driver_ok d" using inv_parts(4) [OF inv] by (simp add: d_def)
  have wf: "om_wf d m" using inv_msg [OF inv m(1)] by (simp add: msg_ok_def d_def)
  then have ml: "0 \<le> om_messageLength m" by (simp add: om_wf_def)
  have m2: "om_wf d m2" "om_buffer d m2 = om_buffer d m" "om_start m2 = om_start m"
    using prepared_ok [OF dok wf] by (simp_all add: m2_def)
  have seq: "nextMessageSequenceNumber s < nextMessageSequenceNumber s + 1"
    using unat_increment [OF no_wrap] by (simp add: word_less_nat_alt)
  have q: "a \<notin> set (sendQueue s)" using inv_queue_iff [OF inv m(1)] m(2) by (simp add: started_def)
  have pm: "static_ok (s_driver s) (snd pol)"
    using static_ok_policy [OF inv_parts(1) [OF inv]] by (simp add: pol_def)
  have h2: "s_heap s2 = (s_heap s)(a \<mapsto> m2)" "s_driver s2 = d"
    using m(1) by (simp_all add: s2_def sender_defs d_def)
  have bk: "om_id m' = msgId \<Longrightarrow> started m' \<Longrightarrow> buckets_ok ((s_heap s)(a \<mapsto> m')) (messageBuckets s2) \<and>
      buckets_ok ((s_heap s)(a \<mapsto> m')) (messageBuckets (cancel_timeouts i a s2))" for m'
    using track_buckets [OF inv_parts(2) [OF inv] m(1,2), of m' i, OF _ _ refl, of "tsc 1" "tsc 0"]
    by (simp add: s2_def sender_defs i_def)
  have "\<exists>s' m'. sendMessage tsc a dst opt s = Inr s' \<and> sender_inv s' \<and> s_heap s' = (s_heap s)(a \<mapsto> m') \<and>
      om_state m' = (if om_numPackets m = 1 then SENT else IN_PROGRESS) \<and> om_contents d m' = om_contents d m \<and>
      m' = m2\<lparr>om_state := if om_numPackets m = 1 then SENT else IN_PROGRESS, om_info := om_info m'\<rparr> \<and>
      (om_numPackets m \<noteq> 1 \<longrightarrow> om_info m' = new_info a msgId dst (om_messageLength m) (min limit (om_numPackets m)) (us_priority (fst pol)))"
  proof (cases "om_numPackets m = 1")
    case True
    obtain es where es: "send_single i a (us_priority (fst pol)) s2 = Inr
      (if has_option (om_options m2) NO_KEEP_ALIVE then cancel_timeouts i a (set_state a SENT (emit es s2))
       else set_state a SENT (emit es s2))"
      using send_single_ok [of s2 a m2 i] dok m2(1) h2 True m(3) by (auto simp: m2_def)
    let ?m = "m2\<lparr>om_state := SENT\<rparr>"
    have "msg_ok (s_driver s) (s_transportId s) (nextMessageSequenceNumber s + 1) a ?m"
      using m2(1) seq True m(3) by (simp add: msg_ok_def started_def m2_def msgId_def d_def)
    moreover have "om_id ?m = \<lparr>transportId = s_transportId s, sequence = nextMessageSequenceNumber s\<rparr>"
      by (simp add: m2_def msgId_def)
    moreover have "queue_ok ((s_heap s)(a \<mapsto> ?m)) (sendQueue s)"
      using queue_ok_other(1) [OF inv_parts(3) [OF inv] q, of ?m] by simp
    ultimately have "sender_inv s'" if "s_heap s' = (s_heap s)(a \<mapsto> ?m)" "same_static s2 s'"
      "messageBuckets s' = messageBuckets s2 \<or> messageBuckets s' = messageBuckets (cancel_timeouts i a s2)"
      "sendQueue s' = sendQueue s2" "policyManager s' = snd pol" for s'
      using inv_enter [OF inv m(1,2) _ _ no_wrap, of ?m s'] that pm bk [of ?m]
      by (auto simp: same_static_def s2_def sender_defs m2_def started_def)
    moreover have "om_contents d ?m = om_contents d m"
      using m2 by (simp add: om_contents_def)
    moreover have "?m = m2\<lparr>om_state := SENT, om_info := om_info ?m\<rparr>" by simp
    ultimately show ?thesis
      using eq es True h2
      by (auto simp: sender_defs same_static_def d_def s2_def split: if_splits intro!: exI [of _ ?m])
  next
    case False
    let ?info = "new_info a msgId dst (om_messageLength m) (min limit (om_numPackets m)) (us_priority (fst pol))"
    let ?m = "m2\<lparr>om_info := ?info\<rparr>"
    let ?s3 = "upd_info a (\<lambda>_. ?info) s2"
    have h3: "s_heap ?s3 = (s_heap s)(a \<mapsto> ?m)" "sendQueue ?s3 = sendQueue s"
      using h2 m(1) by (simp_all add: sender_defs s2_def)
    have "msg_ok (s_driver s) (s_transportId s) (nextMessageSequenceNumber s + 1) a ?m"
      using m2(1) seq False m(3,4) ml
      by (simp add: msg_ok_def started_def info_ok_def m2_def msgId_def d_def new_info_def limit_def)
    moreover have "om_id ?m = \<lparr>transportId = s_transportId s, sequence = nextMessageSequenceNumber s\<rparr>"
      by (simp add: m2_def msgId_def)
    moreover have "queue_ok ((s_heap s)(a \<mapsto> ?m)) (sendQueue (enter_sendQueue a ?s3))"
      using queue_ok_enter [OF inv_parts(3) [OF inv] q, of ?m]
      by (simp add: enter_sendQueue_def ComparePriority_key h3 m2_def del: key_of_upd)
    ultimately have "sender_inv (enter_sendQueue a ?s3)"
      using inv_enter [OF inv m(1,2) _ _ no_wrap, of ?m "enter_sendQueue a ?s3"] pm bk [of ?m] h3
      by (simp add: enter_sendQueue_def s2_def sender_defs m2_def started_def)
    moreover have "om_contents d ?m = om_contents d m"
      using m2 by (simp add: om_contents_def)
    moreover have "om_state m2 = IN_PROGRESS" by (simp add: m2_def)
    moreover have "?m = m2\<lparr>om_state := IN_PROGRESS, om_info := om_info ?m\<rparr>" using calculation(3) by simp
    ultimately show ?thesis
      using eq False h3 by (auto simp: enter_sendQueue_def d_def intro!: exI [of _ ?m])
  qed
  then show ?thesis by (simp add: m2_def msgId_def limit_def d_def pol_def)
qed

section \<open>UNKNOWN\<close>

lemma leave_sendQueue_ok:
  assumes inv: "sender_inv s" and m: "s_heap s a = Some m"
  shows "leave_sendQueue a m s = Inr (s\<lparr>sendQueue := remove1 a (sendQueue s)\<rparr>)"
proof -
  have d: "distinct (sendQueue s)" using inv_parts(3) [OF inv] by (simp add: queue_ok_def)
  have iff: "a \<in> set (sendQueue s) \<longleftrightarrow> om_state m = IN_PROGRESS" using inv_queue_iff [OF inv m] .
  show ?thesis
  proof (cases "om_state m = IN_PROGRESS")
    case True
    then have "1 < om_numPackets m" using inv_msg [OF inv m] by (simp add: msg_ok_def)
    with True iff d show ?thesis by (simp add: leave_sendQueue_def)
  next
    case False
    with iff have "remove1 a (sendQueue s) = sendQueue s" by (simp add: remove1_idem)
    with False iff show ?thesis by (simp add: leave_sendQueue_def)
  qed
qed

lemma queue_ok_reenter:
  assumes "queue_ok H q" "H a = Some m" "om_state m' = IN_PROGRESS"
  shows "queue_ok (H(a \<mapsto> m'))
    (deprioritize_seq (\<lambda>b c. key_of (H(a \<mapsto> m')) b < key_of (H(a \<mapsto> m')) c) a (a # remove1 a q))"
proof -
  let ?t = "m\<lparr>om_state := FAILED\<rparr>"
  have "queue_ok (H(a \<mapsto> ?t)) (remove1 a q)"
    using queue_ok_leave [OF assms(1,2), of ?t] by simp
  moreover have "a \<notin> set (remove1 a q)"
    using assms(1) by (simp add: queue_ok_def)
  ultimately show ?thesis
    using queue_ok_enter [of "H(a \<mapsto> ?t)" "remove1 a q" a m'] assms(3) by simp
qed

lemma bucket_set_cancel:
  assumes "bucket_ok H i b" "a \<in> set (b_messages b)"
  shows "bucket_ok H i (b\<lparr>messageTimeouts := cancelTimeout a (setTimeout t1 a (messageTimeouts b)),
                          pingTimeouts := cancelTimeout a (setTimeout t2 a (pingTimeouts b))\<rparr>)"
  using bucket_ok_cancel(1) [OF bucket_ok_set(1) [OF assms, of t2 t1], of a] by simp

text \<open>The message with the current policy in its headers.\<close>

definition restarted :: "int \<Rightarrow> outMessage \<Rightarrow> outMessage" where
  "restarted limit m =
     map_packets (\<lambda>_. update_policy_header 0 (word_of_int limit)) (map int [0..<nat (om_numPackets m)])
       (m\<lparr>om_state := IN_PROGRESS\<rparr>)"

lemma restarted_fields [simp]:
  "om_id (restarted l m) = om_id m" "om_destination (restarted l m) = om_destination m"
  "om_options (restarted l m) = om_options m" "om_state (restarted l m) = IN_PROGRESS"
  "om_numPackets (restarted l m) = om_numPackets m" "om_messageLength (restarted l m) = om_messageLength m"
  "om_held (restarted l m) = om_held m" "om_info (restarted l m) = om_info m"
  "om_start (restarted l m) = om_start m"
  by (simp_all add: restarted_def map_packets_def)

lemma restarted_ok:
  assumes "driver_ok d" "om_wf d m"
  shows "om_wf d (restarted l m)" "om_buffer d (restarted l m) = om_buffer d m"
  using map_packets_wf [OF assms(1) header_only_policy] map_packets_buffer [OF assms(1) header_only_policy] assms(2)
  by (simp_all add: restarted_def)

lemma handleUnknown_restart:
  fixes t1 t2 :: u64
  assumes inv: "sender_inv s" and m: "s_heap s a = Some m" "om_state m = IN_PROGRESS \<or> om_state m = SENT"
    "a \<in> set (b_messages (messageBuckets s (getBucket (om_id m))))"
  defines "d \<equiv> s_driver s" and "i \<equiv> getBucket (om_id m)"
    and "pol \<equiv> getUnscheduledPolicy (sa_ip (om_destination m)) (word_of_int (om_messageLength m)) (policyManager s)"
    and "limit \<equiv> int (packets_for (s_driver s) (unat (RTT_BYTES (policyManager s))))"
    and "s3 \<equiv> set_timeouts (getBucket (om_id m)) a t1 t2
      (upd_message a (\<lambda>_. restarted (int (packets_for (s_driver s) (unat (RTT_BYTES (policyManager s))))) m)
        (s\<lparr>sendQueue := remove1 a (sendQueue s), policyManager := snd (getUnscheduledPolicy (sa_ip (om_destination m))
            (word_of_int (om_messageLength m)) (policyManager s))\<rparr>))"
  shows "om_numPackets m = 1 \<Longrightarrow> \<exists>s4. send_single i a prio s3 = Inr s4 \<and> sender_inv s4"
    and "om_numPackets m \<noteq> 1 \<Longrightarrow> sender_inv (enter_sendQueue a (upd_info a
          (\<lambda>q. q\<lparr>unsentBytes := om_messageLength m, packetsGranted := min limit (om_numPackets m),
                 qi_priority := prio, packetsSent := 0\<rparr>) s3))"
proof -
  have dok: "driver_ok d" using inv_parts(4) [OF inv] by (simp add: d_def)
  have mok: "msg_ok (s_driver s) (s_transportId s) (nextMessageSequenceNumber s) a m" using inv_msg [OF inv m(1)] .
  have st: "started m" using m(2) by (auto simp: started_def)
  have wf: "om_wf d m" "0 \<le> om_messageLength m" using mok by (simp_all add: msg_ok_def d_def om_wf_def)
  have r: "om_wf d (restarted limit m)" using restarted_ok [OF dok wf(1)] by simp
  have pm: "static_ok (s_driver s) (snd pol)" using static_ok_policy [OF inv_parts(1) [OF inv]] by (simp add: pol_def)
  have h3: "s_heap s3 = (s_heap s)(a \<mapsto> restarted limit m)" "s_driver s3 = d" "sendQueue s3 = remove1 a (sendQueue s)"
    "policyManager s3 = snd pol" "same_static s s3"
    using m(1) by (simp_all add: s3_def sender_defs d_def limit_def pol_def same_static_def)
  have bk: "buckets_ok (s_heap s) (messageBuckets s3)" "buckets_ok (s_heap s) (messageBuckets (cancel_timeouts i a s3))"
    using buckets_ok_fun_upd [OF inv_parts(2) [OF inv] bucket_ok_set(1) [OF inv_bucket [OF inv] m(3), of t2 t1]]
      buckets_ok_fun_upd [OF inv_parts(2) [OF inv] bucket_set_cancel [OF inv_bucket [OF inv] m(3), of t2 t1]]
    by (simp_all add: s3_def i_def sender_defs)
  show "\<exists>s4. send_single i a prio s3 = Inr s4 \<and> sender_inv s4" if one: "om_numPackets m = 1"
  proof -
    have held: "om_held m" using mok one by (auto simp: msg_ok_def)
    obtain es where es: "send_single i a prio s3 = Inr
      (if has_option (om_options (restarted limit m)) NO_KEEP_ALIVE then cancel_timeouts i a (set_state a SENT (emit es s3))
       else set_state a SENT (emit es s3))"
      using send_single_ok [of s3 a "restarted limit m" i prio] dok r h3(1,2) one held by auto
    let ?m = "(restarted limit m)\<lparr>om_state := SENT\<rparr>"
    have "msg_ok (s_driver s) (s_transportId s) (nextMessageSequenceNumber s) a ?m"
      using mok st r one held by (simp add: msg_ok_def started_def d_def)
    moreover have "queue_ok ((s_heap s)(a \<mapsto> ?m)) (remove1 a (sendQueue s))"
      using queue_ok_leave [OF inv_parts(3) [OF inv] m(1), of ?m] by simp
    ultimately have "sender_inv s4" if "s_heap s4 = (s_heap s)(a \<mapsto> ?m)" "same_static s3 s4"
      "messageBuckets s4 = messageBuckets s3 \<or> messageBuckets s4 = messageBuckets (cancel_timeouts i a s3)"
      "sendQueue s4 = sendQueue s3" "policyManager s4 = policyManager s3" for s4
      using inv_change [OF inv m(1), of s4 ?m] that h3 bk pm st by (auto simp: same_static_def started_def)
    then show ?thesis
      using es h3(1) by (auto simp: sender_defs same_static_def)
  qed
  show "sender_inv (enter_sendQueue a (upd_info a
          (\<lambda>q. q\<lparr>unsentBytes := om_messageLength m, packetsGranted := min limit (om_numPackets m),
                 qi_priority := prio, packetsSent := 0\<rparr>) s3))" (is "sender_inv (enter_sendQueue a ?s4)")
    if many: "om_numPackets m \<noteq> 1"
  proof -
    have n: "1 < om_numPackets m" using mok st many by (simp add: msg_ok_def)
    let ?m = "(restarted limit m)\<lparr>om_info := (om_info m)\<lparr>unsentBytes := om_messageLength m,
      packetsGranted := min limit (om_numPackets m), qi_priority := prio, packetsSent := 0\<rparr>\<rparr>"
    have h4: "s_heap ?s4 = (s_heap s)(a \<mapsto> ?m)" "sendQueue ?s4 = remove1 a (sendQueue s)"
      using h3 by (simp_all add: sender_defs)
    show ?thesis
    proof (rule inv_change [OF inv m(1), where m' = ?m])
      show "msg_ok (s_driver s) (s_transportId s) (nextMessageSequenceNumber s) a ?m"
        using mok st r n wf(2) by (simp add: msg_ok_def started_def info_ok_def d_def limit_def)
      show "queue_ok ((s_heap s)(a \<mapsto> ?m)) (sendQueue (enter_sendQueue a ?s4))"
        using queue_ok_reenter [OF inv_parts(3) [OF inv] m(1), of ?m]
        by (simp add: enter_sendQueue_def ComparePriority_key h4 del: key_of_upd)
    qed (use h3 h4 bk pm st in \<open>simp_all add: enter_sendQueue_def same_static_def started_def sender_defs\<close>)
  qed
qed

theorem handleUnknownPacket_ok:
  assumes inv: "sender_inv s"
  shows "\<exists>s'. handleUnknownPacket tsc packet s = Inr s' \<and> sender_inv s'"
  using inv
proof (cases rule: findMessage_cases [where msgId = "hmessageId (decode_common (payload packet))"])
  case absent
  then show ?thesis using inv by (simp add: handleUnknownPacket_def Let_def)
next
  case (present a m)
  have mok: "msg_ok (s_driver s) (s_transportId s) (nextMessageSequenceNumber s) a m" using inv_msg [OF inv present(2)] .
  note parts = msg_ok_parts [OF mok inv_parts(4) [OF inv]]
  have ns: "getStatus m \<noteq> NOT_STARTED" using present(3) by (simp add: getStatus_def started_def)
  note leave = leave_sendQueue_ok [OF inv present(2)]
  show ?thesis
  proof (cases "(om_state m = IN_PROGRESS \<or> om_state m = SENT) \<and> \<not> has_option (om_options m) NO_RETRY")
    case False
    have "sender_inv (set_state a FAILED (cancel_timeouts i a (s\<lparr>sendQueue := remove1 a (sendQueue s)\<rparr>)))" for i
      using inv_end_message [OF inv_cancel_timeouts [OF inv, of i a], of a m FAILED] present(2,3)
      by (simp add: sender_defs sender_inv_def)
    with False present ns inv leave show ?thesis
      by (auto simp: handleUnknownPacket_def Let_def getStatus_def)
  next
    case True
    let ?pol = "getUnscheduledPolicy (sa_ip (om_destination m)) (word_of_int (om_messageLength m)) (policyManager s)"
    let ?limit = "int (packets_for (s_driver s) (unat (RTT_BYTES (policyManager s))))"
    have in_b: "a \<in> set (b_messages (messageBuckets s (getBucket (om_id m))))" using present(4,5) by simp
    obtain prio pm where pol: "?pol = (\<lparr>us_version = 0, unscheduledByteLimit = RTT_BYTES (policyManager s),
        us_priority = prio\<rparr>, pm)" "pm = snd ?pol"
      using unscheduled_policy_of_ok [OF inv_parts(5) [OF inv]] by (metis prod.collapse)
    note lim = inv_unscheduled_limit [OF inv_parts(1) [OF inv]]
    have wf: "om_wf (s_driver s) (m\<lparr>om_state := IN_PROGRESS\<rparr>)" using parts(1) by simp
    have upd: "update_headers (map int [0..<nat (om_numPackets m)]) 0 ?limit (m\<lparr>om_state := IN_PROGRESS\<rparr>) =
        Inr (restarted ?limit m)"
      using update_headers_eq [OF inv_parts(4) [OF inv] wf _ _ all_indices, of ?limit 0] lim(2)
      by (simp add: restarted_def)
    have np: "0 < om_numPackets m" using mok present(3) by (simp add: msg_ok_def)
    have info: "1 < om_numPackets m \<Longrightarrow> info_ok (s_driver s) a m" using mok present(3) by (simp add: msg_ok_def)
    have eq: "upd_message a (\<lambda>_. restarted ?limit m) ((set_state a IN_PROGRESS (s\<lparr>sendQueue := remove1 a (sendQueue s)\<rparr>))
        \<lparr>policyManager := pm\<rparr>) = upd_message a (\<lambda>_. restarted ?limit m)
        (s\<lparr>sendQueue := remove1 a (sendQueue s), policyManager := snd ?pol\<rparr>)"
      using present(2) pol(2) by (simp add: sender_defs)
    note fin = handleUnknown_restart [OF inv present(2) _ in_b, where ?t1.0 = "tsc 0" and ?t2.0 = "tsc 1" and prio = prio]
    show ?thesis
    proof (cases "om_numPackets m = 1")
      case one: True
      with True present ns leave pol(1) lim(1) parts(2) upd np eq fin(1)
      show ?thesis
        by (auto simp: handleUnknownPacket_def Let_def getStatus_def)
    next
      case many: False
      with np have "1 < om_numPackets m" by simp
      from info [OF this] True many present ns leave pol(1) lim(1) parts(2) upd np eq fin(2)
      show ?thesis
        by (auto simp: handleUnknownPacket_def Let_def getStatus_def info_ok_def)
    qed
  qed
qed

end
