(* ===== verification/Sender_TrySend.thy ===== *)
theory Sender_TrySend
  imports Sender_Send
begin

text \<open>
  The send loop: \<open>trySend\<close> terminates within the fuel its definition computes, keeps the
  invariant and the order of the send queue, sends a message's packets in order and never
  beyond what is granted; and what may go wrong when another thread handles a packet between
  the two halves of \<open>trySend\<close>.
\<close>

section \<open>One packet\<close>

lemma inv_sending [simp]: "sender_inv (s\<lparr>sending := b\<rparr>) = sender_inv s"
  by (simp add: sender_inv_def)

text \<open>The message after its next packet was handed to the driver.\<close>

definition sent_one :: "driver \<Rightarrow> outMessage \<Rightarrow> outMessage" where
  "sent_one d m =
     m\<lparr>om_info := (om_info m)
        \<lparr>unsentBytes := unsentBytes (om_info m) -
             int (chunk d (nat (om_messageLength m)) (nat (packetsSent (om_info m)))),
         packetsSent := packetsSent (om_info m) + 1\<rparr>\<rparr>"

lemma sent_one_fields [simp]:
  "om_id (sent_one d m) = om_id m" "om_state (sent_one d m) = om_state m"
  "om_numPackets (sent_one d m) = om_numPackets m" "om_packets (sent_one d m) = om_packets m"
  "om_messageLength (sent_one d m) = om_messageLength m" "om_held (sent_one d m) = om_held m"
  "om_destination (sent_one d m) = om_destination m" "started (sent_one d m) = started m"
  "packetsSent (om_info (sent_one d m)) = packetsSent (om_info m) + 1"
  "packetsGranted (om_info (sent_one d m)) = packetsGranted (om_info m)"
  "qi_priority (om_info (sent_one d m)) = qi_priority (om_info m)"
  "qi_packets (om_info (sent_one d m)) = qi_packets (om_info m)"
  "qi_id (om_info (sent_one d m)) = qi_id (om_info m)"
  by (simp_all add: sent_one_def started_def)

lemma chunk_unsent:
  assumes "0 < pdl d" "k * pdl d < len"
  shows "int len - min (int len) (int k * int (pdl d)) = int len - int k * int (pdl d)"
    "int (chunk d len k) \<le> int len - int k * int (pdl d)" "0 < chunk d len k"
    "int len - int k * int (pdl d) - int (chunk d len k) = int len - min (int len) ((int k + 1) * int (pdl d))"
proof -
  have "int (k * pdl d) < int len" using assms(2) by (simp only: of_nat_less_iff)
  then have k: "int k * int (pdl d) < int len" by simp
  show "int len - min (int len) (int k * int (pdl d)) = int len - int k * int (pdl d)"
    using k by simp
  have c: "int (chunk d len k) = min (int (pdl d)) (int len - int k * int (pdl d))"
    using assms(2) by (simp add: chunk_def of_nat_min of_nat_diff)
  show "int (chunk d len k) \<le> int len - int k * int (pdl d)" unfolding c by simp
  show "0 < chunk d len k" using assms by (simp add: chunk_def)
  show "int len - int k * int (pdl d) - int (chunk d len k) = int len - min (int len) ((int k + 1) * int (pdl d))"
    unfolding c by (simp add: min_def algebra_simps)
qed

lemma sent_one_ok:
  assumes m: "msg_ok d tid seq a m" "driver_ok d" "om_state m = IN_PROGRESS"
    "packetsSent (om_info m) < packetsGranted (om_info m)"
  obtains p where "getPacket (packetsSent (om_info m)) m = Inr (Some p)"
    "om_packets m (nat (packetsSent (om_info m))) = Some p"
    "plength p = int sizeof_DataHeader + int (chunk d (nat (om_messageLength m)) (nat (packetsSent (om_info m))))"
    "int (chunk d (nat (om_messageLength m)) (nat (packetsSent (om_info m)))) \<le> unsentBytes (om_info m)"
    "msg_ok d tid seq a (sent_one d m)" "unsentBytes (om_info (sent_one d m)) < unsentBytes (om_info m)"
proof -
  have st: "started m" and n: "1 < om_numPackets m" and wf: "om_wf d m" using m(1,3) by (auto simp: msg_ok_def started_def)
  then have info: "info_ok d a m" using m(1) by (simp add: msg_ok_def)
  note parts = msg_ok_parts [OF m(1,2)]
  let ?k = "nat (packetsSent (om_info m))" and ?len = "nat (om_messageLength m)"
  have k: "packetsSent (om_info m) = int ?k" "0 \<le> packetsSent (om_info m)" using info by (simp_all add: info_ok_def)
  have lt: "packetsSent (om_info m) < om_numPackets m" using m(4) info by (simp add: info_ok_def)
  have len: "om_messageLength m = int ?len" using wf by (simp add: om_wf_def)
  have "?k < packets_for d ?len" using lt parts(4) k by linarith
  then have kl: "?k * pdl d < ?len" using packets_for_iff [OF parts(5)] by simp
  note c = chunk_unsent [OF parts(5) kl]
  have un: "unsentBytes (om_info m) = int ?len - int ?k * int (pdl d)"
    using info k len c(1) by (simp add: info_ok_def)
  have un': "unsentBytes (om_info (sent_one d m)) = int ?len - min (int ?len) ((int ?k + 1) * int (pdl d))"
    using un c(4) by (simp add: sent_one_def)
  obtain p where p: "getPacket (packetsSent (om_info m)) m = Inr (Some p)" "om_packets m ?k = Some p"
    "packet_ok d (chunk d ?len ?k) p"
    using getPacket_ok [OF m(2) wf k(2) lt] by metis
  have "om_wf d (sent_one d m)" using wf by (simp add: sent_one_def)
  moreover have "info_ok d a (sent_one d m)"
    using info m(4) un' len k by (simp add: info_ok_def sent_one_def)
  ultimately have "msg_ok d tid seq a (sent_one d m)"
    using m(1) by (simp add: msg_ok_def)
  moreover have "unsentBytes (om_info (sent_one d m)) < unsentBytes (om_info m)"
    using c(3) by (simp add: sent_one_def)
  ultimately show ?thesis
    using that p c(2) un by (simp add: packet_ok_def)
qed

lemma prioritize_key_cong:
  "(\<And>b. key_of H b = key_of H' b) \<Longrightarrow>
   prioritize_seq (\<lambda>b c. key_of H b < key_of H c) a q = prioritize_seq (\<lambda>b c. key_of H' b < key_of H' c) a q"
  by simp

section \<open>One message\<close>

text \<open>The sender after one packet of the message at \<open>a\<close>.\<close>

definition after_packet :: "addr \<Rightarrow> outMessage \<Rightarrow> packet \<Rightarrow> sender \<Rightarrow> sender" where
  "after_packet a m p s =
     (let H = (s_heap s)(a \<mapsto> sent_one (s_driver s) m)
      in s\<lparr>s_heap := H, sendQueue := prioritize_seq (\<lambda>b c. key_of H b < key_of H c) a (sendQueue s),
           s_events := s_events s @ [PerfAdd tx_data_pkts 1, PerfAdd tx_bytes (word_of_int (plength p)),
             SendPacket p (sa_ip (om_destination m)) (qi_priority (om_info m))]\<rparr>)"

lemma after_packet_inv:
  assumes inv: "sender_inv s" and m: "s_heap s a = Some m" "om_state m = IN_PROGRESS"
    "packetsSent (om_info m) < packetsGranted (om_info m)"
  shows "sender_inv (after_packet a m p s)"
proof -
  obtain ok: "msg_ok (s_driver s) (s_transportId s) (nextMessageSequenceNumber s) a (sent_one (s_driver s) m)"
    and less: "unsentBytes (om_info (sent_one (s_driver s) m)) < unsentBytes (om_info m)"
    using sent_one_ok [OF inv_msg [OF inv m(1)] inv_parts(4) [OF inv] m(2,3)] by metis
  show ?thesis
  proof (rule inv_change [OF inv m(1) _ _ ok])
    show "queue_ok ((s_heap s)(a \<mapsto> sent_one (s_driver s) m)) (sendQueue (after_packet a m p s))"
      using queue_ok_advance [OF inv_parts(3) [OF inv] m(1,2), of "sent_one (s_driver s) m"] m(2) less
      by (simp add: after_packet_def Let_def del: key_of_upd)
  qed (use inv_parts [OF inv] in \<open>simp_all add: after_packet_def Let_def same_static_def\<close>)
qed

lemma send_granted_step:
  assumes inv: "sender_inv s" and m: "s_heap s a = Some m" "om_state m = IN_PROGRESS"
    "packetsSent (om_info m) < packetsGranted (om_info m)"
  obtains p where "om_packets m (nat (packetsSent (om_info m))) = Some p"
    "send_granted (Suc fuel) a est idle s =
      (let est' = est + word_of_int (plength p)
       in if est' > DRIVER_QUEUED_BYTE_LIMIT s then Inr (est', False, s)
          else send_granted fuel a est' False (after_packet a m p s))"
proof -
  let ?d = "s_driver s"
  have st: "started m" "1 < om_numPackets m"
    using m(2) inv_msg [OF inv m(1)] by (auto simp: msg_ok_def started_def)
  have dr: "deref_pointer (qi_packets (om_info m)) s = Inr m"
    using deref_packets [OF inv m(1) st] by simp
  have h: "om_TRANSPORT_HEADER_LENGTH m = int sizeof_DataHeader"
    using msg_ok_parts(3) [OF inv_msg [OF inv m(1)] inv_parts(4) [OF inv]] .
  obtain p where p: "getPacket (packetsSent (om_info m)) m = Inr (Some p)"
    "om_packets m (nat (packetsSent (om_info m))) = Some p"
    "plength p = int sizeof_DataHeader + int (chunk ?d (nat (om_messageLength m)) (nat (packetsSent (om_info m))))"
    "int (chunk ?d (nat (om_messageLength m)) (nat (packetsSent (om_info m)))) \<le> unsentBytes (om_info m)"
    using sent_one_ok [OF inv_msg [OF inv m(1)] inv_parts(4) [OF inv] m(2,3)] by metis
  let ?c = "int (chunk ?d (nat (om_messageLength m)) (nat (packetsSent (om_info m))))"
  define s1 where "s1 = emit [PerfAdd tx_data_pkts 1, PerfAdd tx_bytes (word_of_int (plength p)),
    SendPacket p (sa_ip (om_destination m)) (qi_priority (om_info m))] s"
  define s2 where "s2 = upd_info a (\<lambda>q. q\<lparr>unsentBytes := unsentBytes q - (plength p - om_TRANSPORT_HEADER_LENGTH m)\<rparr>) s1"
  define s3 where "s3 = s2\<lparr>sendQueue := prioritize_seq (ComparePriority s2) a (sendQueue s2)\<rparr>"
  have key: "key_of (s_heap s2) b = key_of ((s_heap s)(a \<mapsto> sent_one ?d m)) b" for b
    using m(1) p(3) h by (simp add: s2_def s1_def sender_defs sent_one_def key_of_def)
  have s4: "upd_info a (\<lambda>q. q\<lparr>packetsSent := packetsSent q + 1\<rparr>) s3 = after_packet a m p s"
    using m(1) p(3) h prioritize_key_cong [of "s_heap s2" "(s_heap s)(a \<mapsto> sent_one ?d m)" a "sendQueue s", OF key]
    by (simp add: s3_def s2_def s1_def ComparePriority_key after_packet_def Let_def sender_defs sent_one_def del: key_of_upd)
  have a1: "unsentBytes (om_info m) \<ge> plength p - om_TRANSPORT_HEADER_LENGTH m"
    using p(3,4) h by simp
  have q: "a \<in> set (sendQueue s)" using inv_queue_iff [OF inv m(1)] m(2) by simp
  have eq: "send_granted (Suc fuel) a est idle s =
      (let est' = est + word_of_int (plength p)
       in if est' > DRIVER_QUEUED_BYTE_LIMIT s then Inr (est', False, s)
          else send_granted fuel a est' False (upd_info a (\<lambda>q. q\<lparr>packetsSent := packetsSent q + 1\<rparr>) s3))"
    using m dr p(1) a1 q by (subst send_granted.simps) (simp add: Let_def s1_def s2_def s3_def)
  show ?thesis by (rule that [OF p(2) eq [unfolded s4]])
qed

text \<open>What the inner loop does to the message at \<open>a\<close> and to nothing else: \<open>moved\<close> relates the
  states before and after.\<close>

definition moved :: "addr \<Rightarrow> outMessage \<Rightarrow> outMessage \<Rightarrow> sender \<Rightarrow> sender \<Rightarrow> bool" where
  "moved a m m' s s' \<longleftrightarrow>
     s_heap s' = (s_heap s)(a \<mapsto> m') \<and> same_static s s' \<and> messageBuckets s' = messageBuckets s \<and>
     policyManager s' = policyManager s \<and> DRIVER_QUEUED_BYTE_LIMIT s' = DRIVER_QUEUED_BYTE_LIMIT s \<and>
     set (sendQueue s') = set (sendQueue s) \<and> length (sendQueue s') = length (sendQueue s) \<and>
     m' = m\<lparr>om_info := om_info m'\<rparr> \<and>
     qi_id (om_info m') = qi_id (om_info m) \<and> qi_packets (om_info m') = qi_packets (om_info m) \<and>
     packetsGranted (om_info m') = packetsGranted (om_info m) \<and>
     packetsSent (om_info m) \<le> packetsSent (om_info m') \<and>
     (packetsSent (om_info m') = packetsSent (om_info m) \<longrightarrow> sendQueue s' = sendQueue s) \<and>
     (packetsSent (om_info m') \<le> packetsGranted (om_info m) \<or> packetsSent (om_info m') = packetsSent (om_info m))"

lemma moved_refl: "s_heap s a = Some m \<Longrightarrow> moved a m m s s"
  by (auto simp: moved_def same_static_def fun_upd_idem)

lemma moved_packet:
  assumes "sender_inv s" "s_heap s a = Some m" "om_state m = IN_PROGRESS"
    "moved a (sent_one (s_driver s) m) m' (after_packet a m p s) s'"
    "packetsSent (om_info m) < packetsGranted (om_info m)"
  shows "moved a m m' s s'"
proof -
  have a: "a \<in> set (sendQueue s)" using inv_queue_iff [OF assms(1,2)] assms(3) by simp
  have "length (prioritize_seq lt a (sendQueue s)) = length (sendQueue s)" for lt
    using mset_prioritize_seq [OF a, of lt] by (metis size_mset)
  moreover have "sent_one d m\<lparr>om_info := q\<rparr> = m\<lparr>om_info := q\<rparr>" for d q by (simp add: sent_one_def)
  ultimately show ?thesis
    using assms(4,5) set_prioritize_seq [OF a]
    by (auto simp: moved_def same_static_def after_packet_def Let_def)
qed

lemma send_granted_ok:
  assumes "sender_inv s" "s_heap s a = Some m" "om_state m = IN_PROGRESS"
    "nat (packetsGranted (om_info m) - packetsSent (om_info m)) \<le> fuel"
  shows "\<exists>est' idle' s' m'. send_granted fuel a est idle s = Inr (est', idle', s') \<and> sender_inv s' \<and> moved a m m' s s'"
  using assms
proof (induction fuel arbitrary: est idle s m)
  case 0
  then show ?case
    using moved_refl [OF 0(2)] by (subst send_granted.simps) auto
next
  case (Suc fuel)
  show ?case
  proof (cases "packetsSent (om_info m) < packetsGranted (om_info m)")
    case False
    with Suc.prems moved_refl [OF Suc.prems(2)] show ?thesis
      by (subst send_granted.simps) auto
  next
    case True
    obtain p where p: "send_granted (Suc fuel) a est idle s =
      (let est' = est + word_of_int (plength p)
       in if est' > DRIVER_QUEUED_BYTE_LIMIT s then Inr (est', False, s)
          else send_granted fuel a est' False (after_packet a m p s))"
      using send_granted_step [OF Suc.prems(1-3) True, of fuel est idle] by metis
    let ?s = "after_packet a m p s" and ?m = "sent_one (s_driver s) m"
    have inv: "sender_inv ?s" using after_packet_inv [OF Suc.prems(1-3) True] .
    have m1: "s_heap ?s a = Some ?m" by (simp add: after_packet_def Let_def)
    have "nat (packetsGranted (om_info ?m) - packetsSent (om_info ?m)) \<le> fuel"
      using Suc.prems(4) True by simp
    from Suc.IH [OF inv m1 _ this] Suc.prems(3)
    obtain est' idle' s' m' where "send_granted fuel a (est + word_of_int (plength p)) False ?s = Inr (est', idle', s')"
      "sender_inv s'" "moved a ?m m' ?s s'" by (metis sent_one_fields(2))
    with p moved_packet [OF Suc.prems(1-3) _ True] Suc.prems(1) moved_refl [OF Suc.prems(2)]
    show ?thesis by (auto simp: Let_def)
  qed
qed

section \<open>The queue\<close>

definition granted_total :: "sender \<Rightarrow> nat" where
  "granted_total s = sum (granted_left s) (set (sendQueue s))"

lemma granted_total_sum_list:
  "sender_inv s \<Longrightarrow> sum_list (map (granted_left s) (sendQueue s)) = granted_total s"
  using inv_parts(3) [of s] by (simp add: granted_total_def queue_ok_def sum_list_distinct_conv_sum_set)

lemma moved_total:
  assumes inv: "sender_inv s" and m: "s_heap s a = Some m" "om_state m = IN_PROGRESS" and mv: "moved a m m' s s'"
  shows "granted_total s' + nat (packetsSent (om_info m') - packetsSent (om_info m)) = granted_total s"
proof -
  let ?A = "set (sendQueue s)"
  have a: "a \<in> ?A" using inv_queue_iff [OF inv m(1)] m(2) by simp
  have rest: "sum (granted_left s') (?A - {a}) = sum (granted_left s) (?A - {a})"
    using mv by (intro sum.cong) (auto simp: moved_def granted_left_def)
  have "granted_left s' a + nat (packetsSent (om_info m') - packetsSent (om_info m)) = granted_left s a"
    using mv m(1) by (auto simp: moved_def granted_left_def)
  with rest show ?thesis
    using mv sum.remove [OF _ a, of "granted_left s"] sum.remove [OF _ a, of "granted_left s'"]
    by (simp add: granted_total_def moved_def)
qed

text \<open>The number of queue positions from an iterator to the end.\<close>

definition distance :: "addr option \<Rightarrow> addr list \<Rightarrow> nat" where
  "distance it q = (case it of None \<Rightarrow> 0 | Some a \<Rightarrow> Suc (length (after a q)))"

lemma distance_next:
  assumes "distinct q" "a \<in> set q"
  shows "distance (next_in a q) q = length (after a q)"
    "distance (next_in a q) (remove1 a q) = length (after a q)"
    "\<And>b. next_in a q = Some b \<Longrightarrow> b \<in> set q \<and> b \<noteq> a"
proof -
  have q: "q = before a q @ a # after a q" using before_after_id [OF assms(2)] .
  have r: "remove1 a q = before a q @ after a q" using remove1_before_after [OF assms(2)] .
  have after: "after b xs = bs" if "xs = as @ b # bs" "distinct xs" for b xs as bs
    using that by (simp add: before_after(2))
  show "distance (next_in a q) q = length (after a q)"
  proof (cases "after a q")
    case (Cons b bs)
    then have "q = (before a q @ [a]) @ b # bs" using q by simp
    from after [OF this assms(1)] Cons show ?thesis by (simp add: distance_def next_in_def)
  qed (simp add: distance_def next_in_def)
  show "distance (next_in a q) (remove1 a q) = length (after a q)"
  proof (cases "after a q")
    case (Cons b bs)
    then have "remove1 a q = before a q @ b # bs" using r by simp
    from after [OF this distinct_remove1 [OF assms(1)]] Cons show ?thesis by (simp add: distance_def next_in_def)
  qed (simp add: distance_def next_in_def)
  show "b \<in> set q \<and> b \<noteq> a" if "next_in a q = Some b" for b
  proof -
    from that have "b \<in> set (after a q)" by (auto simp: next_in_def split: list.splits)
    moreover have "a \<notin> set (after a q)" using q assms(1) by (metis distinct.simps(2) distinct_append)
    ultimately show ?thesis using set_after_subset [of a q] by auto
  qed
qed

text \<open>The identifiers collected so far belong to messages that are SENT.\<close>

definition all_sent :: "messageId list \<Rightarrow> sender \<Rightarrow> bool" where
  "all_sent ids s \<longleftrightarrow> (\<forall>b n. s_heap s b = Some n \<and> started n \<and> om_id n \<in> set ids \<longrightarrow> om_state n = SENT)"

lemma all_sent_moved:
  assumes "all_sent ids s" "s_heap s a = Some m" "om_state m = IN_PROGRESS" "moved a m m' s s'"
  shows "all_sent ids s'"
proof -
  have same: "om_id m' = om_id m" "started m' = started m" "om_state m' = om_state m"
    using assms(4) unfolding moved_def started_def by (metis outMessage.select_convs(3,12) outMessage.surjective
        outMessage.update_convs(13))+
  have "om_id m \<notin> set ids"
    using assms(1) [unfolded all_sent_def, rule_format, of a m] assms(2,3) by (auto simp: started_def)
  with same assms(1,4) show ?thesis by (auto simp: all_sent_def moved_def)
qed

text \<open>A message whose last packet was sent leaves the queue as SENT.\<close>

lemma finish_inv:
  assumes inv: "sender_inv s" and m: "s_heap s a = Some m" "om_state m = IN_PROGRESS"
  shows "sender_inv ((set_state a SENT s)\<lparr>sendQueue := remove1 a (sendQueue (set_state a SENT s))\<rparr>)"
    "all_sent ids s \<Longrightarrow> all_sent (ids @ [om_id m]) ((set_state a SENT s)\<lparr>sendQueue := q\<rparr>)"
proof -
  have "set_state a SENT (s\<lparr>sendQueue := remove1 a (sendQueue s)\<rparr>) =
      (set_state a SENT s)\<lparr>sendQueue := remove1 a (sendQueue (set_state a SENT s))\<rparr>"
    by (simp add: sender_defs)
  then show "sender_inv ((set_state a SENT s)\<lparr>sendQueue := remove1 a (sendQueue (set_state a SENT s))\<rparr>)"
    using inv_end_message [OF inv m(1), of SENT] m(2) by (simp add: started_def)
  have st: "started m" using m(2) by (simp add: started_def)
  have uniq: "b = a" if "s_heap s b = Some n" "started n" "om_id n = om_id m" for b n
    using inv that m(1) st unfolding sender_inv_def heap_ok_def by blast
  show "all_sent (ids @ [om_id m]) ((set_state a SENT s)\<lparr>sendQueue := q\<rparr>)" if ids: "all_sent ids s"
    unfolding all_sent_def
  proof (intro allI impI)
    fix b n
    assume n: "s_heap ((set_state a SENT s)\<lparr>sendQueue := q\<rparr>) b = Some n \<and> started n \<and> om_id n \<in> set (ids @ [om_id m])"
    have h: "s_heap ((set_state a SENT s)\<lparr>sendQueue := q\<rparr>) = (s_heap s)(a \<mapsto> m\<lparr>om_state := SENT\<rparr>)"
      using m(1) by (simp add: sender_defs)
    show "om_state n = SENT"
    proof (cases "b = a")
      case False
      with n h have "s_heap s b = Some n" "started n" "om_id n \<in> set ids \<or> om_id n = om_id m" by auto
      with uniq [of b n] False ids [unfolded all_sent_def, rule_format, of b n] show ?thesis by blast
    qed (use n h in auto)
  qed
qed

lemma granted_total_finish:
  assumes inv: "sender_inv s" and m: "s_heap s a = Some m" "om_state m = IN_PROGRESS"
  shows "granted_total ((set_state a SENT s)\<lparr>sendQueue := remove1 a (sendQueue (set_state a SENT s))\<rparr>) \<le> granted_total s"
proof -
  have d: "distinct (sendQueue s)" using inv_parts(3) [OF inv] by (simp add: queue_ok_def)
  have "sum (granted_left ((set_state a SENT s)\<lparr>sendQueue := q\<rparr>)) (set (sendQueue s) - {a}) =
      sum (granted_left s) (set (sendQueue s) - {a})" for q
    by (intro sum.cong) (auto simp: granted_left_def sender_defs)
  then have "granted_total ((set_state a SENT s)\<lparr>sendQueue := remove1 a (sendQueue (set_state a SENT s))\<rparr>) =
      sum (granted_left s) (set (sendQueue s) - {a})"
    using d by (simp add: granted_total_def sender_defs)
  also have "\<dots> \<le> granted_total s" unfolding granted_total_def by (intro sum_mono2) auto
  finally show ?thesis .
qed

definition potential :: "nat \<Rightarrow> addr option \<Rightarrow> sender \<Rightarrow> nat" where
  "potential n it s = granted_total s * (n + 1) + distance it (sendQueue s)"

lemma distance_le: "distinct q \<Longrightarrow> (\<And>a. it = Some a \<Longrightarrow> a \<in> set q) \<Longrightarrow> distance it q \<le> length q"
proof (cases it)
  case (Some a)
  assume "\<And>a. it = Some a \<Longrightarrow> a \<in> set q"
  with Some have "q = before a q @ a # after a q" using before_after_id by fast
  then have "length q = length (before a q) + Suc (length (after a q))" by (metis length_append length_Cons)
  with Some show ?thesis by (simp add: distance_def)
qed (simp add: distance_def)

text \<open>A round that goes on makes the potential smaller: it sent a packet, or it left the queue as
  it is and moved on.\<close>

lemma potential_step:
  assumes inv: "sender_inv s" and m: "s_heap s a = Some m" "om_state m = IN_PROGRESS"
    and mv: "moved a m m' s s1" "sender_inv s1" and n: "length (sendQueue s) \<le> n"
    and s2: "granted_total s2 \<le> granted_total s1" "distance it (sendQueue s2) = length (after a (sendQueue s1))"
  shows "potential n it s2 < potential n (Some a) s"
proof -
  have a: "a \<in> set (sendQueue s)" using inv_queue_iff [OF inv m(1)] m(2) by simp
  have tot: "granted_total s1 + nat (packetsSent (om_info m') - packetsSent (om_info m)) = granted_total s"
    using moved_total [OF inv m mv(1)] .
  show ?thesis
  proof (cases "packetsSent (om_info m') = packetsSent (om_info m)")
    case True
    with mv(1) have "sendQueue s1 = sendQueue s" by (simp add: moved_def)
    with s2(2) have "distance it (sendQueue s2) < distance (Some a) (sendQueue s)"
      by (simp add: distance_def)
    moreover have "granted_total s2 \<le> granted_total s" using True tot s2(1) by simp
    then have "granted_total s2 * (n + 1) \<le> granted_total s * (n + 1)" by (rule mult_le_mono1)
    ultimately show ?thesis unfolding potential_def by linarith
  next
    case False
    with mv(1) have "packetsSent (om_info m) < packetsSent (om_info m')" by (simp add: moved_def)
    with tot s2(1) have "granted_total s2 + 1 \<le> granted_total s" by simp
    then have g: "(granted_total s2 + 1) * (n + 1) \<le> granted_total s * (n + 1)" by (rule mult_le_mono1)
    have "a \<in> set (sendQueue s1)" using mv(1) a by (simp add: moved_def)
    then have "length (after a (sendQueue s1)) < length (sendQueue s1)"
      using before_after_id [of a "sendQueue s1"] by (metis length_append length_Cons less_add_Suc2 add_Suc_right)
    then have "distance it (sendQueue s2) \<le> n" using s2(2) mv(1) n by (simp add: moved_def)
    with g show ?thesis by (simp add: potential_def)
  qed
qed

lemma same_static_trans: "same_static s t \<Longrightarrow> same_static t u \<Longrightarrow> same_static s u"
  by (simp add: same_static_def)

lemma trySend_loop_ok:
  assumes "sender_inv s" "\<And>a. it = Some a \<Longrightarrow> a \<in> set (sendQueue s)" "length (sendQueue s) \<le> n"
    "potential n it s \<le> fuel" "all_sent ids s"
  shows "\<exists>idle' ids' s'. trySend_loop fuel it est idle ids s = Inr (idle', ids', s') \<and> sender_inv s' \<and>
    all_sent ids' s' \<and> same_static s s'"
  using assms
proof (induction fuel arbitrary: it est idle ids s)
  case 0
  then have "it = None" by (cases it) (auto simp: potential_def distance_def)
  with 0 show ?case by (subst trySend_loop.simps) (simp add: same_static_def)
next
  case (Suc fuel)
  show ?case
  proof (cases it)
    case None
    with Suc.prems show ?thesis by (subst trySend_loop.simps) (simp add: same_static_def)
  next
    case (Some a)
    with Suc.prems(2) have a: "a \<in> set (sendQueue s)" by simp
    then obtain m where m: "s_heap s a = Some m" "om_state m = IN_PROGRESS"
      using inv_parts(3) [OF Suc.prems(1)] by (auto simp: queue_ok_def)
    then have st: "started m" "1 < om_numPackets m"
      using inv_msg [OF Suc.prems(1)] by (auto simp: started_def msg_ok_def)
    have dr: "deref_pointer (qi_packets (om_info m)) s = Inr m"
      using deref_packets [OF Suc.prems(1) m(1) st] by simp
    have g: "packetsGranted (om_info m) \<le> om_numPackets m"
      using inv_sent_bound(3) [OF Suc.prems(1) m(1) st] .
    obtain est' idle' s1 m' where sg:
      "send_granted (nat (packetsGranted (om_info m) - packetsSent (om_info m))) a est idle s = Inr (est', idle', s1)"
      "sender_inv s1" "moved a m m' s s1"
      using send_granted_ok [OF Suc.prems(1) m order_refl] by blast
    have m1: "s_heap s1 a = Some m'" using sg(3) by (simp add: moved_def)
    have same: "om_id m' = om_id m" "om_state m' = IN_PROGRESS"
      using sg(3) m(2) unfolding moved_def by (metis outMessage.select_convs(3,12) outMessage.surjective
        outMessage.update_convs(13))+
    have qid: "qi_id (om_info m') = om_id m'"
      using inv_msg [OF Suc.prems(1) m(1)] st sg(3) same(1) by (simp add: msg_ok_def info_ok_def moved_def)
    have d1: "distinct (sendQueue s1)" and a1: "a \<in> set (sendQueue s1)"
      using inv_parts(3) [OF sg(2)] inv_queue_iff [OF sg(2) m1] same(2) by (simp_all add: queue_ok_def)
    have n1: "length (sendQueue s1) \<le> n" using sg(3) Suc.prems(3) by (simp add: moved_def)
    have ids1: "all_sent ids s1" using all_sent_moved [OF Suc.prems(5) m sg(3)] .
    have st1: "same_static s s1" using sg(3) by (simp add: moved_def)
    note nxt = distance_next [OF d1 a1]
    have round: "trySend_loop (Suc fuel) (Some a) est idle ids s =
        (if packetsSent (om_info m') \<ge> om_numPackets m then
           trySend_loop fuel (next_in a (sendQueue (set_state a SENT s1))) est' idle'
             (ids @ [qi_id (om_info m')])
             ((set_state a SENT s1)\<lparr>sendQueue := remove1 a (sendQueue (set_state a SENT s1))\<rparr>)
         else if packetsSent (om_info m') \<ge> packetsGranted (om_info m') then
           trySend_loop fuel (next_in a (sendQueue s1)) est' idle' ids s1
         else Inr (idle', ids, s1\<lparr>sendReady := True\<rparr>))"
      using m dr g sg(1) m1 by (subst trySend_loop.simps) (simp add: Let_def)
    show ?thesis
    proof (cases "packetsSent (om_info m') \<ge> om_numPackets m")
      case True
      let ?s2 = "(set_state a SENT s1)\<lparr>sendQueue := remove1 a (sendQueue (set_state a SENT s1))\<rparr>"
      have q2: "sendQueue (set_state a SENT s1) = sendQueue s1" by (simp add: sender_defs)
      have "potential n (next_in a (sendQueue s1)) ?s2 < potential n (Some a) s"
        using potential_step [OF Suc.prems(1) m sg(3,2) Suc.prems(3) granted_total_finish [OF sg(2) m1 same(2)]]
          nxt(2) q2 by simp
      then have "potential n (next_in a (sendQueue s1)) ?s2 \<le> fuel" using Suc.prems(4) Some by simp
      moreover have "b \<in> set (sendQueue ?s2)" if "next_in a (sendQueue s1) = Some b" for b
        using nxt(3) [OF that] q2 by simp
      moreover have "length (sendQueue ?s2) \<le> n" using n1 q2 a1 by (simp add: length_remove1)
      moreover have "same_static s ?s2" using st1 by (simp add: same_static_def sender_defs)
      ultimately show ?thesis
        using Suc.IH [OF finish_inv(1) [OF sg(2) m1 same(2)] _ _ _ finish_inv(2) [OF sg(2) m1 same(2) ids1]]
          round True Some q2 qid same_static_trans by (smt (verit))
    next
      case False
      show ?thesis
      proof (cases "packetsSent (om_info m') \<ge> packetsGranted (om_info m')")
        case True
        have "potential n (next_in a (sendQueue s1)) s1 < potential n (Some a) s"
          using potential_step [OF Suc.prems(1) m sg(3,2) Suc.prems(3) order_refl nxt(1)] .
        then have "potential n (next_in a (sendQueue s1)) s1 \<le> fuel" using Suc.prems(4) Some by simp
        with Suc.IH [OF sg(2) _ n1 _ ids1, of "next_in a (sendQueue s1)" est' idle'] nxt(3) round True False Some st1
        show ?thesis using same_static_trans by fastforce
      next
        case c: False
        have "all_sent ids (s1\<lparr>sendReady := True\<rparr>)" using ids1 by (simp add: all_sent_def)
        moreover have "same_static s (s1\<lparr>sendReady := True\<rparr>)" using st1 by (simp add: same_static_def)
        ultimately show ?thesis using round False c Some sg(2) by simp
      qed
    qed
  qed
qed

section \<open>After the loop\<close>

lemma finish_sent_ok:
  assumes "sender_inv s" "all_sent ids s"
  shows "\<exists>s'. finish_sent ids s = Inr s' \<and> sender_inv s' \<and> sending s' = sending s"
  using assms
proof (induction ids arbitrary: s)
  case (Cons i ids)
  have rest: "all_sent ids s" using Cons.prems(2) unfolding all_sent_def by auto
  show ?case
    using Cons.prems(1)
  proof (cases rule: findMessage_cases [where msgId = i])
    case absent
    then show ?thesis using Cons.IH [OF Cons.prems(1) rest] by (simp add: Let_def)
  next
    case (present a m)
    have "om_state m = SENT"
      using Cons.prems(2) [unfolded all_sent_def, rule_format, of a m] present(2-4) by simp
    then have ni: "om_state m \<noteq> IN_PROGRESS" by simp
    obtain s1 where s1: "destroy_message a (remove_message (getBucket i) a (cancel_timeouts (getBucket i) a s)) = Inr s1"
      "sender_inv s1" "s_heap s1 = (s_heap s)(a := None)" "sending s1 = sending s"
      using inv_destroy [OF Cons.prems(1) present(2) ni] present(4)
      by (auto simp: destroy_message_def res_simps sender_defs)
    have "all_sent ids s1" using rest s1(3) by (auto simp: all_sent_def)
    from Cons.IH [OF s1(2) this] s1 have d: "\<not> om_held m \<Longrightarrow> ?thesis"
      using present by (simp add: Let_def)
    have "all_sent ids (cancel_timeouts (getBucket i) a s)" using rest by (simp add: all_sent_def)
    from Cons.IH [OF inv_cancel_timeouts [OF Cons.prems(1)] this]
    have c: "om_held m \<Longrightarrow> has_option (om_options m) NO_KEEP_ALIVE \<Longrightarrow> ?thesis"
      using present by (simp add: Let_def sender_defs)
    have "om_held m \<Longrightarrow> \<not> has_option (om_options m) NO_KEEP_ALIVE \<Longrightarrow> ?thesis"
      using present Cons.IH [OF Cons.prems(1) rest] by (simp add: Let_def)
    with d c show ?thesis by blast
  qed
qed simp

theorem trySend_ok:
  assumes inv: "sender_inv s" "\<not> sending s"
  shows "\<exists>s'. trySend tsc queuedBytes s = Inr s' \<and> sender_inv s' \<and> \<not> sending s'"
proof (cases "sendReady s")
  case False
  with inv show ?thesis by (simp add: trySend_def)
next
  case True
  let ?s1 = "s\<lparr>sending := True, sendReady := False\<rparr>"
  let ?it = "case sendQueue ?s1 of [] \<Rightarrow> None | a # _ \<Rightarrow> Some a"
  let ?n = "length (sendQueue s)"
  have inv1: "sender_inv ?s1" using inv(1) by simp
  have it: "a \<in> set (sendQueue ?s1)" if "?it = Some a" for a
    using that by (auto split: list.splits)
  have d: "distinct (sendQueue ?s1)" using inv_parts(3) [OF inv1] by (simp add: queue_ok_def)
  have "distance ?it (sendQueue ?s1) \<le> ?n" using distance_le [OF d it] by simp
  then have pot: "potential ?n ?it ?s1 \<le> trySend_fuel ?s1"
    using granted_total_sum_list [OF inv1]
    by (simp add: potential_def trySend_fuel_def)
  have empty: "all_sent [] ?s1" by (simp add: all_sent_def)
  have "\<exists>idle' ids' s'. trySend_loop (trySend_fuel ?s1) ?it queuedBytes True [] ?s1 = Inr (idle', ids', s') \<and>
      sender_inv s' \<and> all_sent ids' s' \<and> same_static ?s1 s'"
    by (rule trySend_loop_ok [OF inv1 it _ pot empty]) simp_all
  then obtain idle' ids' s2 where s2:
    "trySend_loop (trySend_fuel ?s1) ?it queuedBytes True [] ?s1 = Inr (idle', ids', s2)" "sender_inv s2" "all_sent ids' s2"
    by blast
  have "all_sent ids' (s2\<lparr>sending := False\<rparr>)" using s2(3) by (simp add: all_sent_def)
  with finish_sent_ok [of "s2\<lparr>sending := False\<rparr>" ids'] s2(2)
  obtain s3 where "finish_sent ids' (s2\<lparr>sending := False\<rparr>) = Inr s3" "sender_inv s3" "\<not> sending s3" by auto
  with s2(1) True inv(2) show ?thesis by (simp add: trySend_def Let_def emit_def sender_inv_def)
qed

end
