(* ===== verification/Sender_System.thy ===== *)
theory Sender_System
  imports Sender_TrySend
begin

text \<open>
  The sender as a transition system: every call an application or the transport may make is an
  operation, guarded by the contract of include/Homa/Homa.h. The invariant of Sender_Invariant
  holds in every reachable state, and no operation fails there but for lack of memory.
\<close>

datatype sender_op =
    Alloc u16
  | Append addr bytes u64
  | Prepend addr bytes u64
  | Reserve addr u64
  | Send "nat \<Rightarrow> u64" addr socketAddress u32
  | Cancel addr
  | Release addr
  | HandleDone packet
  | HandleResend "nat \<Rightarrow> u64" packet
  | HandleGrant "nat \<Rightarrow> u64" packet
  | HandleUnknown "nat \<Rightarrow> u64" packet
  | HandleError packet
  | Poll "nat \<Rightarrow> u64" "nat \<Rightarrow> u64" u32

text \<open>The application touches a message only while it holds it, changes and sends it only before
  it was sent, does not send an empty message, and a byte count is the size of a buffer.\<close>

definition held_by_app :: "addr \<Rightarrow> sender \<Rightarrow> bool" where
  "held_by_app a s = (case s_heap s a of None \<Rightarrow> False | Some m \<Rightarrow> om_held m)"

definition being_built :: "addr \<Rightarrow> sender \<Rightarrow> bool" where
  "being_built a s = (case s_heap s a of None \<Rightarrow> False | Some m \<Rightarrow> om_held m \<and> om_state m = NOT_STARTED)"

definition sane_count :: "u64 \<Rightarrow> bytes \<Rightarrow> bool" where
  "sane_count cnt source \<longleftrightarrow> unat cnt \<le> length source \<and> unat cnt < 2 ^ 31 - 2 ^ 26"

definition sendable :: "addr \<Rightarrow> sender \<Rightarrow> bool" where
  "sendable a s = (case s_heap s a of None \<Rightarrow> False
     | Some m \<Rightarrow> om_held m \<and> om_state m = NOT_STARTED \<and> 0 < om_numPackets m)"

fun sender_step :: "sender_op \<Rightarrow> sender \<Rightarrow> sender res" where
  "sender_step (Alloc port) s = bindr (allocMessage port s) (\<lambda>(a, s'). Inr s')"
| "sender_step (Append a source cnt) s =
     require Misuse (being_built a s \<and> sane_count cnt source) (message_op (\<lambda>d. om_append d source cnt) a s)"
| "sender_step (Prepend a source cnt) s =
     require Misuse (being_built a s \<and> sane_count cnt source) (message_op (\<lambda>_. om_prepend source cnt) a s)"
| "sender_step (Reserve a cnt) s =
     require Misuse (being_built a s \<and> unat cnt < 2 ^ 31 - 2 ^ 26) (message_op (\<lambda>d. om_reserve d cnt) a s)"
| "sender_step (Send tsc a destination options) s =
     require Misuse (sendable a s \<and> nextMessageSequenceNumber s \<noteq> - 1) (sendMessage tsc a destination options s)"
| "sender_step (Cancel a) s = require Misuse (held_by_app a s) (cancelMessage a s)"
| "sender_step (Release a) s = require Misuse (held_by_app a s) (sender_dropMessage a s)"
| "sender_step (HandleDone p) s = handleDonePacket p s"
| "sender_step (HandleResend tsc p) s = handleResendPacket tsc p s"
| "sender_step (HandleGrant tsc p) s = handleGrantPacket tsc p s"
| "sender_step (HandleUnknown tsc p) s = handleUnknownPacket tsc p s"
| "sender_step (HandleError p) s = handleErrorPacket p s"
| "sender_step (Poll tsc1 tsc2 queued) s = sender_poll tsc1 tsc2 queued s"

definition sender_start :: "sender \<Rightarrow> bool" where
  "sender_start s \<longleftrightarrow> (\<exists>tid d t1 t2. s = Sender tid d (Policy_Manager d) t1 t2 \<and> static_ok d (Policy_Manager d))"

lemma sender_start_inv: "sender_start s \<Longrightarrow> sender_inv s"
  using pool_ok_start
  by (auto simp: sender_start_def sender_inv_def Sender_def heap_ok_def buckets_ok_def bucket_ok_def
      queue_ok_def MessageBucket_def tm_ok_TimeoutManager) (simp_all add: TimeoutManager_def)

section \<open>The message operations in the sender\<close>

lemma sane_downCast: "unat cnt < 2 ^ 31 - 2 ^ 26 \<Longrightarrow> \<exists>c. downCast_int cnt = Inr (int c) \<and> c = unat cnt"
  using downCast_int_small [of cnt] by auto

lemma being_built_iff:
  "being_built a s \<longleftrightarrow> (\<exists>m. s_heap s a = Some m \<and> \<not> started m \<and> om_held m)"
  by (auto simp: being_built_def started_def split: option.splits)

lemma append_step_ok:
  assumes inv: "sender_inv s" and m: "s_heap s a = Some m" "\<not> started m"
    and c: "unat cnt \<le> length src" "unat cnt < 2 ^ 31 - 2 ^ 26"
  shows "\<exists>s'. message_op (\<lambda>d. om_append d src cnt) a s = Inr s' \<and> sender_inv s'"
proof -
  obtain n where n: "downCast_int cnt = Inr (int n)" "n = unat cnt" using sane_downCast [OF c(2)] by blast
  have wf: "om_wf (s_driver s) m" using inv_msg [OF inv m(1)] by (simp add: msg_ok_def)
  obtain m' where "om_append (s_driver s) src cnt m = Inr m'" "om_wf (s_driver s) m'" "om_state m' = om_state m"
    "om_held m' = om_held m" "om_id m' = om_id m"
    using om_append_eq [OF inv_parts(4) [OF inv] wf _ _ n(1), of src] c n(2) by (auto simp: Let_def)
  with message_op_ok [OF inv m, of "\<lambda>d. om_append d src cnt" m'] show ?thesis by simp
qed

lemma reserve_step_ok:
  assumes inv: "sender_inv s" and m: "s_heap s a = Some m" "\<not> started m" and c: "unat cnt < 2 ^ 31 - 2 ^ 26"
    and s: "om_start m = om_messageLength m"
  shows "\<exists>s'. message_op (\<lambda>d. om_reserve d cnt) a s = Inr s' \<and> sender_inv s'"
proof -
  obtain n where n: "downCast_int cnt = Inr (int n)" "n = unat cnt" using sane_downCast [OF c] by blast
  have wf: "om_wf (s_driver s) m" using inv_msg [OF inv m(1)] by (simp add: msg_ok_def)
  obtain m' where "om_reserve (s_driver s) cnt m = Inr m'" "om_wf (s_driver s) m'" "om_state m' = om_state m"
    "om_held m' = om_held m" "om_id m' = om_id m"
    using om_reserve_correct [OF inv_parts(4) [OF inv] wf s _ n(1)] c n(2) by (auto simp: Let_def)
  with message_op_ok [OF inv m, of "\<lambda>d. om_reserve d cnt" m'] show ?thesis by simp
qed

lemma prepend_step_ok:
  assumes inv: "sender_inv s" and m: "s_heap s a = Some m" "\<not> started m"
    and c: "unat cnt \<le> length src" "unat cnt < 2 ^ 31 - 2 ^ 26" "int (unat cnt) \<le> om_start m"
  shows "\<exists>s'. message_op (\<lambda>_. om_prepend src cnt) a s = Inr s' \<and> sender_inv s'"
proof -
  obtain n where n: "downCast_int cnt = Inr (int n)" "n = unat cnt" using sane_downCast [OF c(2)] by blast
  have wf: "om_wf (s_driver s) m" using inv_msg [OF inv m(1)] by (simp add: msg_ok_def)
  obtain m' where "om_prepend src cnt m = Inr m'" "om_wf (s_driver s) m'" "om_state m' = om_state m"
    "om_held m' = om_held m" "om_id m' = om_id m"
    using om_prepend_correct [OF inv_parts(4) [OF inv] wf _ _ n(1), of src] c n(2) by (auto simp: Let_def)
  with message_op_ok [OF inv m, of "\<lambda>_. om_prepend src cnt" m'] show ?thesis by simp
qed

section \<open>The transition system\<close>

lemma sender_poll_inv:
  assumes inv: "sender_inv s" and r: "sender_poll tsc1 tsc2 queued s = Inr s'"
  shows "sender_inv s'"
proof -
  obtain s1 where s1: "trySend tsc1 queued s = Inr s1" "sender_checkTimeouts tsc2 s1 = Inr s'"
    using r by (auto simp: sender_poll_def bindr_eq_Inr)
  have "sender_inv s1"
  proof (cases "sending s")
    case True
    with s1(1) inv show ?thesis by (simp add: trySend_def split: if_splits)
  qed (use trySend_ok [OF inv, of tsc1 queued] s1(1) in auto)
  with sender_checkTimeouts_inv s1(2) show ?thesis by blast
qed

lemma sender_step_inv:
  assumes inv: "sender_inv s" and r: "sender_step op s = Inr s'"
  shows "sender_inv s'"
proof (cases op)
  case (Alloc port)
  with r allocMessage_ok [OF inv] show ?thesis by (auto simp: bindr_eq_Inr)
next
  case (Append a src cnt)
  with r append_step_ok [OF inv] show ?thesis
    by (auto simp: require_eq_Inr being_built_iff sane_count_def) (metis sum.inject(2))
next
  case (Prepend a src cnt)
  with r obtain m where m: "s_heap s a = Some m" "\<not> started m" "sane_count cnt src"
    and op: "message_op (\<lambda>_. om_prepend src cnt) a s = Inr s'"
    by (auto simp: require_eq_Inr being_built_iff)
  obtain c where c: "downCast_int cnt = Inr (int c)" "c = unat cnt"
    using sane_downCast [of cnt] m(3) by (auto simp: sane_count_def)
  have "int c \<le> om_start m"
  proof (rule ccontr)
    assume "\<not> int c \<le> om_start m"
    with om_prepend_unreserved [OF c(1)] op m(1) show False by (simp add: message_op_def)
  qed
  with prepend_step_ok [OF inv m(1,2), of cnt src] m(3) c op show ?thesis by (auto simp: sane_count_def)
next
  case (Reserve a cnt)
  with r obtain m where m: "s_heap s a = Some m" "\<not> started m" "unat cnt < 2 ^ 31 - 2 ^ 26"
    and op: "message_op (\<lambda>d. om_reserve d cnt) a s = Inr s'"
    by (auto simp: require_eq_Inr being_built_iff)
  obtain c where c: "downCast_int cnt = Inr (int c)" using sane_downCast [OF m(3)] by blast
  have "om_start m = om_messageLength m"
  proof (rule ccontr)
    assume "om_start m \<noteq> om_messageLength m"
    with om_reserve_late [OF c] op m(1) show False by (simp add: message_op_def)
  qed
  with reserve_step_ok [OF inv m] op show ?thesis by auto
next
  case (Send tsc a dst opt)
  with r obtain m where m: "s_heap s a = Some m" "\<not> started m" "om_held m" "0 < om_numPackets m"
    "nextMessageSequenceNumber s \<noteq> - 1" "sendMessage tsc a dst opt s = Inr s'"
    by (auto simp: require_eq_Inr sendable_def started_def split: option.splits)
  with sendMessage_ok [OF inv m(1-5), of tsc dst opt] show ?thesis by auto
next
  case (Cancel a)
  with r cancelMessage_ok [OF inv] show ?thesis
    by (auto simp: require_eq_Inr held_by_app_def split: option.splits) (metis sum.inject(2))
next
  case (Release a)
  with r sender_dropMessage_ok [OF inv] show ?thesis
    by (auto simp: require_eq_Inr held_by_app_def split: option.splits) (metis sum.inject(2))
next
  case (HandleDone p)
  with r handleDonePacket_ok [OF inv, of p] show ?thesis by auto
next
  case (HandleResend tsc p)
  with r handleResendPacket_ok [OF inv, of tsc p] show ?thesis by auto
next
  case (HandleGrant tsc p)
  with r handleGrantPacket_ok [OF inv, of tsc p] show ?thesis by auto
next
  case (HandleUnknown tsc p)
  with r handleUnknownPacket_ok [OF inv, of tsc p] show ?thesis by auto
next
  case (HandleError p)
  with r handleErrorPacket_ok [OF inv, of p] show ?thesis by auto
next
  case (Poll tsc1 tsc2 queued)
  with r sender_poll_inv [OF inv] show ?thesis by simp
qed

interpretation sender_system: component sender_start sender_step sender_inv
  by unfold_locales (use sender_start_inv sender_step_inv in blast)+

text \<open>Packets, cancellations and releases never fail in a reachable state; sending does not
  fail for a message that may be sent.\<close>

lemma sender_step_total:
  assumes inv: "sender_inv s" and op:
    "case op of Alloc _ \<Rightarrow> False | Append a src cnt \<Rightarrow> being_built a s \<and> sane_count cnt src
     | Prepend _ _ _ \<Rightarrow> False | Reserve _ _ \<Rightarrow> False
     | Send _ a _ _ \<Rightarrow> sendable a s \<and> nextMessageSequenceNumber s \<noteq> - 1
     | Cancel a \<Rightarrow> held_by_app a s | Release a \<Rightarrow> held_by_app a s
     | Poll _ _ _ \<Rightarrow> False | _ \<Rightarrow> True"
  shows "\<exists>s'. sender_step op s = Inr s'"
proof (cases op)
  case (Append a src cnt)
  with op append_step_ok [OF inv, of a _ cnt src] show ?thesis
    by (auto simp: being_built_iff sane_count_def)
next
  case (Send tsc a dst opt)
  with op sendMessage_ok [OF inv, of a _ tsc dst opt] show ?thesis
    by (auto simp: sendable_def started_def split: option.splits)
next
  case (Cancel a)
  with op cancelMessage_ok [OF inv, of a] show ?thesis by (auto simp: held_by_app_def split: option.splits)
next
  case (Release a)
  with op sender_dropMessage_ok [OF inv, of a] show ?thesis by (auto simp: held_by_app_def split: option.splits)
next
  case (HandleDone p)
  then show ?thesis using handleDonePacket_ok [OF inv, of p] by auto
next
  case (HandleResend tsc p)
  then show ?thesis using handleResendPacket_ok [OF inv, of tsc p] by auto
next
  case (HandleGrant tsc p)
  then show ?thesis using handleGrantPacket_ok [OF inv, of tsc p] by auto
next
  case (HandleUnknown tsc p)
  then show ?thesis using handleUnknownPacket_ok [OF inv, of tsc p] by auto
next
  case (HandleError p)
  then show ?thesis using handleErrorPacket_ok [OF inv, of p] by auto
qed (use op in simp_all)

end
