(* ===== verification/In_Message.thy ===== *)
theory In_Message
  imports Driver
begin

text \<open>
  \<open>Receiver::Message\<close> of src/Receiver.h and src/Receiver.cc as a container of packets: its
  fields, \<open>setPacket\<close> and \<open>getPacket\<close>, the reading operations of the application (\<open>get\<close>, \<open>strip\<close>,
  \<open>length\<close>) and the destructor, which gives contiguous runs of packets back to the driver. The
  peer pointer of the scheduling data is the address of the peer, the key of the peer table.
\<close>

datatype rx_state = RX_IN_PROGRESS | RX_COMPLETED | RX_DROPPED

record scheduledMessageInfo =
  si_messageLength :: int
  bytesRemaining :: int
  bytesGranted :: int
  si_priority :: int
  si_peer :: "ipAddress option"

definition ScheduledMessageInfo :: "int \<Rightarrow> scheduledMessageInfo" where
  "ScheduledMessageInfo len =
     \<lparr>si_messageLength = len, bytesRemaining = len, bytesGranted = 0, si_priority = 0, si_peer = None\<rparr>"

record inMessage =
  im_id :: messageId
  im_source :: socketAddress
  im_TRANSPORT_HEADER_LENGTH :: int
  im_PACKET_DATA_LENGTH :: int
  numExpectedPackets :: int
  numUnscheduledPackets :: int
  im_scheduled :: bool
  im_start :: int
  im_messageLength :: int
  im_numPackets :: int
  im_packets :: "nat \<rightharpoonup> packet"
  im_state :: rx_state
  im_info :: scheduledMessageInfo

definition IM_MAX_MESSAGE_PACKETS :: nat where "IM_MAX_MESSAGE_PACKETS = 1024"

text \<open>The constructor takes the two lengths as \<open>size_t\<close>: the number of packets is computed in 64
  bits unsigned and converted to \<open>int\<close>.\<close>

definition InMessage ::
  "driver \<Rightarrow> nat \<Rightarrow> u64 \<Rightarrow> messageId \<Rightarrow> socketAddress \<Rightarrow> int \<Rightarrow> inMessage res" where
  "InMessage d packetHeaderLength messageLength msgId source unscheduledPackets =
     (let dataLength = int_of_u32 (maxPayloadSize d - of_nat packetHeaderLength)
      in require DivideByZero (dataLength \<noteq> 0)
         (let expected = int_of_u64 ((messageLength + word_of_int dataLength - 1) div word_of_int dataLength)
          in Inr \<lparr>im_id = msgId, im_source = source,
                  im_TRANSPORT_HEADER_LENGTH = int packetHeaderLength,
                  im_PACKET_DATA_LENGTH = dataLength,
                  numExpectedPackets = expected, numUnscheduledPackets = unscheduledPackets,
                  im_scheduled = (expected > unscheduledPackets),
                  im_start = 0, im_messageLength = int_of_u64 messageLength, im_numPackets = 0,
                  im_packets = Map.empty, im_state = RX_IN_PROGRESS,
                  im_info = ScheduledMessageInfo (int_of_u64 messageLength)\<rparr>))"

definition im_getPacket :: "int \<Rightarrow> inMessage \<Rightarrow> packet option res" where
  "im_getPacket index m =
     require OutOfRange (0 \<le> index \<and> index < int IM_MAX_MESSAGE_PACKETS) (Inr (im_packets m (nat index)))"

definition im_setPacket :: "int \<Rightarrow> packet \<Rightarrow> inMessage \<Rightarrow> (bool \<times> inMessage) res" where
  "im_setPacket index p m =
     require OutOfRange (0 \<le> index \<and> index < int IM_MAX_MESSAGE_PACKETS)
       (case im_packets m (nat index) of
          Some _ \<Rightarrow> Inr (False, m)
        | None \<Rightarrow> Inr (True, m\<lparr>im_packets := (im_packets m)(nat index \<mapsto> p),
                               im_numPackets := im_numPackets m + 1\<rparr>))"

definition dropped :: "inMessage \<Rightarrow> bool" where
  "dropped m \<longleftrightarrow> im_state m = RX_DROPPED"

definition im_length :: "inMessage \<Rightarrow> u64 res" where
  "im_length m = downCast_size (im_messageLength m - im_start m)"

definition strip :: "u64 \<Rightarrow> inMessage \<Rightarrow> inMessage res" where
  "strip cnt m =
     bindr (downCast_int cnt) (\<lambda>c.
       require SignedOverflow (in_int32 (im_start m + c))
         (Inr (m\<lparr>im_start := min (im_start m + c) (im_messageLength m)\<rparr>)))"

text \<open>The loop of \<open>get\<close> returns the bytes it copied; it stops at a packet that is missing.\<close>

fun get_loop :: "nat \<Rightarrow> int \<Rightarrow> int \<Rightarrow> int \<Rightarrow> int \<Rightarrow> inMessage \<Rightarrow> bytes res" where
  "get_loop fuel cnt packetIndex packetOffset bytesCopied m =
     (if bytesCopied < cnt then
        case fuel of
          0 \<Rightarrow> Inl OutOfFuel
        | Suc fuel' \<Rightarrow>
            let bytesToCopy = min (cnt - bytesCopied) (im_PACKET_DATA_LENGTH m - packetOffset);
                off = packetOffset + im_TRANSPORT_HEADER_LENGTH m
            in bindr (im_getPacket packetIndex m) (\<lambda>q.
               case q of
                 None \<Rightarrow> Inr []
               | Some p \<Rightarrow>
                   require OutOfRange (0 \<le> off \<and> 0 \<le> bytesToCopy \<and> off + bytesToCopy \<le> int (length (payload p)))
                     (bindr (get_loop fuel' cnt (packetIndex + 1) 0 (bytesCopied + bytesToCopy) m) (\<lambda>rest.
                        Inr (take (nat bytesToCopy) (drop (nat off) (payload p)) @ rest))))
      else Inr [])"

definition get :: "u64 \<Rightarrow> u64 \<Rightarrow> inMessage \<Rightarrow> bytes res" where
  "get offset cnt m =
     bindr (downCast_int offset) (\<lambda>off.
     bindr (downCast_int cnt) (\<lambda>c0.
     require SignedOverflow (in_int32 (off + im_start m))
     (let realOffset = off + im_start m
      in require DivideByZero (im_PACKET_DATA_LENGTH m \<noteq> 0)
         (if realOffset \<ge> im_messageLength m then Inr []
          else require SignedOverflow (in_int32 (realOffset + c0))
            (let c = (if realOffset + c0 > im_messageLength m then im_messageLength m - realOffset else c0)
             in get_loop (nat c) c (cdiv realOffset (im_PACKET_DATA_LENGTH m))
                  (cmod realOffset (im_PACKET_DATA_LENGTH m)) 0 m)))))"

text \<open>The destructor walks over the slots until it has seen all packets, and gives back each run
  of occupied slots with one call.\<close>

fun release_runs :: "nat list \<Rightarrow> int \<Rightarrow> packet list \<Rightarrow> inMessage \<Rightarrow> packet list list" where
  "release_runs [] found run m = (if run \<noteq> [] then [run] else [])"
| "release_runs (i # is) found run m =
     (if found < im_numPackets m then
        case im_packets m i of
          Some p \<Rightarrow> release_runs is (found + 1) (run @ [p]) m
        | None \<Rightarrow> (if run \<noteq> [] then run # release_runs is found [] m else release_runs is found run m)
      else if run \<noteq> [] then [run] else [])"

definition InMessage_destruct :: "inMessage \<Rightarrow> event list" where
  "InMessage_destruct m = map ReleasePackets (release_runs [0..<IM_MAX_MESSAGE_PACKETS] 0 [] m)"

declare get_loop.simps [simp del]

section \<open>Well-formed messages\<close>

definition im_byte :: "driver \<Rightarrow> inMessage \<Rightarrow> nat \<Rightarrow> u8" where
  "im_byte d m k = payload (the (im_packets m (k div pdl d))) ! (sizeof_DataHeader + k mod pdl d)"

text \<open>\<open>im_wf d m\<close>: the lengths agree with the driver's packets, the counter counts the packets,
  and every stored packet is a full buffer.\<close>

definition im_wf :: "driver \<Rightarrow> inMessage \<Rightarrow> bool" where
  "im_wf d m \<longleftrightarrow>
     im_TRANSPORT_HEADER_LENGTH m = int sizeof_DataHeader \<and>
     im_PACKET_DATA_LENGTH m = int (pdl d) \<and>
     0 \<le> im_start m \<and> im_start m \<le> max 0 (im_messageLength m) \<and> in_int32 (im_messageLength m) \<and>
     dom (im_packets m) \<subseteq> {..<IM_MAX_MESSAGE_PACKETS} \<and>
     im_numPackets m = int (card (dom (im_packets m))) \<and>
     (\<forall>i p. im_packets m i = Some p \<longrightarrow> length (payload p) = unat (maxPayloadSize d))"

lemma finite_packets: "im_wf d m \<Longrightarrow> finite (dom (im_packets m))"
  unfolding im_wf_def using finite_subset by blast

lemma im_setPacket_ok:
  assumes "im_wf d m" "0 \<le> i" "i < int IM_MAX_MESSAGE_PACKETS" "length (payload p) = unat (maxPayloadSize d)"
  shows "\<exists>m'. im_setPacket i p m = Inr (im_packets m (nat i) = None, m') \<and> im_wf d m' \<and>
    im_packets m' = (if im_packets m (nat i) = None then (im_packets m)(nat i \<mapsto> p) else im_packets m) \<and>
    (im_packets m (nat i) \<noteq> None \<longrightarrow> m' = m)"
proof (cases "im_packets m (nat i)")
  case None
  then have "nat i \<notin> dom (im_packets m)" by (simp add: domIff)
  then have c: "card (insert (nat i) (dom (im_packets m))) = Suc (card (dom (im_packets m)))"
    using finite_packets [OF assms(1)] by simp
  let ?m = "m\<lparr>im_packets := (im_packets m)(nat i \<mapsto> p), im_numPackets := im_numPackets m + 1\<rparr>"
  have "im_wf d ?m"
    using assms c by (auto simp: im_wf_def nat_less_iff split: if_splits)
  with None assms(2,3) show ?thesis by (simp add: im_setPacket_def)
next
  case (Some q)
  with assms show ?thesis by (simp add: im_setPacket_def)
qed

section \<open>Every packet is given back once\<close>

lemma release_runs_concat:
  assumes "im_numPackets m - found = int (length (filter (\<lambda>i. im_packets m i \<noteq> None) is))"
  shows "concat (release_runs is found run m) = run @ map (\<lambda>i. the (im_packets m i)) (filter (\<lambda>i. im_packets m i \<noteq> None) is)"
  using assms
proof (induction "is" arbitrary: found run)
  case (Cons i "is")
  show ?case
  proof (cases "im_packets m i")
    case None
    with Cons.prems have p: "im_numPackets m - found = int (length (filter (\<lambda>i. im_packets m i \<noteq> None) is))" by simp
    show ?thesis
    proof (cases "found < im_numPackets m")
      case True
      with None Cons.IH [OF p, of "[]"] Cons.IH [OF p, of run] show ?thesis by simp
    next
      case False
      with p have "int (length (filter (\<lambda>i. im_packets m i \<noteq> None) is)) \<le> 0" by linarith
      then have "filter (\<lambda>i. im_packets m i \<noteq> None) is = []" by simp
      with False None show ?thesis by simp
    qed
  next
    case (Some q)
    with Cons.prems have "found < im_numPackets m"
      "im_numPackets m - (found + 1) = int (length (filter (\<lambda>i. im_packets m i \<noteq> None) is))" by simp_all
    with Some Cons.IH [of "found + 1" "run @ [q]"] show ?thesis by simp
  qed
qed simp

lemma InMessage_destruct_all:
  assumes "im_wf d m"
  shows "concat (release_runs [0..<IM_MAX_MESSAGE_PACKETS] 0 [] m) =
    map (\<lambda>i. the (im_packets m i)) (filter (\<lambda>i. im_packets m i \<noteq> None) [0..<IM_MAX_MESSAGE_PACKETS])"
proof -
  have "set (filter (\<lambda>i. im_packets m i \<noteq> None) [0..<IM_MAX_MESSAGE_PACKETS]) = dom (im_packets m)"
    using assms by (auto simp: im_wf_def)
  then have "length (filter (\<lambda>i. im_packets m i \<noteq> None) [0..<IM_MAX_MESSAGE_PACKETS]) = card (dom (im_packets m))"
    by (metis distinct_card distinct_filter distinct_upt)
  with assms release_runs_concat [of m 0 "[0..<IM_MAX_MESSAGE_PACKETS]" "[]"] show ?thesis
    by (simp add: im_wf_def)
qed

section \<open>Reading\<close>

lemma get_loop_done: "cnt \<le> bc \<Longrightarrow> get_loop fuel cnt pi po bc m = Inr []"
  by (subst get_loop.simps) simp

lemma chunk_read:
  assumes "im_wf d m" "driver_ok d" "im_packets m (at div pdl d) = Some p" "at mod pdl d + n \<le> pdl d"
  shows "sizeof_DataHeader + at mod pdl d + n \<le> length (payload p)"
    "take n (drop (sizeof_DataHeader + at mod pdl d) (payload p)) = map (im_byte d m) [at..<at + n]"
proof -
  have len: "length (payload p) = sizeof_DataHeader + pdl d"
    using assms(1,3) pdl_bound [OF assms(2)] by (auto simp: im_wf_def)
  then show room: "sizeof_DataHeader + at mod pdl d + n \<le> length (payload p)" using assms(4) by simp
  have pos: "0 < pdl d" using assms(2) by (rule pdl_pos)
  have "im_byte d m (at + k) = payload p ! (sizeof_DataHeader + at mod pdl d + k)" if "k < n" for k
  proof -
    have lt: "at mod pdl d + k < pdl d" using that assms(4) by linarith
    have e: "at + k = at div pdl d * pdl d + (at mod pdl d + k)" by simp
    have "(at + k) div pdl d = at div pdl d" "(at + k) mod pdl d = at mod pdl d + k"
      using div_mod_parts [OF lt, of "at div pdl d"] unfolding e [symmetric] by blast+
    with assms(3) show ?thesis by (simp add: im_byte_def add.assoc)
  qed
  with room show "take n (drop (sizeof_DataHeader + at mod pdl d) (payload p)) = map (im_byte d m) [at..<at + n]"
    by (intro nth_equalityI) simp_all
qed

lemma get_loop_correct:
  assumes "im_wf d m" "driver_ok d"
  shows "\<lbrakk>fits d at rest pi po; rest \<le> fuel; \<And>k. at \<le> k \<Longrightarrow> k < at + rest \<Longrightarrow> im_packets m (k div pdl d) \<noteq> None\<rbrakk> \<Longrightarrow>
    get_loop fuel (int (c + rest)) pi po (int c) m = Inr (map (im_byte d m) [at..<at + rest])"
proof (induction fuel arbitrary: at rest pi po c)
  case 0
  then show ?case by (simp add: get_loop_done)
next
  case (Suc fuel)
  show ?case
  proof (cases "rest = 0")
    case True
    then show ?thesis by (simp add: get_loop_done)
  next
    case False
    let ?i = "at div pdl d" and ?o = "at mod pdl d"
    define n where "n = min rest (pdl d - ?o)"
    have pos: "0 < pdl d" using assms(2) by (rule pdl_pos)
    from False have rest: "0 < rest" by simp
    note adv = fits_advance [OF pos Suc.prems(1) rest n_def]
    have pi: "pi = int ?i" "po = int ?o" using Suc.prems(1) rest by (simp_all add: fits_def)
    have "at * 1 < MAX_MESSAGE_PACKETS * pdl d" using Suc.prems(1) rest by (simp add: fits_def)
    then have i: "?i < IM_MAX_MESSAGE_PACKETS"
      by (simp add: less_mult_imp_div_less IM_MAX_MESSAGE_PACKETS_def MAX_MESSAGE_PACKETS_def)
    obtain p where p: "im_packets m ?i = Some p" using Suc.prems(3) [of at] rest by auto
    note rd = chunk_read [OF assms p adv(4)]
    have h: "im_TRANSPORT_HEADER_LENGTH m = int sizeof_DataHeader" "im_PACKET_DATA_LENGTH m = int (pdl d)"
      using assms(1) by (simp_all add: im_wf_def)
    have min: "min (int rest) (int (pdl d) - int ?o) = int n"
      using n_def pos by (simp add: int_min_chunk less_imp_le)
    have cr: "c + n + (rest - n) = c + rest" "at + n + (rest - n) = at + rest" using adv(3) by simp_all
    have IH: "get_loop fuel (int (c + rest)) (pi + 1) 0 (int (c + n)) m = Inr (map (im_byte d m) [at + n..<at + rest])"
      using Suc.IH [OF adv(1), of "c + n"] Suc.prems(2,3) adv(2,3) unfolding cr by simp
    have "get_loop (Suc fuel) (int (c + rest)) pi po (int c) m =
        Inr (map (im_byte d m) [at..<at + n] @ map (im_byte d m) [at + n..<at + rest])"
      using rest i p rd IH
      by (subst get_loop.simps) (simp add: pi h min Let_def im_getPacket_def nat_add_distrib add.commute add.left_commute)
    also have "map (im_byte d m) [at..<at + n] @ map (im_byte d m) [at + n..<at + rest] = map (im_byte d m) [at..<at + rest]"
      using adv(3) by (metis map_append upt_add_eq_append le_add1 le_add_diff_inverse add.assoc)
    finally show ?thesis .
  qed
qed

text \<open>The bytes of a message in order, the stripped ones included.\<close>

definition im_buffer :: "driver \<Rightarrow> inMessage \<Rightarrow> bytes" where
  "im_buffer d m = map (im_byte d m) [0..<nat (im_messageLength m)]"

definition im_complete :: "driver \<Rightarrow> inMessage \<Rightarrow> bool" where
  "im_complete d m \<longleftrightarrow> (\<forall>i < packets_for d (nat (im_messageLength m)). im_packets m i \<noteq> None)"

lemma im_complete_byte:
  assumes "driver_ok d" "im_complete d m" "k < nat (im_messageLength m)"
  shows "im_packets m (k div pdl d) \<noteq> None"
proof -
  have "k div pdl d * pdl d < nat (im_messageLength m)"
    using assms(3) le_less_trans [OF div_times_less_eq_dividend] by blast
  then show ?thesis
    using assms(2) packets_for_iff [OF pdl_pos [OF assms(1)]] unfolding im_complete_def by blast
qed

text \<open>Reading a complete message returns the bytes after the stripped ones, as many as there are.\<close>

lemma get_correct:
  assumes d: "driver_ok d" and wf: "im_wf d m" and c: "im_complete d m"
    and len: "0 \<le> im_messageLength m" "nat (im_messageLength m) \<le> MAX_MESSAGE_PACKETS * pdl d"
    and arg: "downCast_int offset = Inr (int off)" "downCast_int cnt = Inr (int n)" "off < 2080374784" "n < 2080374784"
  shows "get offset cnt m = Inr (take n (drop (nat (im_start m) + off) (im_buffer d m)))"
proof -
  define L where "L = nat (im_messageLength m)"
  define S where "S = nat (im_start m)"
  have pos: "0 < pdl d" "pdl d < 65536" using pdl_pos [OF d] pdl_bound [OF d] by auto
  have "MAX_MESSAGE_PACKETS * pdl d < 67108864" using pos(2) by (simp add: MAX_MESSAGE_PACKETS_def)
  then have L: "im_messageLength m = int L" "L < 67108864" "L \<le> MAX_MESSAGE_PACKETS * pdl d"
    using len by (simp_all add: L_def)
  have S: "im_start m = int S" "S \<le> L" using wf len(1) by (auto simp: im_wf_def S_def L_def)
  have pd: "im_PACKET_DATA_LENGTH m = int (pdl d)" using wf by (simp add: im_wf_def)
  have o1: "in_int32 (int off + int S)" using S(2) L(2) arg(3) by (intro in_int32I; linarith)
  show ?thesis
  proof (cases "off + S < L")
    case False
    then have "drop (S + off) (im_buffer d m) = []" by (simp add: im_buffer_def L_def)
    moreover have "get offset cnt m = Inr []"
      using False o1 pos(1) by (simp add: get_def Let_def arg(1,2) S(1) L(1) pd)
    ultimately show ?thesis by (simp add: S_def)
  next
    case True
    define c where "c = min n (L - (off + S))"
    have o2: "in_int32 (int off + int S + int n)" using True L(2) arg(4) by (intro in_int32I; linarith)
    have ci: "(if int off + int S + int n > int L then int L - (int off + int S) else int n) = int c"
      using True by (auto simp: c_def min_def of_nat_diff)
    have "get offset cnt m = get_loop (nat (int c)) (int c) (cdiv (int off + int S) (int (pdl d))) (cmod (int off + int S) (int (pdl d))) 0 m"
      using True o1 o2 pos(1) unfolding get_def Let_def arg(1,2) bindr_Inr S(1) L(1) pd ci by simp
    also have "cdiv (int off + int S) (int (pdl d)) = int ((off + S) div pdl d)"
      using cdiv_int [OF pos(1), of "off + S"] by simp
    also have "cmod (int off + int S) (int (pdl d)) = int ((off + S) mod pdl d)"
      using pos(1) by (simp add: zmod_int)
    finally have g: "get offset cnt m = get_loop c (int (0 + c)) (int ((off + S) div pdl d)) (int ((off + S) mod pdl d)) (int 0) m"
      by simp
    have f: "fits d (off + S) c (int ((off + S) div pdl d)) (int ((off + S) mod pdl d))"
      using L(3) True by (auto simp: fits_def c_def)
    have "im_packets m (k div pdl d) \<noteq> None" if "off + S \<le> k" "k < off + S + c" for k
      using im_complete_byte [OF d assms(3), of k] that True by (simp add: c_def L_def)
    from get_loop_correct [OF wf d f order_refl this, of 0]
    have "get offset cnt m = Inr (map (im_byte d m) [off + S..<off + S + c])" unfolding g .
    also have "map (im_byte d m) [off + S..<off + S + c] = take n (drop (S + off) (im_buffer d m))"
      using True by (intro nth_equalityI) (auto simp: im_buffer_def c_def L_def add.commute)
    finally show ?thesis by (simp add: S_def)
  qed
qed

section \<open>Construction\<close>

lemma ceiling_div_u64:
  assumes "0 < p" "p < 2 ^ 16" "len < 2 ^ 31"
  shows "int_of_u64 ((word_of_int (int len) + word_of_int (int p) - 1) div word_of_int (int p)) =
    int ((len + p - 1) div p)"
proof -
  let ?p = "word_of_int (int p) :: u64" and ?n = "word_of_int (int len) :: u64"
  have p: "unat ?p = p" and n: "unat ?n = len"
    using assms by (simp_all add: unat_of_nat take_bit_nat_eq_self)
  have one: "1 \<le> ?p" using assms(1) p by (simp add: word_le_nat_alt)
  have u: "unat (?p - 1) = p - 1" using one p by (simp add: unat_sub)
  have "unat ?n + unat (?p - 1) < 2 ^ LENGTH(64)" unfolding u n using assms by simp
  then have "unat (?n + (?p - 1)) = len + (p - 1)" using unat_add_lem u n by metis
  then have "unat (?n + ?p - 1) = len + (p - 1)" by (simp only: add_diff_eq)
  then have q: "unat ((?n + ?p - 1) div ?p) = (len + p - 1) div p"
    using p assms(1) by (simp add: unat_div)
  have "(len + p - 1) div p \<le> len"
  proof -
    have "len \<le> len * p" using assms(1) by simp
    then have "len + p - 1 < (len + 1) * p" using assms(1) unfolding add_mult_distrib by linarith
    then have "(len + p - 1) div p < len + 1" by (rule less_mult_imp_div_less)
    then show ?thesis by simp
  qed
  then have small: "unat ((?n + ?p - 1) div ?p) < 2 ^ 31" using q assms(3) by simp
  have "int_of_u64 ((?n + ?p - 1) div ?p) = int (unat ((?n + ?p - 1) div ?p))"
    using downCast_int_small [OF small] by (simp add: downCast_int_def Let_def res_simps)
  then show ?thesis unfolding q .
qed

lemma data_length: "driver_ok d \<Longrightarrow> int_of_u32 (maxPayloadSize d - of_nat sizeof_DataHeader) = int (pdl d)"
proof -
  assume d: "driver_ok d"
  have h: "unat (of_nat sizeof_DataHeader :: u32) = sizeof_DataHeader" by (simp add: sizeof_DataHeader_def)
  then have "of_nat sizeof_DataHeader \<le> maxPayloadSize d"
    using d unfolding word_le_nat_alt by (simp add: driver_ok_def)
  then have "unat (maxPayloadSize d - of_nat sizeof_DataHeader) = pdl d"
    using h by (simp add: unat_sub pdl_def)
  note u = this
  have "pdl d < 2 ^ 31" using pdl_bound [OF d] by simp
  then have "unat (maxPayloadSize d - of_nat sizeof_DataHeader) < 2 ^ 31" unfolding u .
  from int_of_u32_small [OF this] show ?thesis unfolding u .
qed

lemma int_of_u64_of_int:
  assumes "len < 2 ^ 31"
  shows "int_of_u64 (word_of_int (int len)) = int len"
proof -
  have u: "unat (word_of_int (int len) :: u64) = len"
    using assms by (simp add: unat_of_nat take_bit_nat_eq_self)
  then show ?thesis
    using downCast_int_small [of "word_of_int (int len)"] assms by (simp add: downCast_int_def Let_def res_simps)
qed

lemma InMessage_eq:
  assumes "driver_ok d" "len < 2 ^ 31"
  shows "InMessage d sizeof_DataHeader (word_of_int (int len)) msgId src u =
    Inr \<lparr>im_id = msgId, im_source = src, im_TRANSPORT_HEADER_LENGTH = int sizeof_DataHeader,
         im_PACKET_DATA_LENGTH = int (pdl d), numExpectedPackets = int (packets_for d len),
         numUnscheduledPackets = u, im_scheduled = (int (packets_for d len) > u), im_start = 0,
         im_messageLength = int len, im_numPackets = 0, im_packets = Map.empty,
         im_state = RX_IN_PROGRESS, im_info = ScheduledMessageInfo (int len)\<rparr>"
proof -
  have p: "0 < pdl d" "pdl d < 2 ^ 16" using pdl_pos pdl_bound assms(1) by blast+
  show ?thesis
    using p int_of_u64_of_int [OF assms(2)] ceiling_div_u64 [OF p assms(2)] data_length [OF assms(1)]
    unfolding InMessage_def packets_for_def by (simp add: Let_def)
qed

end
