(* ===== verification/Receiver.thy ===== *)
theory Receiver
  imports In_Message ObjectPool Policy Timeout
begin

text \<open>
  \<open>Receiver\<close> of src/Receiver.h and src/Receiver.cc: the messages being received, their timeouts,
  the schedule of the messages that need grants, and the queue of complete messages. A message
  is an address of \<open>r_heap\<close>, a peer is its IP address, the key of \<open>peerTable\<close>. Each operation
  runs under the locks its C++ body takes, so it is one atomic step here. \<open>tsc\<close> holds the values
  an operation reads from the time stamp counter, in the order of the code.
\<close>

record rbucket =
  rb_messages :: "addr list"
  rb_messageTimeouts :: "addr timeout_manager"
  resendTimeouts :: "addr timeout_manager"

record receiver =
  r_driver :: driver
  r_policyManager :: policy_manager
  r_messageBuckets :: "nat \<Rightarrow> rbucket"
  peerTable :: "ipAddress \<rightharpoonup> addr list"
  scheduledPeers :: "ipAddress list"
  receivedMessages :: "addr list"
  granting :: bool
  r_nextBucketIndex :: u32
  r_messageAllocator :: object_pool
  r_heap :: "addr \<rightharpoonup> inMessage"
  r_events :: "event list"

definition R_HASH_KEY_MASK :: u32 where "R_HASH_KEY_MASK = 0xFF"
definition R_NUM_BUCKETS :: nat where "R_NUM_BUCKETS = 256"

definition R_MessageBucket :: "u64 \<Rightarrow> u64 \<Rightarrow> rbucket" where
  "R_MessageBucket messageTimeoutCycles resendIntervalCycles =
     \<lparr>rb_messages = [], rb_messageTimeouts = TimeoutManager messageTimeoutCycles,
      resendTimeouts = TimeoutManager resendIntervalCycles\<rparr>"

definition Receiver :: "driver \<Rightarrow> policy_manager \<Rightarrow> u64 \<Rightarrow> u64 \<Rightarrow> receiver" where
  "Receiver d pm messageTimeoutCycles resendIntervalCycles =
     \<lparr>r_driver = d, r_policyManager = pm,
      r_messageBuckets = (\<lambda>_. R_MessageBucket messageTimeoutCycles resendIntervalCycles),
      peerTable = Map.empty, scheduledPeers = [], receivedMessages = [], granting = False,
      r_nextBucketIndex = 0, r_messageAllocator = ObjectPool, r_heap = Map.empty, r_events = []\<rparr>"

section \<open>Access to messages, buckets and peers\<close>

definition r_getBucket :: "messageId \<Rightarrow> nat" where
  "r_getBucket msgId = unat (ucast (Hasher msgId AND ucast R_HASH_KEY_MASK) :: u32)"

definition r_deref :: "addr \<Rightarrow> receiver \<Rightarrow> inMessage res" where
  "r_deref a r = (case r_heap r a of None \<Rightarrow> Inl NullDereference | Some m \<Rightarrow> Inr m)"

fun r_find_in :: "messageId \<Rightarrow> addr list \<Rightarrow> receiver \<Rightarrow> addr option res" where
  "r_find_in msgId [] r = Inr None"
| "r_find_in msgId (a # as) r =
     bindr (r_deref a r) (\<lambda>m. if messageId_eq (im_id m) msgId then Inr (Some a) else r_find_in msgId as r)"

definition r_findMessage :: "messageId \<Rightarrow> rbucket \<Rightarrow> receiver \<Rightarrow> addr option res" where
  "r_findMessage msgId b r = r_find_in msgId (rb_messages b) r"

definition r_upd_message :: "addr \<Rightarrow> (inMessage \<Rightarrow> inMessage) \<Rightarrow> receiver \<Rightarrow> receiver" where
  "r_upd_message a f r = r\<lparr>r_heap := (r_heap r)(a := map_option f (r_heap r a))\<rparr>"

definition r_upd_info :: "addr \<Rightarrow> (scheduledMessageInfo \<Rightarrow> scheduledMessageInfo) \<Rightarrow> receiver \<Rightarrow> receiver" where
  "r_upd_info a f = r_upd_message a (\<lambda>m. m\<lparr>im_info := f (im_info m)\<rparr>)"

definition r_upd_bucket :: "nat \<Rightarrow> (rbucket \<Rightarrow> rbucket) \<Rightarrow> receiver \<Rightarrow> receiver" where
  "r_upd_bucket i f r = r\<lparr>r_messageBuckets := (r_messageBuckets r)(i := f (r_messageBuckets r i))\<rparr>"

definition set_messageTimeout :: "nat \<Rightarrow> addr \<Rightarrow> u64 \<Rightarrow> receiver \<Rightarrow> receiver" where
  "set_messageTimeout i a t =
     r_upd_bucket i (\<lambda>b. b\<lparr>rb_messageTimeouts := setTimeout t a (rb_messageTimeouts b)\<rparr>)"

definition cancel_messageTimeout :: "nat \<Rightarrow> addr \<Rightarrow> receiver \<Rightarrow> receiver" where
  "cancel_messageTimeout i a =
     r_upd_bucket i (\<lambda>b. b\<lparr>rb_messageTimeouts := cancelTimeout a (rb_messageTimeouts b)\<rparr>)"

definition set_resendTimeout :: "nat \<Rightarrow> addr \<Rightarrow> u64 \<Rightarrow> receiver \<Rightarrow> receiver" where
  "set_resendTimeout i a t =
     r_upd_bucket i (\<lambda>b. b\<lparr>resendTimeouts := setTimeout t a (resendTimeouts b)\<rparr>)"

definition cancel_resendTimeout :: "nat \<Rightarrow> addr \<Rightarrow> receiver \<Rightarrow> receiver" where
  "cancel_resendTimeout i a =
     r_upd_bucket i (\<lambda>b. b\<lparr>resendTimeouts := cancelTimeout a (resendTimeouts b)\<rparr>)"

definition r_emit :: "event list \<Rightarrow> receiver \<Rightarrow> receiver" where
  "r_emit es r = r\<lparr>r_events := r_events r @ es\<rparr>"

definition r_release :: "packet \<Rightarrow> receiver \<Rightarrow> receiver" where
  "r_release p = r_emit [ReleasePackets [p]]"

definition peer_messages :: "receiver \<Rightarrow> ipAddress \<Rightarrow> addr list" where
  "peer_messages r ip = (case peerTable r ip of None \<Rightarrow> [] | Some as \<Rightarrow> as)"

definition set_peer :: "ipAddress \<Rightarrow> addr list \<Rightarrow> receiver \<Rightarrow> receiver" where
  "set_peer ip as r = r\<lparr>peerTable := (peerTable r)(ip \<mapsto> as)\<rparr>"

section \<open>The schedule\<close>

text \<open>\<open>ScheduledMessageInfo::ComparePriority\<close> compares the bytes that are missing;
  \<open>Peer::ComparePriority\<close> compares the first messages of two peers.\<close>

definition remaining_of :: "receiver \<Rightarrow> addr \<Rightarrow> int" where
  "remaining_of r a = (case r_heap r a of None \<Rightarrow> 0 | Some m \<Rightarrow> bytesRemaining (im_info m))"

definition r_ComparePriority :: "receiver \<Rightarrow> addr \<Rightarrow> addr \<Rightarrow> bool" where
  "r_ComparePriority r a b \<longleftrightarrow> remaining_of r a < remaining_of r b"

definition Peer_ComparePriority :: "receiver \<Rightarrow> ipAddress \<Rightarrow> ipAddress \<Rightarrow> bool" where
  "Peer_ComparePriority r p q \<longleftrightarrow>
     r_ComparePriority r (hd (peer_messages r p)) (hd (peer_messages r q))"

text \<open>The comparison of peers asserts that both have messages. \<open>peers_comparable\<close> is that assertion
  for the comparisons of a peer with the ones it is compared with: those it overtakes and the
  one at which it stops.\<close>

definition peers_comparable :: "receiver \<Rightarrow> ipAddress \<Rightarrow> ipAddress list \<Rightarrow> bool" where
  "peers_comparable r ip others \<longleftrightarrow>
     others = [] \<or> (\<forall>p \<in> set (ip # others). peer_messages r p \<noteq> [])"

definition compared :: "('a \<Rightarrow> bool) \<Rightarrow> 'a list \<Rightarrow> 'a list" where
  "compared P xs = takeWhile P xs @ take 1 (dropWhile P xs)"

definition prioritize_peer :: "ipAddress \<Rightarrow> receiver \<Rightarrow> receiver res" where
  "prioritize_peer ip r =
     require AssertionFailed (ip \<in> set (scheduledPeers r))
     (require AssertionFailed
        (peers_comparable r ip (compared (Peer_ComparePriority r ip) (rev (before ip (scheduledPeers r)))))
       (Inr (r\<lparr>scheduledPeers := prioritize_seq (Peer_ComparePriority r) ip (scheduledPeers r)\<rparr>)))"

definition deprioritize_peer :: "ipAddress \<Rightarrow> receiver \<Rightarrow> receiver res" where
  "deprioritize_peer ip r =
     require AssertionFailed (ip \<in> set (scheduledPeers r))
     (require AssertionFailed
        (peers_comparable r ip (compared (\<lambda>p. \<not> Peer_ComparePriority r ip p) (after ip (scheduledPeers r))))
       (Inr (r\<lparr>scheduledPeers := deprioritize_seq (Peer_ComparePriority r) ip (scheduledPeers r)\<rparr>)))"

text \<open>\<open>schedule\<close> is called for a message that was just constructed, so its node is not linked.\<close>

definition schedule :: "addr \<Rightarrow> receiver \<Rightarrow> receiver res" where
  "schedule a r =
     bindr (r_deref a r) (\<lambda>m.
     let ip = sa_ip (im_source m)
     in require AssertionFailed (a \<notin> set (peer_messages r ip))
        (let as = deprioritize_seq (r_ComparePriority r) a (a # peer_messages r ip);
             r1 = r_upd_info a (\<lambda>q. q\<lparr>si_peer := Some ip\<rparr>) (set_peer ip as r)
         in if ip \<notin> set (scheduledPeers r1)
            then require AssertionFailed (length as = 1)
                   (deprioritize_peer ip (r1\<lparr>scheduledPeers := ip # scheduledPeers r1\<rparr>))
            else if hd as = a then prioritize_peer ip r1
            else Inr r1))"

text \<open>The iterator of the peer is taken first. The peer keeps its place when it is last or its
  successor does not compare less.\<close>

definition unschedule :: "addr \<Rightarrow> receiver \<Rightarrow> receiver res" where
  "unschedule a r =
     bindr (r_deref a r) (\<lambda>m.
     case si_peer (im_info m) of
       None \<Rightarrow> Inl AssertionFailed
     | Some ip \<Rightarrow>
         require AssertionFailed (a \<in> set (peer_messages r ip))
         (let as = remove1 a (peer_messages r ip);
              r1 = r_upd_info a (\<lambda>q. q\<lparr>si_peer := None\<rparr>) (set_peer ip as r)
          in require AssertionFailed (ip \<in> set (scheduledPeers r1))
             (if as = [] then Inr (r1\<lparr>scheduledPeers := remove1 ip (scheduledPeers r1)\<rparr>)
              else case next_in ip (scheduledPeers r1) of
                None \<Rightarrow> Inr r1
              | Some ip' \<Rightarrow>
                  require AssertionFailed (peer_messages r1 ip' \<noteq> [])
                    (if \<not> Peer_ComparePriority r1 ip' ip then Inr r1 else deprioritize_peer ip r1))))"

definition updateSchedule :: "addr \<Rightarrow> receiver \<Rightarrow> receiver res" where
  "updateSchedule a r =
     bindr (r_deref a r) (\<lambda>m.
     case si_peer (im_info m) of
       None \<Rightarrow> Inl AssertionFailed
     | Some ip \<Rightarrow>
         require AssertionFailed (a \<in> set (peer_messages r ip))
         (let as = prioritize_seq (r_ComparePriority r) a (peer_messages r ip);
              r1 = set_peer ip as r
          in if hd as = a then prioritize_peer ip r1 else Inr r1))"

text \<open>\<open>unschedule\<close> as the callers use it: only for a message that is linked to a peer.\<close>

definition unschedule_if :: "addr \<Rightarrow> inMessage \<Rightarrow> receiver \<Rightarrow> receiver res" where
  "unschedule_if a m r =
     (if im_scheduled m \<and> si_peer (im_info m) \<noteq> None then unschedule a r else Inr r)"

section \<open>Incoming packets\<close>

text \<open>The first packet of a message creates it.\<close>

definition new_message :: "dataHeader \<Rightarrow> ipAddress \<Rightarrow> nat \<Rightarrow> receiver \<Rightarrow> (addr \<times> receiver) res" where
  "new_message header sourceIp i r =
     (let messageLength = int_of_u32 (totalLength header);
          unscheduledPackets = uint (unscheduledIndexLimit header);
          srcAddress = \<lparr>sa_ip = sourceIp, sa_port = be16toh (sport (prefix (dh_common header)))\<rparr>
      in bindr (pool_construct (r_messageAllocator r)) (\<lambda>(a, pool).
         bindr (InMessage (r_driver r) sizeof_DataHeader (word_of_int messageLength)
                  (hmessageId (dh_common header)) srcAddress unscheduledPackets) (\<lambda>m.
         let r1 = r_emit [PerfAdd allocated_rx_messages 1]
                    (r\<lparr>r_messageAllocator := pool, r_heap := (r_heap r)(a \<mapsto> m)\<rparr>);
             r2 = (r_upd_bucket i (\<lambda>b. b\<lparr>rb_messages := rb_messages b @ [a]\<rparr>) r1)
                    \<lparr>r_policyManager := signalNewMessage sourceIp (policyVersion header)
                       (totalLength header) (r_policyManager r1)\<rparr>
         in bindr (if im_scheduled m then schedule a r2 else Inr r2) (\<lambda>r3. Inr (a, r3)))))"

text \<open>What a new packet changes: the schedule of a scheduled message, the timeouts and, with the
  last packet, the state and the queue of received messages.\<close>

definition packet_scheduled :: "packet \<Rightarrow> addr \<Rightarrow> inMessage \<Rightarrow> receiver \<Rightarrow> receiver res" where
  "packet_scheduled packet a m r =
     (if im_scheduled m \<and> si_peer (im_info m) \<noteq> None
      then
        let packetDataBytes = plength packet - im_TRANSPORT_HEADER_LENGTH m
        in require AssertionFailed (bytesRemaining (im_info m) \<ge> packetDataBytes)
             (updateSchedule a (r_upd_info a (\<lambda>q. q\<lparr>bytesRemaining := bytesRemaining q - packetDataBytes\<rparr>) r))
      else Inr r)"

definition complete_message :: "nat \<Rightarrow> addr \<Rightarrow> receiver \<Rightarrow> receiver res" where
  "complete_message i a r =
     (let r1 = cancel_resendTimeout i a (r_upd_message a (\<lambda>m. m\<lparr>im_state := RX_COMPLETED\<rparr>) r)
      in require AssertionFailed (a \<notin> set (receivedMessages r1))
           (Inr (r_emit [PerfAdd received_rx_messages 1] (r1\<lparr>receivedMessages := receivedMessages r1 @ [a]\<rparr>))))"

definition handleDataPacket :: "(nat \<Rightarrow> u64) \<Rightarrow> packet \<Rightarrow> ipAddress \<Rightarrow> receiver \<Rightarrow> receiver res" where
  "handleDataPacket tsc packet sourceIp r =
     (let header = decode_data (payload packet);
          msgId = hmessageId (dh_common header);
          i = r_getBucket msgId
      in bindr (r_findMessage msgId (r_messageBuckets r i) r) (\<lambda>found.
         bindr (case found of Some a \<Rightarrow> Inr (a, r) | None \<Rightarrow> new_message header sourceIp i r) (\<lambda>(a, r1).
         bindr (r_deref a r1) (\<lambda>m.
         require AssertionFailed (messageId_eq msgId (im_id m))
         (require AssertionFailed (ip_eq (sa_ip (im_source m)) sourceIp)
         (require AssertionFailed (sa_port (im_source m) = be16toh (sport (prefix (dh_common header))))
         (require AssertionFailed (im_messageLength m = int_of_u32 (totalLength header))
         (bindr (im_setPacket (uint (dh_index header)) packet m) (\<lambda>(packetAdded, m1).
          if packetAdded then
            bindr (packet_scheduled packet a m1 (r_upd_message a (\<lambda>_. m1) r1)) (\<lambda>r2.
            let r3 = set_messageTimeout i a (tsc 0) r2
            in if im_numPackets m1 < numExpectedPackets m1
               then Inr (set_resendTimeout i a (tsc 1) r3)
               else complete_message i a r3)
          else Inr (r_release packet r1))))))))))"

definition handleBusyPacket :: "(nat \<Rightarrow> u64) \<Rightarrow> packet \<Rightarrow> receiver \<Rightarrow> receiver res" where
  "handleBusyPacket tsc packet r =
     (let msgId = hmessageId (decode_common (payload packet)); i = r_getBucket msgId
      in bindr (r_findMessage msgId (r_messageBuckets r i) r) (\<lambda>found.
         case found of
           None \<Rightarrow> Inr (r_release packet r)
         | Some a \<Rightarrow>
             bindr (r_deref a r) (\<lambda>m.
             let r1 = set_messageTimeout i a (tsc 0) r
             in Inr (r_release packet
                  (if im_state m = RX_IN_PROGRESS then set_resendTimeout i a (tsc 1) r1 else r1)))))"

text \<open>The constructor of the header takes the priority as \<open>uint8_t\<close>.\<close>

definition grant_header :: "messageId \<Rightarrow> int \<Rightarrow> int \<Rightarrow> bytes" where
  "grant_header msgId limit prio = encode_grant (GrantHeader msgId (word_of_int limit) (word_of_int prio))"

definition handlePingPacket :: "(nat \<Rightarrow> u64) \<Rightarrow> packet \<Rightarrow> ipAddress \<Rightarrow> receiver \<Rightarrow> receiver res" where
  "handlePingPacket tsc packet sourceIp r =
     (let msgId = hmessageId (decode_common (payload packet)); i = r_getBucket msgId
      in bindr (r_findMessage msgId (r_messageBuckets r i) r) (\<lambda>found.
         case found of
           Some a \<Rightarrow>
             bindr (r_deref a r) (\<lambda>m.
             let r1 = set_messageTimeout i a (tsc 0) r;
                 granted = (if im_scheduled m then bytesGranted (im_info m) else 0);
                 prio = (if im_scheduled m then si_priority (im_info m) else 0)
             in Inr (r_release packet
                  (r_emit (PerfAdd tx_grant_pkts 1 #
                           ControlPacket_send (r_driver r) (sa_ip (im_source m))
                             (grant_header (im_id m) granted prio)) r1)))
         | None \<Rightarrow>
             Inr (r_release packet
               (r_emit (PerfAdd tx_unknown_pkts 1 #
                        ControlPacket_send (r_driver r) sourceIp (encode_common (UnknownHeader msgId))) r))))"

section \<open>Requests of the application\<close>

definition receiveMessage :: "receiver \<Rightarrow> addr option \<times> receiver" where
  "receiveMessage r =
     (case receivedMessages r of
        [] \<Rightarrow> (None, r)
      | a # as \<Rightarrow> (Some a, r_emit [PerfAdd delivered_rx_messages 1] (r\<lparr>receivedMessages := as\<rparr>)))"

definition acknowledge :: "addr \<Rightarrow> receiver \<Rightarrow> receiver res" where
  "acknowledge a r =
     bindr (r_deref a r) (\<lambda>m.
       Inr (r_emit (PerfAdd tx_done_pkts 1 #
              ControlPacket_send (r_driver r) (sa_ip (im_source m)) (encode_common (DoneHeader (im_id m)))) r))"

definition r_fail :: "addr \<Rightarrow> receiver \<Rightarrow> receiver res" where
  "r_fail a r =
     bindr (r_deref a r) (\<lambda>m.
       Inr (r_emit (PerfAdd tx_error_pkts 1 #
              ControlPacket_send (r_driver r) (sa_ip (im_source m)) (encode_common (ErrorHeader (im_id m)))) r))"

text \<open>\<open>pool.destroy(message)\<close> runs the destructor of the message, then those of its nodes, which
  assert that the message is in no list; the callers have taken it out of its bucket, the
  timeouts and the schedule, which leaves the queue of received messages.\<close>

definition r_destroy :: "addr \<Rightarrow> receiver \<Rightarrow> receiver res" where
  "r_destroy a r =
     bindr (r_deref a r) (\<lambda>m.
     bindr (pool_destroy a (r_messageAllocator r)) (\<lambda>pool.
     require AssertionFailed (a \<notin> set (receivedMessages r))
       (Inr (r_emit (InMessage_destruct m)
              (r\<lparr>r_messageAllocator := pool, r_heap := (r_heap r)(a := None)\<rparr>)))))"

definition r_remove_message :: "nat \<Rightarrow> addr \<Rightarrow> receiver \<Rightarrow> receiver" where
  "r_remove_message i a = r_upd_bucket i (\<lambda>b. b\<lparr>rb_messages := remove1 a (rb_messages b)\<rparr>)"

definition dropMessage :: "addr \<Rightarrow> receiver \<Rightarrow> receiver res" where
  "dropMessage a r =
     bindr (r_deref a r) (\<lambda>m.
     let i = r_getBucket (im_id m)
     in bindr (r_findMessage (im_id m) (r_messageBuckets r i) r) (\<lambda>found.
        case found of
          None \<Rightarrow> Inr r
        | Some a' \<Rightarrow>
            require AssertionFailed (a = a')
            (bindr (unschedule_if a m (cancel_resendTimeout i a (cancel_messageTimeout i a r))) (\<lambda>r1.
             bindr (r_destroy a (r_remove_message i a r1)) (\<lambda>r2.
             Inr (r_emit [PerfAdd destroyed_rx_messages 1] r2))))))"

text \<open>The reading operations of the application.\<close>

definition message_read :: "(inMessage \<Rightarrow> 'b res) \<Rightarrow> addr \<Rightarrow> receiver \<Rightarrow> 'b res" where
  "message_read f a r = bindr (r_deref a r) f"

definition message_strip :: "u64 \<Rightarrow> addr \<Rightarrow> receiver \<Rightarrow> receiver res" where
  "message_strip cnt a r =
     bindr (r_deref a r) (\<lambda>m. bindr (strip cnt m) (\<lambda>m'. Inr (r_upd_message a (\<lambda>_. m') r)))"

section \<open>Timeouts\<close>

definition r_expire_message :: "nat \<Rightarrow> addr \<Rightarrow> inMessage \<Rightarrow> receiver \<Rightarrow> receiver res" where
  "r_expire_message i a m r =
     (let r1 = cancel_resendTimeout i a (cancel_messageTimeout i a r)
      in if im_state m = RX_IN_PROGRESS
         then bindr (unschedule_if a m r1) (\<lambda>r2. r_destroy a (r_remove_message i a r2))
         else Inr (r_upd_message a (\<lambda>m. m\<lparr>im_state := RX_DROPPED\<rparr>) r1))"

text \<open>Every round removes the front of the list, so the length of the list bounds the rounds.\<close>

fun r_message_timeouts_loop :: "nat \<Rightarrow> u64 \<Rightarrow> nat \<Rightarrow> receiver \<Rightarrow> receiver res" where
  "r_message_timeouts_loop fuel now i r =
     (case tm_front (rb_messageTimeouts (r_messageBuckets r i)) of
        None \<Rightarrow> Inr r
      | Some a \<Rightarrow>
          if \<not> hasElapsed now a (rb_messageTimeouts (r_messageBuckets r i)) then Inr r
          else case fuel of
            0 \<Rightarrow> Inl OutOfFuel
          | Suc fuel' \<Rightarrow>
              bindr (r_deref a r) (\<lambda>m.
              bindr (r_expire_message i a m r) (r_message_timeouts_loop fuel' now i)))"

definition r_checkMessageTimeouts :: "u64 \<Rightarrow> nat \<Rightarrow> receiver \<Rightarrow> receiver res" where
  "r_checkMessageTimeouts now i r =
     (if \<not> anyElapsed now (rb_messageTimeouts (r_messageBuckets r i)) then Inr r
      else r_message_timeouts_loop (length (tlist (rb_messageTimeouts (r_messageBuckets r i)))) now i r)"

text \<open>One RESEND request for \<open>num\<close> packets from \<open>index\<close>.\<close>

definition send_resend :: "driver \<Rightarrow> inMessage \<Rightarrow> int \<Rightarrow> int \<Rightarrow> event list res" where
  "send_resend d m index num =
     bindr (downCast_u16 index) (\<lambda>ix.
     bindr (downCast_u16 num) (\<lambda>n.
       Inr (PerfAdd tx_resend_pkts 1 #
            ControlPacket_send d (sa_ip (im_source m))
              (encode_resend (ResendHeader (im_id m) ix n (word_of_int (si_priority (im_info m))))))))"

text \<open>The scan for runs of missing packets.\<close>

fun resend_scan :: "int list \<Rightarrow> int \<Rightarrow> int \<Rightarrow> driver \<Rightarrow> inMessage \<Rightarrow> event list res" where
  "resend_scan [] index num d m = (if num \<noteq> 0 then send_resend d m index num else Inr [])"
| "resend_scan (i # is) index num d m =
     bindr (im_getPacket i m) (\<lambda>q. case q of
       None \<Rightarrow> resend_scan is (if num = 0 then i else index) (num + 1) d m
     | Some _ \<Rightarrow>
         if num \<noteq> 0
         then bindr (send_resend d m index num) (\<lambda>es.
              bindr (resend_scan is index 0 d m) (\<lambda>es'. Inr (es @ es')))
         else resend_scan is index num d m)"

text \<open>The limit below which packets are asked for; \<open>None\<close> when the sender waits for a grant.\<close>

definition resend_limit :: "inMessage \<Rightarrow> int option res" where
  "resend_limit m =
     (let grantIndexLimit = numUnscheduledPackets m; info = im_info m;
          receivedBytes = si_messageLength info - bytesRemaining info
      in if im_scheduled m then
           if receivedBytes \<ge> bytesGranted info then Inr None
           else require SignedOverflow (in_int32 (grantIndexLimit * im_PACKET_DATA_LENGTH m))
             (if grantIndexLimit * im_PACKET_DATA_LENGTH m < bytesGranted info
              then require SignedOverflow (in_int32 (bytesGranted info + im_PACKET_DATA_LENGTH m))
                   (require DivideByZero (im_PACKET_DATA_LENGTH m \<noteq> 0)
                     (Inr (Some (cdiv (bytesGranted info + im_PACKET_DATA_LENGTH m - 1) (im_PACKET_DATA_LENGTH m)))))
              else Inr (Some grantIndexLimit))
         else Inr (Some grantIndexLimit))"

definition resend_message :: "u64 \<Rightarrow> nat \<Rightarrow> addr \<Rightarrow> inMessage \<Rightarrow> receiver \<Rightarrow> receiver res" where
  "resend_message t i a m r =
     require AssertionFailed (im_state m = RX_IN_PROGRESS)
     (let r1 = set_resendTimeout i a t r
      in bindr (resend_limit m) (\<lambda>limit.
         case limit of
           None \<Rightarrow> Inr r1
         | Some n \<Rightarrow>
             bindr (resend_scan (map int [0..<nat n]) 0 0 (r_driver r) m) (\<lambda>es. Inr (r_emit es r1))))"

fun resend_timeouts_loop :: "nat \<Rightarrow> (nat \<Rightarrow> u64) \<Rightarrow> u64 \<Rightarrow> nat \<Rightarrow> receiver \<Rightarrow> receiver res" where
  "resend_timeouts_loop fuel tsc now i r =
     (case tm_front (resendTimeouts (r_messageBuckets r i)) of
        None \<Rightarrow> Inr r
      | Some a \<Rightarrow>
          if \<not> hasElapsed now a (resendTimeouts (r_messageBuckets r i)) then Inr r
          else case fuel of
            0 \<Rightarrow> Inl OutOfFuel
          | Suc fuel' \<Rightarrow>
              bindr (r_deref a r) (\<lambda>m.
              bindr (resend_message (tsc 0) i a m r) (resend_timeouts_loop fuel' (\<lambda>j. tsc (Suc j)) now i)))"

definition checkResendTimeouts :: "(nat \<Rightarrow> u64) \<Rightarrow> u64 \<Rightarrow> nat \<Rightarrow> receiver \<Rightarrow> receiver res" where
  "checkResendTimeouts tsc now i r =
     (if \<not> anyElapsed now (resendTimeouts (r_messageBuckets r i)) then Inr r
      else resend_timeouts_loop (length (tlist (resendTimeouts (r_messageBuckets r i)))) tsc now i r)"

definition r_checkTimeouts :: "(nat \<Rightarrow> u64) \<Rightarrow> receiver \<Rightarrow> receiver res" where
  "r_checkTimeouts tsc r =
     (let index = unat (r_nextBucketIndex r AND R_HASH_KEY_MASK);
          r1 = r\<lparr>r_nextBucketIndex := r_nextBucketIndex r + 1\<rparr>;
          now = tsc 0
      in bindr (checkResendTimeouts (\<lambda>j. tsc (Suc j)) now index r1) (r_checkMessageTimeouts now index))"

section \<open>Grants\<close>

text \<open>One round of the loop of \<open>trySendGrants\<close> for the first message \<open>a\<close> of a peer: the priority
  of its slot and, when too few bytes are granted and not received, a GRANT.\<close>

definition grant_message ::
  "scheduled \<Rightarrow> int \<Rightarrow> int \<Rightarrow> addr \<Rightarrow> inMessage \<Rightarrow> receiver \<Rightarrow> (bool \<times> receiver) res" where
  "grant_message policy unusedPriorities slot a m r =
     (let prio = max 0 (maxScheduledPriority policy - slot - unusedPriorities);
          info = im_info m;
          r1 = r_upd_info a (\<lambda>q. q\<lparr>si_priority := prio\<rparr>) r;
          receivedBytes = si_messageLength info - bytesRemaining info
      in if bytesGranted info - receivedBytes < minScheduledBytes policy
         then require SignedOverflow (in_int32 (receivedBytes + maxScheduledBytes policy))
           (let newGrantLimit = min (receivedBytes + maxScheduledBytes policy) (si_messageLength info)
            in require AssertionFailed (newGrantLimit \<ge> bytesGranted info)
               (bindr (downCast_u32 newGrantLimit) (\<lambda>_.
                Inr (True, r_emit (PerfAdd tx_grant_pkts 1 #
                       ControlPacket_send (r_driver r) (sa_ip (im_source m))
                         (grant_header (im_id m) newGrantLimit prio))
                       (r_upd_info a (\<lambda>q. q\<lparr>bytesGranted := newGrantLimit\<rparr>) r1)))))
         else Inr (False, r1))"

text \<open>\<open>timer\<close> is the time of the last split of \<open>Perf::Timer\<close>; a split reads the counter once.\<close>

definition split_timer :: "bool \<Rightarrow> (nat \<Rightarrow> u64) \<Rightarrow> u64 \<Rightarrow> receiver \<Rightarrow> (nat \<Rightarrow> u64) \<times> u64 \<times> receiver" where
  "split_timer do_split tsc timer r =
     (if do_split
      then let (cycles, timer') = Timer_split (tsc 0) timer
           in (\<lambda>j. tsc (Suc j), timer', r_emit [PerfAdd active_cycles cycles] r)
      else (tsc, timer, r))"

fun grant_loop ::
  "nat \<Rightarrow> ipAddress option \<Rightarrow> int \<Rightarrow> scheduled \<Rightarrow> int \<Rightarrow> (nat \<Rightarrow> u64) \<Rightarrow> u64 \<Rightarrow> receiver \<Rightarrow> receiver res" where
  "grant_loop fuel it slot policy unusedPriorities tsc timer r =
     (case it of
        None \<Rightarrow> Inr r
      | Some ip \<Rightarrow>
          if slot < degreeOvercommitment policy then
            case fuel of
              0 \<Rightarrow> Inl OutOfFuel
            | Suc fuel' \<Rightarrow>
                (case peer_messages r ip of
                   [] \<Rightarrow> Inl AssertionFailed
                 | a # _ \<Rightarrow>
                     bindr (r_deref a r) (\<lambda>m.
                     bindr (grant_message policy unusedPriorities slot a m r) (\<lambda>(granted, r1).
                     let (tsc1, timer1, r2) = split_timer granted tsc timer r1;
                         it' = next_in ip (scheduledPeers r2)
                     in bindr (r_deref a r2) (\<lambda>m1.
                        let finished = (si_messageLength (im_info m1) \<le> bytesGranted (im_info m1))
                        in bindr (if finished then unschedule a r2 else Inr r2) (\<lambda>r3.
                           let (tsc2, timer2, r4) = split_timer finished tsc1 timer1 r3
                           in grant_loop fuel' it' (slot + 1) policy unusedPriorities tsc2 timer2 r4)))))
          else Inr r)"

definition trySendGrants :: "(nat \<Rightarrow> u64) \<Rightarrow> receiver \<Rightarrow> receiver res" where
  "trySendGrants tsc r =
     (if granting r then Inr r
      else if scheduledPeers r = [] then Inr (r\<lparr>granting := False\<rparr>)
      else
        let policy = getScheduledPolicy (r_policyManager r)
        in require AssertionFailed (degreeOvercommitment policy > maxScheduledPriority policy)
           (require AssertionFailed (minScheduledBytes policy \<le> minScheduledBytes policy)
           (bindr (downCast_int (of_nat (length (scheduledPeers r)))) (\<lambda>numPeers.
            let unusedPriorities = max 0 ((maxScheduledPriority policy + 1) - numPeers)
            in bindr (grant_loop (nat (degreeOvercommitment policy)) (Some (hd (scheduledPeers r))) 0 policy
                        unusedPriorities (\<lambda>j. tsc (Suc j)) (tsc 0) (r\<lparr>granting := True\<rparr>)) (\<lambda>r1.
               Inr (r1\<lparr>granting := False\<rparr>))))))"

definition receiver_poll :: "(nat \<Rightarrow> u64) \<Rightarrow> (nat \<Rightarrow> u64) \<Rightarrow> receiver \<Rightarrow> receiver res" where
  "receiver_poll tsc1 tsc2 r = bindr (trySendGrants tsc1 r) (r_checkTimeouts tsc2)"

section \<open>Destruction of the receiver\<close>

fun destruct_bucket :: "nat \<Rightarrow> addr list \<Rightarrow> receiver \<Rightarrow> receiver res" where
  "destruct_bucket i [] r = Inr r"
| "destruct_bucket i (a # as) r =
     bindr (r_destroy a (r_remove_message i a (cancel_resendTimeout i a (cancel_messageTimeout i a r))))
       (destruct_bucket i as)"

fun destruct_buckets :: "nat list \<Rightarrow> receiver \<Rightarrow> receiver res" where
  "destruct_buckets [] r = Inr r"
| "destruct_buckets (i # is) r =
     bindr (destruct_bucket i (rb_messages (r_messageBuckets r i)) r) (destruct_buckets is)"

definition Receiver_destruct :: "receiver \<Rightarrow> receiver res" where
  "Receiver_destruct r =
     destruct_buckets [0..<R_NUM_BUCKETS]
       (r\<lparr>scheduledPeers := [], peerTable := Map.empty, receivedMessages := []\<rparr>)"

declare r_message_timeouts_loop.simps [simp del] resend_timeouts_loop.simps [simp del]
  grant_loop.simps [simp del]

end
