(* ===== verification/Receiver_Schedule.thy ===== *)
theory Receiver_Schedule
  imports Receiver
begin

text \<open>
  The schedule of the receiver: per peer the messages that need grants, and the peers that have
  such messages, both with the fewest missing bytes first. \<open>sched_ok\<close> says so of the components
  of the state the schedule consists of; \<open>schedule\<close>, \<open>unschedule\<close> and \<open>updateSchedule\<close> never fail
  on a consistent schedule, keep it consistent and change nothing else.
\<close>

definition rkey :: "(addr \<rightharpoonup> inMessage) \<Rightarrow> addr \<Rightarrow> int" where
  "rkey H a = (case H a of None \<Rightarrow> 0 | Some m \<Rightarrow> bytesRemaining (im_info m))"

definition plist :: "(ipAddress \<rightharpoonup> addr list) \<Rightarrow> ipAddress \<Rightarrow> addr list" where
  "plist T ip = (case T ip of None \<Rightarrow> [] | Some as \<Rightarrow> as)"

definition pkey :: "(addr \<rightharpoonup> inMessage) \<Rightarrow> (ipAddress \<rightharpoonup> addr list) \<Rightarrow> ipAddress \<Rightarrow> int" where
  "pkey H T ip = rkey H (hd (plist T ip))"

definition linked_to :: "(addr \<rightharpoonup> inMessage) \<Rightarrow> ipAddress \<Rightarrow> addr set" where
  "linked_to H ip = {a. \<exists>m. H a = Some m \<and> si_peer (im_info m) = Some ip}"

definition peer_ok :: "(addr \<rightharpoonup> inMessage) \<Rightarrow> ipAddress \<Rightarrow> addr list \<Rightarrow> bool" where
  "peer_ok H ip as \<longleftrightarrow> distinct as \<and> set as = linked_to H ip \<and> by_keys (rkey H) as"

definition sched_ok ::
  "(addr \<rightharpoonup> inMessage) \<Rightarrow> (ipAddress \<rightharpoonup> addr list) \<Rightarrow> ipAddress list \<Rightarrow> bool" where
  "sched_ok H T P \<longleftrightarrow>
     (\<forall>ip. peer_ok H ip (plist T ip)) \<and>
     distinct P \<and> set P = {ip. plist T ip \<noteq> []} \<and> by_keys (pkey H T) P"

lemma remaining_of_rkey: "remaining_of r = rkey (r_heap r)"
  by (simp add: remaining_of_def rkey_def fun_eq_iff)

lemma peer_messages_plist: "peer_messages r = plist (peerTable r)"
  by (simp add: peer_messages_def plist_def fun_eq_iff)

lemma r_ComparePriority_rkey: "r_ComparePriority r = (\<lambda>a b. rkey (r_heap r) a < rkey (r_heap r) b)"
  by (simp add: r_ComparePriority_def remaining_of_rkey fun_eq_iff)

lemma Peer_ComparePriority_pkey:
  "Peer_ComparePriority r = (\<lambda>p q. pkey (r_heap r) (peerTable r) p < pkey (r_heap r) (peerTable r) q)"
  by (simp add: Peer_ComparePriority_def r_ComparePriority_rkey pkey_def peer_messages_plist fun_eq_iff)

lemmas compare_keys = r_ComparePriority_rkey Peer_ComparePriority_pkey peer_messages_plist

lemma plist_upd [simp]: "plist (T(ip \<mapsto> as)) p = (if p = ip then as else plist T p)"
  by (simp add: plist_def)

lemma rkey_upd [simp]:
  "rkey (H(a \<mapsto> m)) b = (if b = a then bytesRemaining (im_info m) else rkey H b)"
  by (simp add: rkey_def)

section \<open>Moving peers\<close>

lemma compared_subset: "set (compared P xs) \<subseteq> set xs"
  unfolding compared_def using set_takeWhileD [of _ P xs] set_dropWhileD [of _ P xs]
  by (auto dest: in_set_takeD)

lemma peers_comparable_all:
  assumes "\<And>p. p \<in> set P \<Longrightarrow> peer_messages r p \<noteq> []" "ip \<in> set P" "set others \<subseteq> set P"
  shows "peers_comparable r ip others"
  using assms by (auto simp: peers_comparable_def)

lemma prioritize_peer_eq:
  assumes "ip \<in> set (scheduledPeers r)" "\<And>p. p \<in> set (scheduledPeers r) \<Longrightarrow> peer_messages r p \<noteq> []"
  shows "prioritize_peer ip r =
    Inr (r\<lparr>scheduledPeers := prioritize_seq (Peer_ComparePriority r) ip (scheduledPeers r)\<rparr>)"
proof -
  have "set (compared (Peer_ComparePriority r ip) (rev (before ip (scheduledPeers r)))) \<subseteq> set (scheduledPeers r)"
    using compared_subset set_before_subset by (metis order_trans set_rev)
  with assms peers_comparable_all [of "scheduledPeers r" r ip] show ?thesis
    by (simp add: prioritize_peer_def)
qed

lemma deprioritize_peer_eq:
  assumes "ip \<in> set (scheduledPeers r)" "\<And>p. p \<in> set (scheduledPeers r) \<Longrightarrow> peer_messages r p \<noteq> []"
  shows "deprioritize_peer ip r =
    Inr (r\<lparr>scheduledPeers := deprioritize_seq (Peer_ComparePriority r) ip (scheduledPeers r)\<rparr>)"
proof -
  have "set (compared (\<lambda>p. \<not> Peer_ComparePriority r ip p) (after ip (scheduledPeers r))) \<subseteq> set (scheduledPeers r)"
    using compared_subset set_after_subset by (metis order_trans)
  with assms peers_comparable_all [of "scheduledPeers r" r ip] show ?thesis
    by (simp add: deprioritize_peer_def)
qed

section \<open>Messages that are not scheduled\<close>

lemma peer_ok_cong:
  assumes "peer_ok H ip as" "\<And>b. b \<in> set as \<Longrightarrow> rkey H' b = rkey H b" "linked_to H' ip = linked_to H ip"
  shows "peer_ok H' ip as"
proof -
  have "by_keys (rkey H') as"
  proof (rule sorted_wrt_mono_rel)
    show "by_keys (rkey H) as" using assms(1) by (simp add: peer_ok_def)
  qed (simp add: assms(2))
  with assms show ?thesis by (simp add: peer_ok_def)
qed

lemma sched_ok_parts:
  assumes "sched_ok H T P"
  shows "peer_ok H ip (plist T ip)" "distinct P" "ip \<in> set P \<longleftrightarrow> plist T ip \<noteq> []" "by_keys (pkey H T) P"
    "a \<in> set (plist T ip) \<longleftrightarrow> a \<in> linked_to H ip"
  using assms by (auto simp: sched_ok_def peer_ok_def)

lemma sched_okI:
  assumes "\<And>q. peer_ok H q (plist T q)" "distinct P" "set P = {q. plist T q \<noteq> []}" "mset P' = mset P"
    "by_keys (pkey H T) P'"
  shows "sched_ok H T P'"
proof -
  have "distinct P' = distinct P" "set P' = set P"
    using assms(4) by (rule mset_eq_imp_distinct_iff, rule mset_eq_setD)
  with assms show ?thesis by (simp add: sched_ok_def)
qed

lemma sched_ok_cong:
  assumes s: "sched_ok H T P" and l: "\<And>ip. linked_to H' ip = linked_to H ip"
    and k: "\<And>b ip. b \<in> linked_to H ip \<Longrightarrow> rkey H' b = rkey H b"
  shows "sched_ok H' T P"
proof -
  note p = sched_ok_parts [OF s]
  have "peer_ok H' ip (plist T ip)" for ip
    by (rule peer_ok_cong [OF p(1)]) (use k l p(5) in auto)
  moreover have "by_keys (pkey H' T) P"
  proof (rule sorted_wrt_mono_rel [OF _ p(4)])
    fix x y assume xy: "x \<in> set P" "y \<in> set P" "\<not> pkey H T y < pkey H T x"
    then have "hd (plist T x) \<in> linked_to H x" "hd (plist T y) \<in> linked_to H y"
      using p(3,5) by (metis hd_in_set)+
    with xy(3) k show "\<not> pkey H' T y < pkey H' T x" by (simp add: pkey_def)
  qed
  ultimately show ?thesis using s by (simp add: sched_ok_def)
qed

lemma sched_ok_same:
  assumes "sched_ok H T P" "H a = Some m" "si_peer (im_info m') = si_peer (im_info m)"
    "bytesRemaining (im_info m') = bytesRemaining (im_info m) \<or> si_peer (im_info m) = None"
  shows "sched_ok (H(a \<mapsto> m')) T P"
  using assms by (intro sched_ok_cong [OF assms(1)]) (auto simp: linked_to_def rkey_def)

lemma sched_ok_new:
  assumes "sched_ok H T P" "H a = None" "si_peer (im_info m) = None"
  shows "sched_ok (H(a \<mapsto> m)) T P"
  using assms by (intro sched_ok_cong [OF assms(1)]) (auto simp: linked_to_def)

lemma sched_ok_delete:
  assumes "sched_ok H T P" "H a = Some m" "si_peer (im_info m) = None"
  shows "sched_ok (H(a := None)) T P"
  using assms by (intro sched_ok_cong [OF assms(1)]) (auto simp: linked_to_def rkey_def)

section \<open>Scheduling\<close>

abbreviation set_peer_of :: "ipAddress option \<Rightarrow> inMessage \<Rightarrow> inMessage" where
  "set_peer_of q m \<equiv> m\<lparr>im_info := (im_info m)\<lparr>si_peer := q\<rparr>\<rparr>"

lemma linked_to_set_peer:
  assumes "H a = Some m"
  shows "linked_to (H(a \<mapsto> set_peer_of q m)) ip = (if q = Some ip then insert a (linked_to H ip) else linked_to H ip - {a})"
  using assms by (auto simp: linked_to_def)

lemma rkey_set_peer [simp]: "H a = Some m \<Longrightarrow> rkey (H(a \<mapsto> set_peer_of q m)) = rkey H"
  by (auto simp: rkey_def fun_eq_iff)

lemma pkey_set_peer: "H a = Some m \<Longrightarrow> pkey (H(a \<mapsto> set_peer_of q m)) T = pkey H T"
  by (simp add: pkey_def fun_eq_iff)

text \<open>The lists of the peers after a message joined or left one of them.\<close>

lemma peers_ok_update:
  assumes s: "sched_ok H T P" and m: "H a = Some m" "si_peer (im_info m) = q0"
    and as: "peer_ok (H(a \<mapsto> set_peer_of q m)) ip as" and q: "q \<noteq> q0" "q \<in> {None, Some ip}" "q0 \<in> {None, Some ip}"
  shows "peer_ok (H(a \<mapsto> set_peer_of q m)) p (plist (T(ip \<mapsto> as)) p)"
proof (cases "p = ip")
  case False
  then have "linked_to (H(a \<mapsto> set_peer_of q m)) p = linked_to H p"
    using m q by (auto simp: linked_to_def)
  with peer_ok_cong [OF sched_ok_parts(1) [OF s, of p], of "H(a \<mapsto> set_peer_of q m)"] m(1) False show ?thesis
    by simp
qed (use as in simp)

lemma schedule_ok:
  assumes s: "sched_ok (r_heap r) (peerTable r) (scheduledPeers r)"
    and m: "r_heap r a = Some m" "si_peer (im_info m) = None"
  defines "ip \<equiv> sa_ip (im_source m)"
  shows "\<exists>T P. schedule a r = Inr (r\<lparr>peerTable := T, scheduledPeers := P, r_heap := (r_heap r)(a \<mapsto> set_peer_of (Some ip) m)\<rparr>) \<and>
     sched_ok ((r_heap r)(a \<mapsto> set_peer_of (Some ip) m)) T P"
proof -
  let ?H = "r_heap r" and ?T = "peerTable r" and ?P = "scheduledPeers r"
  let ?H' = "?H(a \<mapsto> set_peer_of (Some ip) m)"
  let ?l = "plist ?T ip"
  define as where "as = deprioritize_seq (\<lambda>a b. rkey ?H a < rkey ?H b) a (a # ?l)"
  note p = sched_ok_parts [OF s]
  have an: "a \<notin> set ?l" using p(5) m by (simp add: linked_to_def)
  have "mset as = mset (a # ?l)" unfolding as_def by (rule mset_deprioritize_seq) simp
  then have "length as = length (a # ?l)" by (rule mset_eq_length)
  then have set_as: "set as = insert a (set ?l)" "distinct as" "length as = Suc (length ?l)"
    using an p(1) [of ip] by (simp_all add: as_def set_deprioritize_seq distinct_deprioritize_seq peer_ok_def)
  have "by_keys (rkey ?H) as"
    unfolding as_def using p(1) [of ip] by (intro by_key.ordered_push_deprioritize) (simp add: peer_ok_def)
  then have "peer_ok ?H' ip as"
    using set_as p(1) [of ip] m(1) by (simp add: peer_ok_def linked_to_set_peer)
  then have ok: "peer_ok ?H' q (plist (?T(ip \<mapsto> as)) q)" for q
    using peers_ok_update [OF s m] by simp
  have ne: "as \<noteq> []" using set_as(1) by auto
  define T' where "T' = ?T(ip \<mapsto> as)"
  define k where "k = pkey ?H ?T"
  define k' where "k' = pkey ?H T'"
  have k': "k' q = k q" if "q \<noteq> ip" for q using that by (simp add: k'_def k_def pkey_def T'_def)
  define r1 where "r1 = r\<lparr>peerTable := T', r_heap := ?H'\<rparr>"
  have cmp: "Peer_ComparePriority (r1\<lparr>scheduledPeers := P\<rparr>) = (\<lambda>p q. k' p < k' q)" for P
    using m(1) by (simp add: Peer_ComparePriority_pkey r1_def k'_def pkey_set_peer)
  have keys: "pkey ?H' T' = k'" using m(1) by (simp add: k'_def pkey_set_peer)
  have pm: "peer_messages (r1\<lparr>scheduledPeers := P\<rparr>) q \<noteq> []" if "q = ip \<or> q \<in> set ?P" for P q
    using that ne p(3) [of q] by (auto simp: peer_messages_plist r1_def T'_def)
  have dom: "insert ip (set ?P) = {q. plist T' q \<noteq> []}"
    using ne p(3) by (auto simp: T'_def)
  have unf: "schedule a r = (if ip \<notin> set ?P then require AssertionFailed (length as = 1)
        (deprioritize_peer ip (r1\<lparr>scheduledPeers := ip # ?P\<rparr>))
      else if hd as = a then prioritize_peer ip r1 else Inr r1)"
    using m(1) an
    by (simp add: schedule_def r_deref_def Let_def ip_def [symmetric] peer_messages_plist r_ComparePriority_rkey
        as_def r1_def T'_def r_upd_info_def r_upd_message_def set_peer_def)
  show ?thesis
  proof (cases "ip \<in> set ?P")
    case False
    let ?P' = "deprioritize_seq (\<lambda>p q. k' p < k' q) ip (ip # ?P)"
    from False p(3) have "length as = 1" using set_as(3) by simp
    then have res: "schedule a r = Inr (r1\<lparr>scheduledPeers := ?P'\<rparr>)"
      using unf False deprioritize_peer_eq [of ip "r1\<lparr>scheduledPeers := ip # ?P\<rparr>"] pm by (simp add: cmp)
    have "k' q = k q" if "q \<in> set ?P" for q using k' False that by metis
    then have "by_keys k' ?P"
      by (intro sorted_wrt_mono_rel [OF _ p(4)]) (simp add: k_def [symmetric])
    then have "by_keys k' ?P'" by (rule by_key.ordered_push_deprioritize)
    moreover have "mset ?P' = mset (ip # ?P)" by (rule mset_deprioritize_seq) simp
    ultimately have "sched_ok ?H' T' ?P'"
      by (intro sched_okI [OF ok [folded T'_def], of "ip # ?P"]) (use dom False p(2) in \<open>simp_all add: keys\<close>)
    with res show ?thesis by (intro exI [of _ T'] exI [of _ "?P'"]) (simp add: r1_def)
  next
    case True
    then have lne: "?l \<noteq> []" using p(3) by simp
    have re: "rekeyed k k' ip ?P"
      using True p(2,4) k' by (simp add: rekeyed_def k_def)
    show ?thesis
    proof (cases "hd as = a")
      case True': True
      let ?P' = "prioritize_seq (\<lambda>p q. k' p < k' q) ip ?P"
      have "prioritize_peer ip r1 = Inr (r1\<lparr>scheduledPeers := ?P'\<rparr>)"
        using True prioritize_peer_eq [of ip r1] pm [where P = ?P] cmp [of ?P] by (simp add: r1_def)
      then have "schedule a r = Inr (r1\<lparr>scheduledPeers := ?P'\<rparr>)"
        using unf True True' by simp
      moreover have "\<not> rkey ?H (hd ?l) < rkey ?H a"
      proof -
        have "hd ?l \<in> set as" using lne set_as(1) by simp
        then show ?thesis using \<open>by_keys (rkey ?H) as\<close> True' by (cases as) auto
      qed
      then have "k' ip \<le> k ip" using True' by (simp add: k'_def k_def pkey_def T'_def)
      then have "by_keys k' ?P'" by (rule lowered_key [OF re])
      then have "sched_ok ?H' T' ?P'"
        using dom True by (intro sched_okI [OF ok [folded T'_def] p(2)])
          (simp_all add: keys mset_prioritize_seq insert_absorb)
      ultimately show ?thesis by (intro exI [of _ T'] exI [of _ "?P'"]) (simp add: r1_def)
    next
      case False
      have "hd as = hd ?l"
        using False lne unfolding as_def deprioritize_seq_def by (cases ?l) (auto split: if_splits)
      then have "k' = k" using k' by (auto simp: fun_eq_iff k'_def k_def pkey_def T'_def)
      then have "sched_ok ?H' T' ?P"
        using dom True p(4) by (intro sched_okI [OF ok [folded T'_def] p(2)])
          (simp_all add: keys k_def insert_absorb)
      with unf True False show ?thesis by (intro exI [of _ T'] exI [of _ "?P"]) (simp add: r1_def)
    qed
  qed
qed


section \<open>Unscheduling\<close>

lemma unschedule_ok:
  assumes s: "sched_ok (r_heap r) (peerTable r) (scheduledPeers r)"
    and m: "r_heap r a = Some m" "si_peer (im_info m) = Some ip"
  shows "\<exists>T P. unschedule a r = Inr (r\<lparr>peerTable := T, scheduledPeers := P, r_heap := (r_heap r)(a \<mapsto> set_peer_of None m)\<rparr>) \<and>
     sched_ok ((r_heap r)(a \<mapsto> set_peer_of None m)) T P"
proof -
  let ?H = "r_heap r" and ?T = "peerTable r" and ?P = "scheduledPeers r"
  let ?H' = "?H(a \<mapsto> set_peer_of None m)"
  let ?l = "plist ?T ip"
  define as where "as = remove1 a ?l"
  note p = sched_ok_parts [OF s]
  have an: "a \<in> set ?l" using p(5) m by (simp add: linked_to_def)
  then have ipP: "ip \<in> set ?P" unfolding p(3) by (metis list.set_cases list.distinct(1))
  have set_as: "set as = set ?l - {a}" "distinct as" "by_keys (rkey ?H) as"
    using p(1) [of ip] by (simp_all add: as_def peer_ok_def sorted_wrt_remove1)
  then have "peer_ok ?H' ip as"
    using p(1) [of ip] m(1) by (simp add: peer_ok_def linked_to_set_peer)
  then have ok: "peer_ok ?H' q (plist (?T(ip \<mapsto> as)) q)" for q
    using peers_ok_update [OF s m] by simp
  define T' where "T' = ?T(ip \<mapsto> as)"
  define k where "k = pkey ?H ?T"
  define k' where "k' = pkey ?H T'"
  have k': "k' q = k q" if "q \<noteq> ip" for q using that by (simp add: k'_def k_def pkey_def T'_def)
  define r1 where "r1 = r\<lparr>peerTable := T', r_heap := ?H'\<rparr>"
  have cmp: "Peer_ComparePriority r1 = (\<lambda>p q. k' p < k' q)"
    using m(1) by (simp add: Peer_ComparePriority_pkey r1_def k'_def pkey_set_peer)
  have keys: "pkey ?H' T' = k'" using m(1) by (simp add: k'_def pkey_set_peer)
  have pm: "peer_messages r1 q \<noteq> []" if "q \<in> set ?P" "as \<noteq> []" for q
    using that p(3) [of q] by (auto simp: peer_messages_plist r1_def T'_def)
  have unf: "unschedule a r = (if as = [] then Inr (r1\<lparr>scheduledPeers := remove1 ip ?P\<rparr>)
      else case next_in ip ?P of None \<Rightarrow> Inr r1
        | Some ip' \<Rightarrow> require AssertionFailed (peer_messages r1 ip' \<noteq> [])
                        (if \<not> Peer_ComparePriority r1 ip' ip then Inr r1 else deprioritize_peer ip r1))"
  proof -
    have e: "r_upd_info a (\<lambda>q. q\<lparr>si_peer := None\<rparr>) (set_peer ip as r) = r1" "scheduledPeers r1 = ?P"
      using m(1) by (simp_all add: r1_def T'_def r_upd_info_def r_upd_message_def set_peer_def)
    have l: "peer_messages r ip = ?l" by (simp add: peer_messages_plist)
    show ?thesis
      unfolding unschedule_def r_deref_def Let_def m option.case bindr_Inr l as_def [symmetric] e
      by (simp add: an ipP)
  qed
  show ?thesis
  proof (cases "as = []")
    case True
    have "k' q = k q" if "q \<in> set (remove1 ip ?P)" for q using k' that p(2) by auto
    then have "by_keys k' (remove1 ip ?P)"
      by (intro sorted_wrt_mono_rel [OF _ sorted_wrt_remove1 [OF p(4)]]) (simp add: k_def [symmetric])
    moreover have "set (remove1 ip ?P) = {q. plist T' q \<noteq> []}"
      using True p(2,3) by (auto simp: T'_def)
    ultimately have "sched_ok ?H' T' (remove1 ip ?P)"
      by (intro sched_okI [OF ok [folded T'_def], of "remove1 ip ?P"]) (use p(2) in \<open>simp_all add: keys\<close>)
    with unf True show ?thesis by (intro exI [of _ T'] exI [of _ "remove1 ip ?P"]) (simp add: r1_def)
  next
    case False
    have "q \<in> set ?P \<longleftrightarrow> plist T' q \<noteq> []" for q
      using p(3) [of q] False ipP by (cases "q = ip") (simp_all add: T'_def)
    then have dom: "set ?P = {q. plist T' q \<noteq> []}" by blast
    have re: "rekeyed k k' ip ?P" using ipP p(2,4) k' by (simp add: rekeyed_def k_def)
    have "hd as \<in> set ?l" using False set_as(1) by (metis Diff_iff hd_in_set)
    then have up: "k ip \<le> k' ip"
      using p(1) [of ip] by (cases ?l) (auto simp: k_def k'_def pkey_def T'_def peer_ok_def not_less)
    show ?thesis
    proof (cases "\<exists>q. next_in ip ?P = Some q \<and> k' q < k' ip")
      case True
      let ?P' = "deprioritize_seq (\<lambda>p q. k' p < k' q) ip ?P"
      from True obtain q where q: "next_in ip ?P = Some q" "k' q < k' ip" by blast
      have sp: "scheduledPeers r1 = ?P" by (simp add: r1_def)
      have "deprioritize_peer ip r1 = Inr (r1\<lparr>scheduledPeers := ?P'\<rparr>)"
        using deprioritize_peer_eq [of ip r1] ipP pm False unfolding sp cmp by blast
      then have "unschedule a r = Inr (r1\<lparr>scheduledPeers := ?P'\<rparr>)"
        using unf False q pm [OF set_next_in [OF q(1)] False] by (simp add: cmp)
      moreover have "by_keys k' ?P'" using raised_key [OF re up] .
      then have "sched_ok ?H' T' ?P'"
        by (intro sched_okI [OF ok [folded T'_def] p(2) dom]) (use ipP in \<open>simp_all add: keys mset_deprioritize_seq\<close>)
      ultimately show ?thesis by (intro exI [of _ T'] exI [of _ "?P'"]) (simp add: r1_def)
    next
      case nomove: False
      have "unschedule a r = Inr r1"
        using unf False nomove pm [OF set_next_in False] by (auto simp: cmp split: option.split)
      moreover have "by_keys k' ?P" using kept_key [OF re up] nomove by blast
      then have "sched_ok ?H' T' ?P"
        by (intro sched_okI [OF ok [folded T'_def] p(2) dom]) (simp_all add: keys)
      ultimately show ?thesis by (intro exI [of _ T'] exI [of _ "?P"]) (simp add: r1_def)
    qed
  qed
qed

section \<open>Progress of a scheduled message\<close>

lemma updateSchedule_ok:
  assumes s: "sched_ok H (peerTable r) (scheduledPeers r)"
    and m: "H a = Some m" "si_peer (im_info m) = Some ip"
    and m': "r_heap r = H(a \<mapsto> m')" "si_peer (im_info m') = Some ip"
      "bytesRemaining (im_info m') \<le> bytesRemaining (im_info m)"
  shows "\<exists>T P. updateSchedule a r = Inr (r\<lparr>peerTable := T, scheduledPeers := P\<rparr>) \<and> sched_ok (r_heap r) T P"
proof -
  let ?H = "r_heap r" and ?T = "peerTable r" and ?P = "scheduledPeers r"
  let ?l = "plist ?T ip"
  define as where "as = prioritize_seq (\<lambda>a b. rkey ?H a < rkey ?H b) a ?l"
  note p = sched_ok_parts [OF s]
  have an: "a \<in> set ?l" using p(5) m by (simp add: linked_to_def)
  then have ipP: "ip \<in> set ?P" unfolding p(3) by (metis list.set_cases list.distinct(1))
  have ra: "rkey ?H a \<le> rkey H a" using m m' by (simp add: rkey_def)
  have rel: "rekeyed (rkey H) (rkey ?H) a ?l" using an p(1) [of ip] m'(1) by (simp add: rekeyed_def peer_ok_def)
  have linked: "linked_to ?H q = linked_to H q" for q using m m' by (auto simp: linked_to_def)
  have set_as: "set as = set ?l" "distinct as" "by_keys (rkey ?H) as"
    using an p(1) [of ip] lowered_key [OF rel ra]
    by (simp_all add: as_def peer_ok_def set_prioritize_seq distinct_prioritize_seq)
  define T' where "T' = ?T(ip \<mapsto> as)"
  have ok: "peer_ok ?H q (plist T' q)" for q
  proof (cases "q = ip")
    case True
    then show ?thesis using set_as p(1) [of ip] linked by (simp add: peer_ok_def T'_def)
  next
    case False
    then have "a \<notin> set (plist ?T q)" using p(5) m by (auto simp: linked_to_def)
    then have "rkey ?H b = rkey H b" if "b \<in> set (plist ?T q)" for b using that m'(1) by auto
    then have "peer_ok ?H q (plist ?T q)" using peer_ok_cong [OF p(1) [of q] _ linked] by blast
    with False show ?thesis by (simp add: T'_def)
  qed
  define k where "k = pkey H ?T"
  define k' where "k' = pkey ?H T'"
  have k': "k' q = k q" if "q \<noteq> ip" "q \<in> set ?P" for q
  proof -
    have "hd (plist ?T q) \<in> linked_to H q" using that p(3,5) hd_in_set by blast
    then have "hd (plist ?T q) \<noteq> a" using m that by (auto simp: linked_to_def)
    with that m'(1) show ?thesis by (simp add: k'_def k_def pkey_def T'_def)
  qed
  have ne: "?l \<noteq> []" "as \<noteq> []" using ipP p(3) [of ip] set_as(1) by auto
  have "q \<in> set ?P \<longleftrightarrow> plist T' q \<noteq> []" for q
    using p(3) [of q] ne ipP by (cases "q = ip") (simp_all add: T'_def)
  then have dom: "set ?P = {q. plist T' q \<noteq> []}" by blast
  have re: "rekeyed k k' ip ?P" using ipP p(2,4) k' by (simp add: rekeyed_def k_def)
  define r1 where "r1 = r\<lparr>peerTable := T'\<rparr>"
  have unf: "updateSchedule a r = (if hd as = a then prioritize_peer ip r1 else Inr r1)"
    using m m' an by (simp add: updateSchedule_def r_deref_def Let_def compare_keys as_def r1_def T'_def set_peer_def)
  have pm: "peer_messages r1 q \<noteq> []" if "q \<in> set ?P" for q
    using that dom by (auto simp: peer_messages_plist r1_def)
  have hd_l: "hd ?l \<in> set as" using set_as(1) ne(1) by simp
  show ?thesis
  proof (cases "hd as = a")
    case True
    let ?P' = "prioritize_seq (\<lambda>p q. k' p < k' q) ip ?P"
    have "updateSchedule a r = Inr (r1\<lparr>scheduledPeers := ?P'\<rparr>)"
      using unf True prioritize_peer_eq [of ip r1] pm ipP by (simp add: Peer_ComparePriority_pkey r1_def k'_def)
    moreover have "rkey ?H a \<le> rkey ?H (hd ?l)" using hd_l set_as(3) True by (cases as) (auto simp: not_less)
    then have "k' ip \<le> k ip" using True m'(1) ra by (cases "hd ?l = a") (simp_all add: k'_def k_def pkey_def T'_def)
    then have "by_keys k' ?P'" by (rule lowered_key [OF re])
    then have "sched_ok ?H T' ?P'"
      by (intro sched_okI [OF ok p(2) dom]) (use ipP in \<open>simp_all add: k'_def mset_prioritize_seq\<close>)
    ultimately show ?thesis by (intro exI [of _ T'] exI [of _ "?P'"]) (simp add: r1_def)
  next
    case False
    have "hd as = hd ?l"
    proof -
      have b: "before a ?l \<noteq> []"
        using False before_after_id [OF an] unfolding as_def prioritize_seq_def by (cases "before a ?l") auto
      have "dropWhile (\<lambda>b. rkey ?H a < rkey ?H b) (rev (before a ?l)) \<noteq> []"
        using False unfolding as_def prioritize_seq_def by (metis append_Nil list.sel(1) rev.simps(1))
      then have "hd as = hd (before a ?l)"
        unfolding as_def prioritize_seq_def using b
        by (metis hd_append2 last_rev rev_is_Nil_conv rev_takeWhile_dropWhile)
      with b before_after_id [OF an] show ?thesis by (metis hd_append2)
    qed
    moreover have "hd ?l \<noteq> a" using calculation False by simp
    ultimately have "k' q = k q" if "q \<in> set ?P" for q
      using that k' m'(1) by (cases "q = ip") (simp_all add: k'_def k_def pkey_def T'_def)
    then have "by_keys k' ?P"
      by (intro sorted_wrt_mono_rel [OF _ p(4)]) (simp add: k_def [symmetric])
    then have "sched_ok ?H T' ?P" by (intro sched_okI [OF ok p(2) dom]) (simp_all add: k'_def)
    with unf False show ?thesis by (intro exI [of _ T'] exI [of _ "?P"]) (simp add: r1_def)
  qed
qed

lemma unschedule_if_ok:
  assumes "sched_ok (r_heap r) (peerTable r) (scheduledPeers r)" "r_heap r a = Some m"
    "si_peer (im_info m) \<noteq> None \<longrightarrow> im_scheduled m"
  shows "\<exists>T P. unschedule_if a m r = Inr (r\<lparr>peerTable := T, scheduledPeers := P, r_heap := (r_heap r)(a \<mapsto> set_peer_of None m)\<rparr>) \<and>
     sched_ok ((r_heap r)(a \<mapsto> set_peer_of None m)) T P"
proof (cases "si_peer (im_info m)")
  case None
  then have "set_peer_of None m = m" by simp
  then have "r = r\<lparr>peerTable := peerTable r, scheduledPeers := scheduledPeers r, r_heap := (r_heap r)(a \<mapsto> set_peer_of None m)\<rparr>"
    using assms(2) by (simp add: fun_upd_idem)
  with None assms \<open>set_peer_of None m = m\<close> show ?thesis
    unfolding unschedule_if_def by (metis fun_upd_triv)
next
  case (Some ip)
  with unschedule_ok [OF assms(1,2)] assms(3) show ?thesis by (simp add: unschedule_if_def)
qed

section \<open>The shortest message is first\<close>

lemma schedule_srpt:
  assumes s: "sched_ok H T P"
  shows "set P = {ip. \<exists>a m. H a = Some m \<and> si_peer (im_info m) = Some ip} \<and>
    (case P of
       [] \<Rightarrow> True
     | ip # _ \<Rightarrow> \<exists>a as m. plist T ip = a # as \<and> H a = Some m \<and>
         (\<forall>b n. H b = Some n \<and> si_peer (im_info n) \<noteq> None \<longrightarrow> bytesRemaining (im_info m) \<le> bytesRemaining (im_info n)))"
proof -
  note p = sched_ok_parts [OF s]
  have in_P: "q \<in> set P \<longleftrightarrow> linked_to H q \<noteq> {}" for q
    using p(1) [of q] p(3) [of q] by (metis peer_ok_def set_empty)
  then have set_P: "set P = {ip. \<exists>a m. H a = Some m \<and> si_peer (im_info m) = Some ip}"
    by (auto simp: linked_to_def)
  show ?thesis
  proof (cases P)
    case (Cons ip ips)
    then obtain a as where a: "plist T ip = a # as" using p(3) [of ip] by (cases "plist T ip") auto
    then obtain m where m: "H a = Some m" using p(5) [of a ip] by (auto simp: linked_to_def)
    have "rkey H a \<le> rkey H b" if b: "b \<in> linked_to H q" for b q
    proof -
      have q: "b \<in> set (plist T q)" "q \<in> set P" using p(5) [of b q] in_P b by auto
      have "pkey H T ip \<le> pkey H T q" using p(4) Cons q(2) by auto
      moreover have sorted: "by_keys (rkey H) (plist T q)" using p(1) [of q] by (simp add: peer_ok_def)
      have "rkey H (hd (plist T q)) \<le> rkey H b"
        using sorted q(1) by (cases "plist T q") (auto simp: not_less)
      ultimately show ?thesis using a by (simp add: pkey_def)
    qed
    then have "bytesRemaining (im_info m) \<le> bytesRemaining (im_info n)" if "H b = Some n" "si_peer (im_info n) \<noteq> None" for b n
      using that m by (fastforce simp: linked_to_def rkey_def)
    with set_P Cons a m show ?thesis by auto
  qed (use set_P in simp)
qed

end
