(* ===== verification/Receiver_Invariant.thy ===== *)
theory Receiver_Invariant
  imports Receiver_Schedule
begin

text \<open>
  The invariant of the receiver, in layers: what a message looks like (\<open>rmsg_ok\<close>), that
  identifiers are unique (\<open>rheap_ok\<close>), where messages and timeouts are linked (\<open>rbuckets_ok\<close>), the
  schedule (\<open>sched_ok\<close> of Receiver_Schedule), the queue of received messages (\<open>rqueue_ok\<close>) and the
  parameters (\<open>rstatic_ok\<close>). The lemmas are the steps the operations are composed of.
\<close>

section \<open>Layers\<close>

definition rstatic_ok :: "driver \<Rightarrow> policy_manager \<Rightarrow> bool" where
  "rstatic_ok d pm \<longleftrightarrow>
     driver_ok d \<and> policy_ok pm \<and> unat (RTT_BYTES pm) < 2 ^ 29 \<and> MAX_PRIORITY pm \<le> 7"

definition im_len :: "inMessage \<Rightarrow> nat" where
  "im_len m = nat (im_messageLength m)"

text \<open>The bytes of the message that arrived.\<close>

definition received_bytes :: "driver \<Rightarrow> inMessage \<Rightarrow> nat" where
  "received_bytes d m = (\<Sum>i\<in>dom (im_packets m). chunk d (im_len m) i)"

definition sinfo_ok :: "driver \<Rightarrow> inMessage \<Rightarrow> bool" where
  "sinfo_ok d m \<longleftrightarrow>
     si_messageLength (im_info m) = im_messageLength m \<and>
     0 \<le> bytesRemaining (im_info m) \<and> bytesRemaining (im_info m) \<le> im_messageLength m \<and>
     0 \<le> bytesGranted (im_info m) \<and> bytesGranted (im_info m) \<le> im_messageLength m \<and>
     (si_peer (im_info m) \<noteq> None \<longrightarrow>
        im_scheduled m \<and> si_peer (im_info m) = Some (sa_ip (im_source m)) \<and>
        bytesRemaining (im_info m) = im_messageLength m - int (received_bytes d m))"

definition rmsg_ok :: "driver \<Rightarrow> inMessage \<Rightarrow> bool" where
  "rmsg_ok d m \<longleftrightarrow>
     im_wf d m \<and>
     0 < im_messageLength m \<and> im_messageLength m \<le> int (IM_MAX_MESSAGE_PACKETS * pdl d) \<and>
     numExpectedPackets m = int (packets_for d (im_len m)) \<and>
     0 \<le> numUnscheduledPackets m \<and> numUnscheduledPackets m \<le> int IM_MAX_MESSAGE_PACKETS \<and>
     im_scheduled m = (numUnscheduledPackets m < numExpectedPackets m) \<and>
     dom (im_packets m) \<subseteq> {..<packets_for d (im_len m)} \<and>
     (im_state m = RX_IN_PROGRESS \<longleftrightarrow> im_numPackets m < numExpectedPackets m) \<and>
     (\<forall>i p. im_packets m i = Some p \<longrightarrow> plength p = int (sizeof_DataHeader + chunk d (im_len m) i)) \<and>
     sinfo_ok d m"

definition rheap_ok :: "driver \<Rightarrow> (addr \<rightharpoonup> inMessage) \<Rightarrow> bool" where
  "rheap_ok d H \<longleftrightarrow>
     (\<forall>a m. H a = Some m \<longrightarrow> rmsg_ok d m) \<and>
     (\<forall>a b m n. H a = Some m \<and> H b = Some n \<and> im_id m = im_id n \<longrightarrow> a = b)"

definition in_progress :: "(addr \<rightharpoonup> inMessage) \<Rightarrow> addr \<Rightarrow> bool" where
  "in_progress H a \<longleftrightarrow> (\<exists>m. H a = Some m \<and> im_state m = RX_IN_PROGRESS)"

definition rbucket_ok :: "(addr \<rightharpoonup> inMessage) \<Rightarrow> nat \<Rightarrow> rbucket \<Rightarrow> bool" where
  "rbucket_ok H i b \<longleftrightarrow>
     distinct (rb_messages b) \<and>
     set (rb_messages b) = {a. \<exists>m. H a = Some m \<and> r_getBucket (im_id m) = i} \<and>
     tm_ok (rb_messageTimeouts b) \<and> set (tlist (rb_messageTimeouts b)) \<subseteq> set (rb_messages b) \<and>
     tm_ok (resendTimeouts b) \<and> set (tlist (resendTimeouts b)) \<subseteq> {a \<in> set (rb_messages b). in_progress H a}"

definition rbuckets_ok :: "(addr \<rightharpoonup> inMessage) \<Rightarrow> (nat \<Rightarrow> rbucket) \<Rightarrow> bool" where
  "rbuckets_ok H B \<longleftrightarrow> (\<forall>i. rbucket_ok H i (B i))"

definition rqueue_ok :: "(addr \<rightharpoonup> inMessage) \<Rightarrow> addr list \<Rightarrow> bool" where
  "rqueue_ok H Q \<longleftrightarrow> distinct Q \<and> (\<forall>a \<in> set Q. H a \<noteq> None \<and> \<not> in_progress H a)"

definition receiver_inv :: "receiver \<Rightarrow> bool" where
  "receiver_inv r \<longleftrightarrow>
     rstatic_ok (r_driver r) (r_policyManager r) \<and>
     pool_ok (dom (r_heap r)) (r_messageAllocator r) \<and>
     rheap_ok (r_driver r) (r_heap r) \<and>
     rbuckets_ok (r_heap r) (r_messageBuckets r) \<and>
     sched_ok (r_heap r) (peerTable r) (scheduledPeers r) \<and>
     rqueue_ok (r_heap r) (receivedMessages r)"

lemmas receiver_defs =
  r_upd_message_def r_upd_info_def r_upd_bucket_def set_messageTimeout_def cancel_messageTimeout_def
  set_resendTimeout_def cancel_resendTimeout_def r_emit_def r_release_def r_remove_message_def set_peer_def

section \<open>Reading the invariant\<close>

lemma rinv_parts:
  assumes "receiver_inv r"
  shows "rstatic_ok (r_driver r) (r_policyManager r)" "driver_ok (r_driver r)"
    "pool_ok (dom (r_heap r)) (r_messageAllocator r)" "rheap_ok (r_driver r) (r_heap r)"
    "rbuckets_ok (r_heap r) (r_messageBuckets r)" "rbucket_ok (r_heap r) i (r_messageBuckets r i)"
    "sched_ok (r_heap r) (peerTable r) (scheduledPeers r)" "rqueue_ok (r_heap r) (receivedMessages r)"
  using assms by (simp_all add: receiver_inv_def rstatic_ok_def rbuckets_ok_def)

lemma rinv_msg: "receiver_inv r \<Longrightarrow> r_heap r a = Some m \<Longrightarrow> rmsg_ok (r_driver r) m"
  by (auto simp: receiver_inv_def rheap_ok_def)

lemma rinv_id: "receiver_inv r \<Longrightarrow> r_heap r a = Some m \<Longrightarrow> r_heap r b = Some n \<Longrightarrow> im_id m = im_id n \<Longrightarrow> a = b"
  unfolding receiver_inv_def rheap_ok_def by blast

lemma rmsg_ok_peer: "rmsg_ok d m \<Longrightarrow> si_peer (im_info m) \<noteq> None \<longrightarrow> im_scheduled m"
  unfolding rmsg_ok_def sinfo_ok_def by blast

lemma r_deref_Some [simp]: "r_heap r a = Some m \<Longrightarrow> r_deref a r = Inr m"
  by (simp add: r_deref_def)

lemma r_find_in_cases:
  assumes "\<And>a. a \<in> set as \<Longrightarrow> \<exists>m. r_heap r a = Some m"
  shows "(r_find_in msgId as r = Inr None \<and> (\<forall>a m. a \<in> set as \<and> r_heap r a = Some m \<longrightarrow> im_id m \<noteq> msgId)) \<or>
         (\<exists>a m. r_find_in msgId as r = Inr (Some a) \<and> a \<in> set as \<and> r_heap r a = Some m \<and> im_id m = msgId)"
  using assms
proof (induction as)
  case (Cons b as)
  from Cons.prems obtain n where "r_heap r b = Some n" by (meson list.set_intros(1))
  with Cons show ?case by (auto simp: r_deref_def)
qed simp

lemma r_findMessage_cases [consumes 1, case_names absent present]:
  assumes inv: "receiver_inv r"
    and absent: "r_findMessage msgId (r_messageBuckets r (r_getBucket msgId)) r = Inr None \<Longrightarrow>
      (\<And>a m. r_heap r a = Some m \<Longrightarrow> im_id m \<noteq> msgId) \<Longrightarrow> thesis"
    and present: "\<And>a m. r_findMessage msgId (r_messageBuckets r (r_getBucket msgId)) r = Inr (Some a) \<Longrightarrow>
      r_heap r a = Some m \<Longrightarrow> im_id m = msgId \<Longrightarrow>
      a \<in> set (rb_messages (r_messageBuckets r (r_getBucket msgId))) \<Longrightarrow> thesis"
  shows thesis
proof -
  let ?b = "r_messageBuckets r (r_getBucket msgId)"
  have b: "set (rb_messages ?b) = {a. \<exists>m. r_heap r a = Some m \<and> r_getBucket (im_id m) = r_getBucket msgId}"
    using rinv_parts(6) [OF inv] by (simp add: rbucket_ok_def)
  then have "\<And>a. a \<in> set (rb_messages ?b) \<Longrightarrow> \<exists>m. r_heap r a = Some m" by auto
  from r_find_in_cases [of "rb_messages ?b" r msgId, OF this] show thesis
    using absent present b unfolding r_findMessage_def by fastforce
qed

lemma r_findMessage_present:
  assumes "receiver_inv r" "r_heap r a = Some m"
  shows "r_findMessage (im_id m) (r_messageBuckets r (r_getBucket (im_id m))) r = Inr (Some a)"
    "a \<in> set (rb_messages (r_messageBuckets r (r_getBucket (im_id m))))"
  using assms(1) by (cases rule: r_findMessage_cases [where msgId = "im_id m"];
      use assms rinv_id [OF assms(1)] in blast)+

section \<open>Steps\<close>

lemma rinv_emit [simp]: "receiver_inv (r_emit es r) = receiver_inv r"
  by (simp add: receiver_inv_def r_emit_def)

lemma rinv_release [simp]: "receiver_inv (r_release p r) = receiver_inv r"
  by (simp add: r_release_def)

lemma rinv_flags [simp]:
  "receiver_inv (r\<lparr>granting := b\<rparr>) = receiver_inv r"
  "receiver_inv (r\<lparr>r_nextBucketIndex := n\<rparr>) = receiver_inv r"
  by (simp_all add: receiver_inv_def)

lemma rinv_upd_bucket:
  assumes "receiver_inv r" "rbucket_ok (r_heap r) i (f (r_messageBuckets r i))"
  shows "receiver_inv (r_upd_bucket i f r)"
  using assms by (simp add: receiver_inv_def r_upd_bucket_def rbuckets_ok_def)

lemma rbucket_ok_message_set:
  "rbucket_ok H i b \<Longrightarrow> a \<in> set (rb_messages b) \<Longrightarrow>
   rbucket_ok H i (b\<lparr>rb_messageTimeouts := setTimeout t a (rb_messageTimeouts b)\<rparr>)"
  unfolding rbucket_ok_def by (auto simp: tm_ok_setTimeout set_tlist_setTimeout simp del: tlist_setTimeout)

lemma rbucket_ok_resend_set:
  "rbucket_ok H i b \<Longrightarrow> a \<in> set (rb_messages b) \<Longrightarrow> in_progress H a \<Longrightarrow>
   rbucket_ok H i (b\<lparr>resendTimeouts := setTimeout t a (resendTimeouts b)\<rparr>)"
  unfolding rbucket_ok_def by (auto simp: tm_ok_setTimeout set_tlist_setTimeout simp del: tlist_setTimeout)

lemma rbucket_ok_cancel:
  "rbucket_ok H i b \<Longrightarrow> rbucket_ok H i (b\<lparr>rb_messageTimeouts := cancelTimeout a (rb_messageTimeouts b)\<rparr>)"
  "rbucket_ok H i b \<Longrightarrow> rbucket_ok H i (b\<lparr>resendTimeouts := cancelTimeout a (resendTimeouts b)\<rparr>)"
  unfolding rbucket_ok_def
  by (auto simp: tm_ok_cancelTimeout set_tlist_cancelTimeout simp del: tlist_cancelTimeout)

lemma rinv_set_messageTimeout:
  "receiver_inv r \<Longrightarrow> a \<in> set (rb_messages (r_messageBuckets r i)) \<Longrightarrow> receiver_inv (set_messageTimeout i a t r)"
  unfolding set_messageTimeout_def by (intro rinv_upd_bucket rbucket_ok_message_set rinv_parts(6))

lemma rinv_set_resendTimeout:
  "receiver_inv r \<Longrightarrow> a \<in> set (rb_messages (r_messageBuckets r i)) \<Longrightarrow> in_progress (r_heap r) a \<Longrightarrow>
   receiver_inv (set_resendTimeout i a t r)"
  unfolding set_resendTimeout_def by (intro rinv_upd_bucket rbucket_ok_resend_set rinv_parts(6))

lemma rinv_cancel:
  assumes "receiver_inv r"
  shows "receiver_inv (cancel_messageTimeout i a r)" "receiver_inv (cancel_resendTimeout i a r)"
proof -
  note b = rbucket_ok_cancel [OF rinv_parts(6) [OF assms]]
  show "receiver_inv (cancel_messageTimeout i a r)"
    unfolding cancel_messageTimeout_def by (rule rinv_upd_bucket [OF assms]) (rule b(1))
  show "receiver_inv (cancel_resendTimeout i a r)"
    unfolding cancel_resendTimeout_def by (rule rinv_upd_bucket [OF assms]) (rule b(2))
qed

text \<open>One message changes and keeps its identifier; it does not start over, and if it is complete
  now it has no resend timeout.\<close>

lemma in_progress_upd [simp]:
  "in_progress (H(a \<mapsto> m)) b = (if b = a then im_state m = RX_IN_PROGRESS else in_progress H b)"
  by (simp add: in_progress_def)

lemma rbucket_ok_upd:
  assumes "rbucket_ok H i b" "H a = Some m" "im_id m' = im_id m"
    "a \<in> set (tlist (resendTimeouts b)) \<longrightarrow> im_state m' = RX_IN_PROGRESS"
  shows "rbucket_ok (H(a \<mapsto> m')) i b"
proof -
  have "{c. \<exists>n. (H(a \<mapsto> m')) c = Some n \<and> r_getBucket (im_id n) = i} =
      {c. \<exists>n. H c = Some n \<and> r_getBucket (im_id n) = i}"
    using assms(2,3) by auto
  then show ?thesis using assms(1,4) unfolding rbucket_ok_def by auto
qed

lemma rheap_ok_upd:
  assumes "rheap_ok d H" "H a = Some m" "im_id m' = im_id m" "rmsg_ok d m'"
  shows "rheap_ok d (H(a \<mapsto> m'))"
  using assms unfolding rheap_ok_def by (auto split: if_splits)

lemma rqueue_ok_upd:
  assumes "rqueue_ok H Q" "H a = Some m" "im_state m' = RX_IN_PROGRESS \<longrightarrow> a \<notin> set Q"
  shows "rqueue_ok (H(a \<mapsto> m')) Q"
  using assms unfolding rqueue_ok_def by auto

lemma rinv_change:
  assumes inv: "receiver_inv r" and m: "r_heap r a = Some m"
    and m': "im_id m' = im_id m" "rmsg_ok (r_driver r) m'"
      "im_state m' = RX_IN_PROGRESS \<longleftrightarrow> im_state m = RX_IN_PROGRESS"
    and s: "sched_ok ((r_heap r)(a \<mapsto> m')) T P"
  shows "receiver_inv (r\<lparr>peerTable := T, scheduledPeers := P, r_heap := (r_heap r)(a \<mapsto> m')\<rparr>)"
proof -
  note p = rinv_parts [OF inv]
  have "insert a (dom (r_heap r)) = dom (r_heap r)" using m by auto
  moreover have "rbucket_ok ((r_heap r)(a \<mapsto> m')) i (r_messageBuckets r i)" for i
  proof (rule rbucket_ok_upd [OF p(6) m m'(1)])
    have "a \<in> set (tlist (resendTimeouts (r_messageBuckets r i))) \<Longrightarrow> in_progress (r_heap r) a"
      using p(6) [of i] unfolding rbucket_ok_def by blast
    then show "a \<in> set (tlist (resendTimeouts (r_messageBuckets r i))) \<longrightarrow> im_state m' = RX_IN_PROGRESS"
      using m m'(3) by (simp add: in_progress_def)
  qed
  moreover have "rqueue_ok ((r_heap r)(a \<mapsto> m')) (receivedMessages r)"
    using p(8) m m'(3) by (intro rqueue_ok_upd) (auto simp: rqueue_ok_def in_progress_def)
  ultimately show ?thesis
    using inv rheap_ok_upd [OF p(4) m m'(1,2)] s by (simp add: receiver_inv_def rbuckets_ok_def)
qed

lemma rinv_upd_message:
  assumes "receiver_inv r" "r_heap r a = Some m" "f m = m'" "im_id m' = im_id m" "rmsg_ok (r_driver r) m'"
    "im_state m' = RX_IN_PROGRESS \<longleftrightarrow> im_state m = RX_IN_PROGRESS"
    "si_peer (im_info m') = si_peer (im_info m)"
    "bytesRemaining (im_info m') = bytesRemaining (im_info m) \<or> si_peer (im_info m) = None"
  shows "receiver_inv (r_upd_message a f r)"
proof -
  have "r_upd_message a f r =
      r\<lparr>peerTable := peerTable r, scheduledPeers := scheduledPeers r, r_heap := (r_heap r)(a \<mapsto> m')\<rparr>"
    using assms(2,3) by (simp add: r_upd_message_def)
  with rinv_change [OF assms(1,2,4-6) sched_ok_same [OF rinv_parts(7) [OF assms(1)] assms(2,7,8)]]
  show ?thesis by simp
qed

lemma info_fields [simp]:
  "im_wf d (m\<lparr>im_info := q\<rparr>) = im_wf d m" "im_len (m\<lparr>im_info := q\<rparr>) = im_len m"
  "received_bytes d (m\<lparr>im_info := q\<rparr>) = received_bytes d m"
  by (simp_all add: im_wf_def im_len_def received_bytes_def)

lemma state_fields [simp]:
  "im_wf d (m\<lparr>im_state := st\<rparr>) = im_wf d m" "im_len (m\<lparr>im_state := st\<rparr>) = im_len m"
  "received_bytes d (m\<lparr>im_state := st\<rparr>) = received_bytes d m" "sinfo_ok d (m\<lparr>im_state := st\<rparr>) = sinfo_ok d m"
  by (simp_all add: im_wf_def im_len_def received_bytes_def sinfo_ok_def)

lemma start_fields [simp]:
  "im_len (m\<lparr>im_start := k\<rparr>) = im_len m"
  "received_bytes d (m\<lparr>im_start := k\<rparr>) = received_bytes d m" "sinfo_ok d (m\<lparr>im_start := k\<rparr>) = sinfo_ok d m"
  by (simp_all add: im_len_def received_bytes_def sinfo_ok_def)

lemma rmsg_ok_info:
  "rmsg_ok d m \<Longrightarrow> sinfo_ok d (m\<lparr>im_info := q\<rparr>) \<Longrightarrow> rmsg_ok d (m\<lparr>im_info := q\<rparr>)"
  unfolding rmsg_ok_def by simp

lemma rmsg_ok_length:
  assumes "rmsg_ok d m" "driver_ok d"
  shows "0 < im_messageLength m" "im_messageLength m < 67108864" "im_messageLength m = int (im_len m)"
proof -
  have "int (IM_MAX_MESSAGE_PACKETS * pdl d) < 1024 * 2 ^ 16"
    using pdl_bound [OF assms(2)] by (simp add: IM_MAX_MESSAGE_PACKETS_def)
  with assms(1) show "0 < im_messageLength m" "im_messageLength m < 67108864" "im_messageLength m = int (im_len m)"
    unfolding rmsg_ok_def im_len_def by simp_all
qed

lemma rmsg_ok_sinfo: "rmsg_ok d m \<Longrightarrow> sinfo_ok d m"
  unfolding rmsg_ok_def by blast

lemma sinfo_ok_unlinked: "rmsg_ok d m \<Longrightarrow> rmsg_ok d (set_peer_of None m)"
  by (rule rmsg_ok_info) (auto dest: rmsg_ok_sinfo simp: sinfo_ok_def)

lemma rinv_unschedule_if:
  assumes inv: "receiver_inv r" and m: "r_heap r a = Some m"
  shows "\<exists>T P. unschedule_if a m r = Inr (r\<lparr>peerTable := T, scheduledPeers := P, r_heap := (r_heap r)(a \<mapsto> set_peer_of None m)\<rparr>) \<and>
     receiver_inv (r\<lparr>peerTable := T, scheduledPeers := P, r_heap := (r_heap r)(a \<mapsto> set_peer_of None m)\<rparr>)"
proof -
  note ok = rinv_msg [OF inv m]
  obtain T P where u: "unschedule_if a m r = Inr (r\<lparr>peerTable := T, scheduledPeers := P, r_heap := (r_heap r)(a \<mapsto> set_peer_of None m)\<rparr>)"
    "sched_ok ((r_heap r)(a \<mapsto> set_peer_of None m)) T P"
    using unschedule_if_ok [OF rinv_parts(7) [OF inv] m rmsg_ok_peer [OF ok]] by blast
  with rinv_change [OF inv m _ sinfo_ok_unlinked [OF ok] _ u(2)] show ?thesis
    by (intro exI [of _ T] exI [of _ P]) simp
qed

end
