(* ===== verification/Receiver_Correct.thy ===== *)
theory Receiver_Correct
  imports Receiver_Invariant
begin

text \<open>
  Every operation of the receiver but the processing of DATA packets (Receiver_Data): started in
  a state that satisfies the invariant it returns without a failed assertion, a null
  dereference, an exception or an overflow, and keeps the invariant.
\<close>

section \<open>Control packets and requests that change no message\<close>

lemma handleBusyPacket_ok:
  assumes inv: "receiver_inv r"
  shows "\<exists>r'. handleBusyPacket tsc p r = Inr r' \<and> receiver_inv r' \<and> r_heap r' = r_heap r \<and>
              receivedMessages r' = receivedMessages r"
  using inv
proof (cases rule: r_findMessage_cases [where msgId = "hmessageId (decode_common (payload p))"])
  case absent
  with inv show ?thesis by (simp add: handleBusyPacket_def Let_def receiver_defs receiver_inv_def)
next
  case (present a m)
  let ?i = "r_getBucket (hmessageId (decode_common (payload p)))"
  let ?r1 = "set_messageTimeout ?i a (tsc 0) r"
  have i1: "receiver_inv ?r1" using rinv_set_messageTimeout [OF inv present(4)] .
  have "receiver_inv (set_resendTimeout ?i a (tsc 1) ?r1)" if "im_state m = RX_IN_PROGRESS"
    by (rule rinv_set_resendTimeout [OF i1])
      (use present that in \<open>simp_all add: receiver_defs in_progress_def\<close>)
  with i1 present show ?thesis by (simp add: handleBusyPacket_def Let_def receiver_defs receiver_inv_def)
qed

lemma handlePingPacket_ok:
  assumes inv: "receiver_inv r"
  shows "\<exists>r'. handlePingPacket tsc p ip r = Inr r' \<and> receiver_inv r' \<and> r_heap r' = r_heap r \<and>
              receivedMessages r' = receivedMessages r"
  using inv
proof (cases rule: r_findMessage_cases [where msgId = "hmessageId (decode_common (payload p))"])
  case absent
  with inv show ?thesis by (simp add: handlePingPacket_def Let_def receiver_defs receiver_inv_def)
next
  case (present a m)
  have "receiver_inv (set_messageTimeout (r_getBucket (hmessageId (decode_common (payload p)))) a (tsc 0) r)"
    using rinv_set_messageTimeout [OF inv present(4)] .
  with present show ?thesis by (simp add: handlePingPacket_def Let_def receiver_defs receiver_inv_def)
qed

lemma receiveMessage_ok:
  assumes "receiver_inv r"
  shows "receiver_inv (snd (receiveMessage r))"
  using assms by (cases "receivedMessages r") (auto simp: receiveMessage_def receiver_inv_def r_emit_def rqueue_ok_def)

lemma acknowledge_ok:
  assumes "receiver_inv r" "r_heap r a = Some m"
  shows "\<exists>r'. acknowledge a r = Inr r' \<and> receiver_inv r'" "\<exists>r'. r_fail a r = Inr r' \<and> receiver_inv r'"
  using assms by (simp_all add: acknowledge_def r_fail_def)

text \<open>\<open>strip\<close> changes the start of the message only.\<close>

lemma strip_ok:
  assumes m: "rmsg_ok d m" "driver_ok d" and c: "unat cnt < 2 ^ 31 - 2 ^ 26"
  shows "\<exists>m'. strip cnt m = Inr m' \<and> rmsg_ok d m' \<and> m' = m\<lparr>im_start := min (im_start m + int (unat cnt)) (im_messageLength m)\<rparr>"
proof -
  have st: "0 \<le> im_start m" "im_start m \<le> im_messageLength m"
    using m(1) by (auto simp: rmsg_ok_def im_wf_def)
  have dc: "downCast_int cnt = Inr (int (unat cnt))"
    using c by (intro downCast_int_small) simp
  have "unat cnt < 2080374784" using c by simp
  then have "int (unat cnt) < 2080374784" "0 \<le> int (unat cnt)" by linarith+
  then have "in_int32 (im_start m + int (unat cnt))"
    using st rmsg_ok_length(2) [OF m] by (intro in_int32I; linarith)
  moreover have "im_wf d (m\<lparr>im_start := min (im_start m + int (unat cnt)) (im_messageLength m)\<rparr>)"
    using m(1) st by (simp add: rmsg_ok_def im_wf_def)
  then have "rmsg_ok d (m\<lparr>im_start := min (im_start m + int (unat cnt)) (im_messageLength m)\<rparr>)"
    using m(1) unfolding rmsg_ok_def by simp
  ultimately show ?thesis using dc by (simp add: strip_def)
qed

section \<open>Destruction of a message\<close>

lemma rheap_ok_remove: "rheap_ok d H \<Longrightarrow> rheap_ok d (H(a := None))"
  unfolding rheap_ok_def by (auto split: if_splits)

lemma rbucket_ok_remove:
  assumes "rbucket_ok H i b" "H a = Some m" "r_getBucket (im_id m) = i"
    "a \<notin> set (tlist (rb_messageTimeouts b))" "a \<notin> set (tlist (resendTimeouts b))"
  shows "rbucket_ok (H(a := None)) i (b\<lparr>rb_messages := remove1 a (rb_messages b)\<rparr>)"
proof -
  have "set (remove1 a (rb_messages b)) = {c. \<exists>n. (H(a := None)) c = Some n \<and> r_getBucket (im_id n) = i}"
    using assms unfolding rbucket_ok_def by (auto split: if_splits)
  moreover have "in_progress (H(a := None)) c = in_progress H c" if "c \<noteq> a" for c
    using that by (simp add: in_progress_def)
  ultimately show ?thesis
    using assms unfolding rbucket_ok_def by (auto dest: subsetD)
qed

lemma rbucket_ok_remove_other:
  assumes "rbucket_ok H i b" "H a = Some m" "r_getBucket (im_id m) \<noteq> i"
  shows "rbucket_ok (H(a := None)) i b"
proof -
  have "a \<notin> set (rb_messages b)" using assms unfolding rbucket_ok_def by auto
  moreover have "{c. \<exists>n. (H(a := None)) c = Some n \<and> r_getBucket (im_id n) = i} =
      {c. \<exists>n. H c = Some n \<and> r_getBucket (im_id n) = i}"
    using assms(2,3) by auto
  moreover have "in_progress (H(a := None)) c = in_progress H c" if "c \<noteq> a" for c
    using that by (simp add: in_progress_def)
  moreover from calculation(1) have "a \<notin> set (tlist (resendTimeouts b))"
    using assms(1) unfolding rbucket_ok_def by blast
  then have "in_progress (H(a := None)) c" if "c \<in> set (tlist (resendTimeouts b))" "in_progress H c" for c
    using that calculation(3) by metis
  ultimately show ?thesis using assms(1) unfolding rbucket_ok_def by auto
qed

lemma rqueue_ok_remove:
  assumes "rqueue_ok H Q" "a \<notin> set Q"
  shows "rqueue_ok (H(a := None)) Q"
  using assms unfolding rqueue_ok_def by (auto simp: in_progress_def)

text \<open>A message that is unlinked from the timeouts and the schedule is destroyed.\<close>

lemma r_destroy_ok:
  assumes inv: "receiver_inv r" and m: "r_heap r a = Some m" "si_peer (im_info m) = None"
    and q: "a \<notin> set (receivedMessages r)"
  defines "i \<equiv> r_getBucket (im_id m)"
  assumes t: "a \<notin> set (tlist (rb_messageTimeouts (r_messageBuckets r i)))"
    "a \<notin> set (tlist (resendTimeouts (r_messageBuckets r i)))"
  shows "\<exists>pool. r_destroy a (r_remove_message i a r) =
     Inr (r_emit (InMessage_destruct m) (r_remove_message i a (r\<lparr>r_messageAllocator := pool, r_heap := (r_heap r)(a := None)\<rparr>))) \<and>
     receiver_inv (r_emit (InMessage_destruct m) (r_remove_message i a (r\<lparr>r_messageAllocator := pool, r_heap := (r_heap r)(a := None)\<rparr>)))"
proof -
  note p = rinv_parts [OF inv]
  have "a \<in> dom (r_heap r)" using m(1) by auto
  from opool.dealloc_ok [OF p(3) this] obtain pool where
    pool: "pool_destroy a (r_messageAllocator r) = Inr pool" "pool_ok (dom (r_heap r) - {a}) pool" by blast
  let ?H = "(r_heap r)(a := None)"
  let ?r = "r_remove_message i a (r\<lparr>r_messageAllocator := pool, r_heap := ?H\<rparr>)"
  have "rbucket_ok ?H j (r_messageBuckets ?r j)" for j
    using rbucket_ok_remove [OF p(6) m(1) _ t [unfolded i_def]] rbucket_ok_remove_other [OF p(6) m(1), of j]
    by (cases "j = i") (simp_all add: receiver_defs i_def)
  then have "receiver_inv ?r"
    using p(1,4) pool(2) rheap_ok_remove [OF p(4), of a] sched_ok_delete [OF p(7) m] rqueue_ok_remove [OF p(8) q]
    by (simp add: receiver_inv_def receiver_defs rbuckets_ok_def)
  moreover have "r_destroy a (r_remove_message i a r) = Inr (r_emit (InMessage_destruct m) ?r)"
    using m(1) pool(1) q by (simp add: r_destroy_def r_deref_def receiver_defs)
  ultimately show ?thesis by auto
qed

text \<open>How \<open>dropMessage\<close> and the timeouts get rid of a message.\<close>

definition discard :: "nat \<Rightarrow> addr \<Rightarrow> inMessage \<Rightarrow> receiver \<Rightarrow> receiver res" where
  "discard i a m r =
     bindr (unschedule_if a m (cancel_resendTimeout i a (cancel_messageTimeout i a r)))
       (\<lambda>r1. r_destroy a (r_remove_message i a r1))"

lemma discard_ok:
  assumes inv: "receiver_inv r" and m: "r_heap r a = Some m" and q: "a \<notin> set (receivedMessages r)"
  defines "i \<equiv> r_getBucket (im_id m)"
  shows "\<exists>r'. discard i a m r = Inr r' \<and> receiver_inv r' \<and> r_heap r' = (r_heap r)(a := None) \<and>
     receivedMessages r' = receivedMessages r \<and>
     rb_messageTimeouts (r_messageBuckets r' i) = cancelTimeout a (rb_messageTimeouts (r_messageBuckets r i))"
proof -
  let ?r0 = "cancel_resendTimeout i a (cancel_messageTimeout i a r)"
  have inv0: "receiver_inv ?r0" using inv by (intro rinv_cancel)
  have m0: "r_heap ?r0 a = Some m" using m by (simp add: receiver_defs)
  obtain T P where u: "unschedule_if a m ?r0 = Inr (?r0\<lparr>peerTable := T, scheduledPeers := P, r_heap := (r_heap ?r0)(a \<mapsto> set_peer_of None m)\<rparr>)"
    "receiver_inv (?r0\<lparr>peerTable := T, scheduledPeers := P, r_heap := (r_heap ?r0)(a \<mapsto> set_peer_of None m)\<rparr>)"
    using rinv_unschedule_if [OF inv0 m0] by blast
  define r1 where "r1 = ?r0\<lparr>peerTable := T, scheduledPeers := P, r_heap := (r_heap ?r0)(a \<mapsto> set_peer_of None m)\<rparr>"
  have tm: "tm_ok (rb_messageTimeouts (r_messageBuckets r i))" "tm_ok (resendTimeouts (r_messageBuckets r i))"
    using rinv_parts(6) [OF inv, of i] by (simp_all add: rbucket_ok_def)
  have "\<exists>pool. r_destroy a (r_remove_message (r_getBucket (im_id (set_peer_of None m))) a r1) =
     Inr (r_emit (InMessage_destruct (set_peer_of None m)) (r_remove_message (r_getBucket (im_id (set_peer_of None m))) a (r1\<lparr>r_messageAllocator := pool, r_heap := (r_heap r1)(a := None)\<rparr>))) \<and>
     receiver_inv (r_emit (InMessage_destruct (set_peer_of None m)) (r_remove_message (r_getBucket (im_id (set_peer_of None m))) a (r1\<lparr>r_messageAllocator := pool, r_heap := (r_heap r1)(a := None)\<rparr>)))"
    by (rule r_destroy_ok [OF u(2) [folded r1_def]])
      (use q tm in \<open>simp_all add: r1_def receiver_defs tm_ok_def i_def [symmetric]\<close>)
  then obtain pool where d: "r_destroy a (r_remove_message i a r1) =
     Inr (r_emit (InMessage_destruct (set_peer_of None m)) (r_remove_message i a (r1\<lparr>r_messageAllocator := pool, r_heap := (r_heap r1)(a := None)\<rparr>)))"
     "receiver_inv (r_emit (InMessage_destruct (set_peer_of None m)) (r_remove_message i a (r1\<lparr>r_messageAllocator := pool, r_heap := (r_heap r1)(a := None)\<rparr>)))"
    by (auto simp: i_def)
  then show ?thesis
    using u(1) by (auto simp: discard_def r1_def receiver_defs)
qed

lemma dropMessage_ok:
  assumes inv: "receiver_inv r" and m: "r_heap r a = Some m" and q: "a \<notin> set (receivedMessages r)"
  shows "\<exists>r'. dropMessage a r = Inr r' \<and> receiver_inv r' \<and> r_heap r' = (r_heap r)(a := None)"
proof -
  let ?i = "r_getBucket (im_id m)"
  have "dropMessage a r = bindr (discard ?i a m r) (\<lambda>r2. Inr (r_emit [PerfAdd destroyed_rx_messages 1] r2))"
    using m r_findMessage_present(1) [OF inv m]
    by (simp add: dropMessage_def discard_def Let_def bindr_assoc)
  with discard_ok [OF inv m q] show ?thesis by (auto simp: r_emit_def receiver_inv_def)
qed

section \<open>Message timeouts\<close>

lemma rinv_timeouts:
  assumes "receiver_inv r"
  shows "tm_ok (rb_messageTimeouts (r_messageBuckets r i))" "tm_ok (resendTimeouts (r_messageBuckets r i))"
    "a \<in> set (tlist (rb_messageTimeouts (r_messageBuckets r i))) \<Longrightarrow> \<exists>m. r_heap r a = Some m \<and> r_getBucket (im_id m) = i"
    "a \<in> set (tlist (resendTimeouts (r_messageBuckets r i))) \<Longrightarrow> \<exists>m. r_heap r a = Some m \<and> r_getBucket (im_id m) = i \<and>
       im_state m = RX_IN_PROGRESS \<and> a \<in> set (rb_messages (r_messageBuckets r i))"
  using rinv_parts(6) [OF assms, of i] unfolding rbucket_ok_def in_progress_def by auto

lemma r_expire_message_ok:
  assumes inv: "receiver_inv r" and m: "r_heap r a = Some m"
  defines "i \<equiv> r_getBucket (im_id m)"
  shows "\<exists>r'. r_expire_message i a m r = Inr r' \<and> receiver_inv r' \<and>
     rb_messageTimeouts (r_messageBuckets r' i) = cancelTimeout a (rb_messageTimeouts (r_messageBuckets r i)) \<and>
     receivedMessages r' = receivedMessages r \<and>
     (if im_state m = RX_IN_PROGRESS then r_heap r' a = None
      else r_heap r' a = Some (m\<lparr>im_state := RX_DROPPED\<rparr>))"
proof (cases "im_state m = RX_IN_PROGRESS")
  case True
  then have "a \<notin> set (receivedMessages r)"
    using rinv_parts(8) [OF inv] m by (auto simp: rqueue_ok_def in_progress_def)
  with discard_ok [OF inv m] True show ?thesis
    by (auto simp: r_expire_message_def discard_def Let_def i_def)
next
  case False
  let ?r1 = "cancel_resendTimeout i a (cancel_messageTimeout i a r)"
  have inv1: "receiver_inv ?r1" using inv by (intro rinv_cancel)
  have m1: "r_heap ?r1 a = Some m" using m by (simp add: receiver_defs)
  have "rmsg_ok (r_driver ?r1) (m\<lparr>im_state := RX_DROPPED\<rparr>)"
    using rinv_msg [OF inv m] False unfolding rmsg_ok_def by (simp add: receiver_defs)
  then have "receiver_inv (r_upd_message a (\<lambda>m. m\<lparr>im_state := RX_DROPPED\<rparr>) ?r1)"
    by (rule rinv_upd_message [OF inv1 m1 refl, rotated]) (simp_all add: False)
  with False m show ?thesis by (simp add: r_expire_message_def Let_def receiver_defs)
qed

lemma r_message_timeouts_loop_ok:
  assumes "receiver_inv r" "length (tlist (rb_messageTimeouts (r_messageBuckets r i))) \<le> fuel"
  shows "\<exists>r'. r_message_timeouts_loop fuel now i r = Inr r' \<and> receiver_inv r' \<and>
    (\<forall>a. tm_front (rb_messageTimeouts (r_messageBuckets r' i)) = Some a \<longrightarrow>
         \<not> hasElapsed now a (rb_messageTimeouts (r_messageBuckets r' i)))"
  using assms
proof (induction fuel arbitrary: r)
  case 0
  then show ?case
    by (subst r_message_timeouts_loop.simps) (auto simp: tm_front_def)
next
  case (Suc fuel)
  let ?tm = "rb_messageTimeouts (r_messageBuckets r i)"
  show ?case
  proof (cases "\<exists>a. tm_front ?tm = Some a \<and> hasElapsed now a ?tm")
    case False
    with Suc.prems show ?thesis
      by (subst r_message_timeouts_loop.simps) (auto split: option.splits)
  next
    case True
    then obtain a as where a: "tlist ?tm = a # as" "tm_front ?tm = Some a" "hasElapsed now a ?tm"
      by (auto simp: tm_front_iff)
    then obtain m where m: "r_heap r a = Some m" "r_getBucket (im_id m) = i"
      using rinv_timeouts(3) [OF Suc.prems(1), of a i] by auto
    obtain r' where r': "r_expire_message i a m r = Inr r'" "receiver_inv r'"
      "rb_messageTimeouts (r_messageBuckets r' i) = cancelTimeout a ?tm"
      using r_expire_message_ok [OF Suc.prems(1) m(1)] m(2) by blast
    have "length (tlist (rb_messageTimeouts (r_messageBuckets r' i))) \<le> fuel"
      using r'(3) a(1) Suc.prems(2) by simp
    from Suc.IH [OF r'(2) this] show ?thesis
      using a m r'(1) by (subst r_message_timeouts_loop.simps) simp
  qed
qed

lemma r_checkMessageTimeouts_ok:
  assumes "receiver_inv r"
  shows "\<exists>r'. r_checkMessageTimeouts now i r = Inr r' \<and> receiver_inv r'"
  using r_message_timeouts_loop_ok [OF assms, of i "length (tlist (rb_messageTimeouts (r_messageBuckets r i)))" now] assms
  by (auto simp: r_checkMessageTimeouts_def)

end
