(* ===== verification/Receiver_Resend.thy ===== *)
theory Receiver_Resend
  imports Receiver_Correct
begin

text \<open>
  Resend timeouts: which packets a receiver asks for. The scan of \<open>checkResendTimeouts\<close> sends one
  RESEND for every maximal run of missing packets below the limit, and the loop over the
  expired timeouts visits each message at most once.
\<close>

section \<open>The scan\<close>

definition resend_request :: "driver \<Rightarrow> inMessage \<Rightarrow> nat \<times> nat \<Rightarrow> event list" where
  "resend_request d m q =
     PerfAdd tx_resend_pkts 1 #
     ControlPacket_send d (sa_ip (im_source m))
       (encode_resend (ResendHeader (im_id m) (of_nat (fst q)) (of_nat (snd q)) (word_of_int (si_priority (im_info m)))))"

definition run_of :: "nat \<times> nat \<Rightarrow> nat list" where
  "run_of q = [fst q..<fst q + snd q]"

definition missing :: "inMessage \<Rightarrow> nat \<Rightarrow> nat list" where
  "missing m n = filter (\<lambda>i. im_packets m i = None) [0..<n]"

text \<open>Runs that are not empty and end at a packet that arrived or at the limit.\<close>

definition maximal_runs :: "inMessage \<Rightarrow> nat \<Rightarrow> (nat \<times> nat) list \<Rightarrow> bool" where
  "maximal_runs m n rs \<longleftrightarrow>
     (\<forall>q \<in> set rs. 0 < snd q \<and> (fst q + snd q = n \<or> im_packets m (fst q + snd q) \<noteq> None))"

lemma send_resend_eq:
  assumes "i + c \<le> 65535"
  shows "send_resend d m (int i) (int c) = Inr (resend_request d m (i, c))"
  using assms by (simp add: send_resend_def downCast_u16_iff resend_request_def)

lemma resend_scan_runs:
  assumes "n \<le> IM_MAX_MESSAGE_PACKETS"
  shows "\<lbrakk>k \<le> n; 0 < c \<Longrightarrow> i + c = k\<rbrakk> \<Longrightarrow>
    \<exists>rs. resend_scan (map int [k..<n]) (int i) (int c) d m = Inr (concat (map (resend_request d m) rs)) \<and>
      concat (map run_of rs) = [i..<i + c] @ filter (\<lambda>i. im_packets m i = None) [k..<n] \<and> maximal_runs m n rs"
proof (induction "n - k" arbitrary: k i c)
  case 0
  then have k: "k = n" by simp
  show ?case
  proof (cases "c = 0")
    case True
    with k show ?thesis by (intro exI [of _ "[]"]) (simp add: maximal_runs_def)
  next
    case False
    with 0 k assms have "i + c \<le> 65535" by (simp add: IM_MAX_MESSAGE_PACKETS_def)
    with False k 0 send_resend_eq [of i c d m] show ?thesis
      by (intro exI [of _ "[(i, c)]"]) (simp add: maximal_runs_def run_of_def)
  qed
next
  case (Suc j)
  then have lt: "k < n" by simp
  then have up: "[k..<n] = k # [Suc k..<n]" by (rule upt_conv_Cons)
  have get: "im_getPacket (int k) m = Inr (im_packets m k)" using lt assms by (simp add: im_getPacket_def)
  have j: "j = n - Suc k" "Suc k \<le> n" using Suc.hyps(2) lt by simp_all
  show ?case
  proof (cases "im_packets m k")
    case None
    let ?i = "if c = 0 then k else i"
    have "?i + Suc c = Suc k" using Suc.prems(2) by simp
    then obtain rs where rs: "resend_scan (map int [Suc k..<n]) (int ?i) (int (Suc c)) d m = Inr (concat (map (resend_request d m) rs))"
      "concat (map run_of rs) = [?i..<?i + Suc c] @ filter (\<lambda>i. im_packets m i = None) [Suc k..<n]" "maximal_runs m n rs"
      using Suc.hyps(1) [OF j, of "Suc c" ?i] by blast
    moreover have "[?i..<?i + Suc c] = [i..<i + c] @ [k]" using Suc.prems(2) by (cases "c = 0") simp_all
    ultimately show ?thesis
      using None get up by (intro exI [of _ rs]) (auto simp: add.commute [of "int c" 1] split: if_splits)
  next
    case (Some p)
    obtain rs where rs: "resend_scan (map int [Suc k..<n]) (int i) (int 0) d m = Inr (concat (map (resend_request d m) rs))"
      "concat (map run_of rs) = filter (\<lambda>i. im_packets m i = None) [Suc k..<n]" "maximal_runs m n rs"
      using Suc.hyps(1) [OF j, of 0 i] by auto
    show ?thesis
    proof (cases "c = 0")
      case True
      with Some get up rs show ?thesis by (intro exI [of _ rs]) simp
    next
      case False
      then have "i + c \<le> 65535" using Suc.prems(2) lt assms by (simp add: IM_MAX_MESSAGE_PACKETS_def)
      then have "send_resend d m (int i) (int c) = Inr (resend_request d m (i, c))" by (rule send_resend_eq)
      with False Some get up rs Suc.prems(2) show ?thesis
        by (intro exI [of _ "(i, c) # rs"]) (auto simp: maximal_runs_def run_of_def)
    qed
  qed
qed

lemma resend_scan_ok:
  assumes "n \<le> IM_MAX_MESSAGE_PACKETS"
  obtains rs where "resend_scan (map int [0..<n]) 0 0 d m = Inr (concat (map (resend_request d m) rs))"
    "concat (map run_of rs) = missing m n" "maximal_runs m n rs"
  using resend_scan_runs [OF assms, of 0 0 0 d m] by (auto simp: missing_def)

section \<open>The limit\<close>

lemma resend_limit_ok:
  assumes m: "rmsg_ok d m" and d: "driver_ok d"
  shows "\<exists>l. resend_limit m = Inr l \<and> (\<forall>n. l = Some n \<longrightarrow> 0 \<le> n \<and> nat n \<le> IM_MAX_MESSAGE_PACKETS)"
proof -
  let ?g = "bytesGranted (im_info m)"
  have pos: "0 < pdl d" "pdl d < 2 ^ 16" using pdl_pos pdl_bound d by blast+
  have u: "0 \<le> numUnscheduledPackets m" "numUnscheduledPackets m \<le> int IM_MAX_MESSAGE_PACKETS"
    and pd: "im_PACKET_DATA_LENGTH m = int (pdl d)" and g: "0 \<le> ?g" "?g \<le> im_messageLength m"
    and l: "im_messageLength m \<le> int (IM_MAX_MESSAGE_PACKETS * pdl d)"
    using m by (simp_all add: rmsg_ok_def im_wf_def sinfo_ok_def)
  have "numUnscheduledPackets m * int (pdl d) \<le> 1024 * 65536"
    using u pos by (intro mult_mono) (simp_all add: IM_MAX_MESSAGE_PACKETS_def)
  moreover have "0 \<le> numUnscheduledPackets m * int (pdl d)" using u by simp
  ultimately have o1: "in_int32 (numUnscheduledPackets m * int (pdl d))" by (intro in_int32I; linarith)
  have "int (pdl d) < 65536" using pos(2) by simp
  then have o2: "in_int32 (?g + int (pdl d))"
    using g rmsg_ok_length(2) [OF m d] by (intro in_int32I; linarith)
  have c: "cdiv (?g + int (pdl d) - 1) (int (pdl d)) = int (packets_for d (nat ?g))"
  proof -
    have e: "?g + int (pdl d) - 1 = int (nat ?g + pdl d - 1)" using g(1) pos(1) by simp
    show ?thesis unfolding e packets_for_def by (rule cdiv_int [OF pos(1)])
  qed
  have "nat ?g \<le> IM_MAX_MESSAGE_PACKETS * pdl d" using g(2) l by linarith
  then have "packets_for d (nat ?g) \<le> IM_MAX_MESSAGE_PACKETS" by (rule packets_for_le [OF pos(1)])
  moreover have "nat (numUnscheduledPackets m) \<le> IM_MAX_MESSAGE_PACKETS" using u by linarith
  ultimately show ?thesis
    using u o1 o2 c pos(1) unfolding resend_limit_def pd by (simp add: Let_def)
qed

section \<open>One expired timeout\<close>

lemma resend_message_ok:
  assumes inv: "receiver_inv r" and m: "r_heap r a = Some m" "im_state m = RX_IN_PROGRESS"
    and b: "a \<in> set (rb_messages (r_messageBuckets r i))"
  shows "\<exists>es. resend_message t i a m r = Inr (r_emit es (set_resendTimeout i a t r)) \<and>
              receiver_inv (r_emit es (set_resendTimeout i a t r))"
proof -
  have "receiver_inv (set_resendTimeout i a t r)"
    using rinv_set_resendTimeout [OF inv b] m by (simp add: in_progress_def)
  then have inv': "receiver_inv (r_emit es (set_resendTimeout i a t r))" for es by simp
  have triv: "set_resendTimeout i a t r = r_emit [] (set_resendTimeout i a t r)" by (simp add: r_emit_def)
  obtain l where l: "resend_limit m = Inr l" "\<And>n. l = Some n \<Longrightarrow> nat n \<le> IM_MAX_MESSAGE_PACKETS"
    using resend_limit_ok [OF rinv_msg [OF inv m(1)] rinv_parts(2) [OF inv]] by blast
  show ?thesis
  proof (cases l)
    case None
    then have "resend_message t i a m r = Inr (set_resendTimeout i a t r)"
      using m(2) l(1) by (simp add: resend_message_def)
    then show ?thesis using triv inv' [of "[]"] by metis
  next
    case (Some n)
    obtain rs where "resend_scan (map int [0..<nat n]) 0 0 (r_driver r) m = Inr (concat (map (resend_request (r_driver r) m) rs))"
      using resend_scan_ok [OF l(2) [OF Some], of "r_driver r" m] by metis
    then have "resend_message t i a m r = Inr (r_emit (concat (map (resend_request (r_driver r) m) rs)) (set_resendTimeout i a t r))"
      using m(2) l(1) Some by (simp add: resend_message_def)
    with inv' show ?thesis by blast
  qed
qed

lemma resend_step:
  assumes inv: "receiver_inv r" and f: "tlist (resendTimeouts (r_messageBuckets r i)) = a # as"
  obtains m r' where "r_heap r a = Some m" "resend_message t i a m r = Inr r'" "receiver_inv r'"
    "resendTimeouts (r_messageBuckets r' i) = setTimeout t a (resendTimeouts (r_messageBuckets r i))"
proof -
  have "a \<in> set (tlist (resendTimeouts (r_messageBuckets r i)))" using f by simp
  from rinv_timeouts(4) [OF inv this] obtain m where m: "r_heap r a = Some m" "im_state m = RX_IN_PROGRESS"
    "a \<in> set (rb_messages (r_messageBuckets r i))" by blast
  from resend_message_ok [OF inv m, of t] m(1) show thesis
    by (auto simp: receiver_defs intro!: that)
qed

text \<open>Whatever the clock shows, the loop keeps the invariant if it ends; and it ends when a restarted
  timeout has not elapsed.\<close>

lemma resend_timeouts_loop_inv:
  "\<lbrakk>receiver_inv r; resend_timeouts_loop fuel tsc now i r = Inr r'\<rbrakk> \<Longrightarrow> receiver_inv r'"
proof (induction fuel arbitrary: tsc r)
  case 0
  then show ?case
    by (subst (asm) resend_timeouts_loop.simps) (auto split: option.splits if_splits)
next
  case (Suc fuel)
  let ?tm = "resendTimeouts (r_messageBuckets r i)"
  show ?case
  proof (cases "\<exists>a. tm_front ?tm = Some a \<and> hasElapsed now a ?tm")
    case False
    with Suc.prems show ?thesis
      by (subst (asm) resend_timeouts_loop.simps) (auto split: option.splits if_splits)
  next
    case True
    then obtain a as where a: "tm_front ?tm = Some a" "hasElapsed now a ?tm" "tlist ?tm = a # as"
      by (auto simp: tm_front_iff)
    obtain m r1 where s: "r_heap r a = Some m" "resend_message (tsc 0) i a m r = Inr r1" "receiver_inv r1"
      using resend_step [OF Suc.prems(1) a(3)] by metis
    have "resend_timeouts_loop fuel (\<lambda>j. tsc (Suc j)) now i r1 = Inr r'"
      using Suc.prems(2) a(1,2) s(1,2) by (subst (asm) resend_timeouts_loop.simps) simp
    from Suc.IH [OF s(3) this] show ?thesis .
  qed
qed

lemma resend_timeouts_loop_ok:
  assumes "receiver_inv r" "tlist (resendTimeouts (r_messageBuckets r i)) = pending @ visited"
    "\<forall>x \<in> set visited. \<not> hasElapsed now x (resendTimeouts (r_messageBuckets r i))"
    "length pending \<le> fuel" "restarts_later tsc now (timeoutIntervalCycles (resendTimeouts (r_messageBuckets r i)))"
  shows "\<exists>r'. resend_timeouts_loop fuel tsc now i r = Inr r' \<and> receiver_inv r'"
  using assms
proof (induction pending arbitrary: r visited fuel tsc)
  case Nil
  then show ?case
    by (subst resend_timeouts_loop.simps) (auto simp: tm_front_def split: list.splits)
next
  case (Cons a pending)
  let ?tm = "resendTimeouts (r_messageBuckets r i)"
  have front: "tm_front ?tm = Some a" using Cons.prems(2) by (simp add: tm_front_def)
  show ?case
  proof (cases "hasElapsed now a ?tm")
    case False
    with front Cons.prems(1) show ?thesis
      by (subst resend_timeouts_loop.simps) simp
  next
    case True
    obtain k where k: "fuel = Suc k" "length pending \<le> k" using Cons.prems(4) by (cases fuel) auto
    have l: "tlist ?tm = a # (pending @ visited)" using Cons.prems(2) by simp
    then have na: "a \<notin> set (pending @ visited)"
      using rinv_timeouts(2) [OF Cons.prems(1), of i] by (auto simp: tm_ok_def)
    obtain m r1 where s: "r_heap r a = Some m" "resend_message (tsc 0) i a m r = Inr r1" "receiver_inv r1"
      "resendTimeouts (r_messageBuckets r1 i) = setTimeout (tsc 0) a ?tm"
      using resend_step [OF Cons.prems(1) l] by metis
    have t: "tlist (resendTimeouts (r_messageBuckets r1 i)) = pending @ visited @ [a]"
      "\<forall>x \<in> set (visited @ [a]). \<not> hasElapsed now x (resendTimeouts (r_messageBuckets r1 i))"
      "restarts_later (\<lambda>j. tsc (Suc j)) now (timeoutIntervalCycles (resendTimeouts (r_messageBuckets r1 i)))"
      using l na Cons.prems(3,5) s(4) by (auto simp: restarts_later_def hasElapsed_def not_le)
    from Cons.IH [OF s(3) t(1,2) k(2) t(3)] front True s(1,2) k(1) show ?thesis
      by (subst resend_timeouts_loop.simps) simp
  qed
qed

lemma checkResendTimeouts_ok:
  assumes "receiver_inv r" "restarts_later tsc now (timeoutIntervalCycles (resendTimeouts (r_messageBuckets r i)))"
  shows "\<exists>r'. checkResendTimeouts tsc now i r = Inr r' \<and> receiver_inv r'"
  using resend_timeouts_loop_ok [OF assms(1), of i _ "[]", OF _ _ _ assms(2)] assms(1)
  by (auto simp: checkResendTimeouts_def)

lemma checkResendTimeouts_inv:
  "receiver_inv r \<Longrightarrow> checkResendTimeouts tsc now i r = Inr r' \<Longrightarrow> receiver_inv r'"
  using resend_timeouts_loop_inv by (auto simp: checkResendTimeouts_def split: if_splits)

lemma r_checkTimeouts_inv:
  assumes "receiver_inv r" "r_checkTimeouts tsc r = Inr r'"
  shows "receiver_inv r'"
proof -
  let ?r = "r\<lparr>r_nextBucketIndex := r_nextBucketIndex r + 1\<rparr>"
  let ?i = "unat (r_nextBucketIndex r AND R_HASH_KEY_MASK)"
  from assms(2) obtain r1 where r1: "checkResendTimeouts (\<lambda>j. tsc (Suc j)) (tsc 0) ?i ?r = Inr r1"
    "r_checkMessageTimeouts (tsc 0) ?i r1 = Inr r'"
    by (auto simp: r_checkTimeouts_def Let_def bindr_eq_Inr)
  have "receiver_inv r1" using checkResendTimeouts_inv [OF _ r1(1)] assms(1) by simp
  with r_checkMessageTimeouts_ok [of r1 "tsc 0" ?i] r1(2) show ?thesis by auto
qed

lemma r_checkTimeouts_ok:
  assumes "receiver_inv r"
    "\<And>i. restarts_later (\<lambda>j. tsc (Suc j)) (tsc 0) (timeoutIntervalCycles (resendTimeouts (r_messageBuckets r i)))"
  shows "\<exists>r'. r_checkTimeouts tsc r = Inr r' \<and> receiver_inv r'"
proof -
  let ?r = "r\<lparr>r_nextBucketIndex := r_nextBucketIndex r + 1\<rparr>"
  let ?i = "unat (r_nextBucketIndex r AND R_HASH_KEY_MASK)"
  have "receiver_inv ?r" using assms(1) by simp
  then obtain r1 where "checkResendTimeouts (\<lambda>j. tsc (Suc j)) (tsc 0) ?i ?r = Inr r1" "receiver_inv r1"
    using checkResendTimeouts_ok [of ?r "\<lambda>j. tsc (Suc j)" "tsc 0" ?i] assms(2) [of ?i] by auto
  with r_checkMessageTimeouts_ok [of r1] show ?thesis
    by (auto simp: r_checkTimeouts_def Let_def)
qed

end
