(* ===== verification/Receiver_Grant.thy ===== *)
theory Receiver_Grant
  imports Receiver_Resend
begin

text \<open>
  \<open>trySendGrants\<close>: one round over the first peers of the schedule. It never fails on a consistent
  receiver, sends at most one GRANT per slot, never grants less than it did before nor more than
  the message, and leaves every message it visits with enough bytes granted.
\<close>

section \<open>One message\<close>

definition window_open :: "scheduled \<Rightarrow> scheduledMessageInfo \<Rightarrow> bool" where
  "window_open policy q \<longleftrightarrow>
     bytesGranted q = si_messageLength q \<or>
     minScheduledBytes policy \<le> bytesGranted q - (si_messageLength q - bytesRemaining q)"

lemma rstatic_limits:
  assumes "rstatic_ok d pm"
  defines "policy \<equiv> getScheduledPolicy pm"
  shows "0 \<le> minScheduledBytes policy" "maxScheduledBytes policy = 2 * minScheduledBytes policy"
    "maxScheduledBytes policy < 1073741824" "0 \<le> maxScheduledPriority policy"
    "maxScheduledPriority policy < degreeOvercommitment policy"
proof -
  have ok: "policy_ok pm" and r: "unat (RTT_BYTES pm) < 2 ^ 29" "MAX_PRIORITY pm \<le> 7"
    using assms(1) by (simp_all add: rstatic_ok_def)
  have l: "minScheduledBytes policy = int (unat (RTT_BYTES pm))" "maxScheduledBytes policy = 2 * int (unat (RTT_BYTES pm))"
    using scheduled_byte_limits [OF ok] r(1) unfolding policy_def by simp_all
  have "unat (RTT_BYTES pm) < 536870912" using r(1) by simp
  then have "int (unat (RTT_BYTES pm)) < 536870912" by linarith
  with l show "0 \<le> minScheduledBytes policy" "maxScheduledBytes policy = 2 * minScheduledBytes policy"
    "maxScheduledBytes policy < 1073741824" by linarith+
  show "0 \<le> maxScheduledPriority policy" using ok by (simp add: policy_def policy_ok_def getScheduledPolicy_def)
  show "maxScheduledPriority policy < degreeOvercommitment policy"
    unfolding policy_def using overcommitment_covers_levels [OF ok] r(2) by blast
qed

definition granted_info :: "scheduled \<Rightarrow> int \<Rightarrow> scheduledMessageInfo \<Rightarrow> scheduledMessageInfo" where
  "granted_info policy prio q =
     (let received = si_messageLength q - bytesRemaining q
      in if bytesGranted q - received < minScheduledBytes policy
         then q\<lparr>si_priority := prio, bytesGranted := min (received + maxScheduledBytes policy) (si_messageLength q)\<rparr>
         else q\<lparr>si_priority := prio\<rparr>)"

lemma granted_info_props:
  assumes "0 \<le> minScheduledBytes policy" "maxScheduledBytes policy = 2 * minScheduledBytes policy"
    "0 \<le> bytesRemaining q" "bytesRemaining q \<le> si_messageLength q" "bytesGranted q \<le> si_messageLength q"
  shows "bytesGranted q \<le> bytesGranted (granted_info policy prio q)"
    "bytesGranted (granted_info policy prio q) \<le> si_messageLength q"
    "window_open policy (granted_info policy prio q)"
    "si_priority (granted_info policy prio q) = prio"
    "si_messageLength (granted_info policy prio q) = si_messageLength q"
    "bytesRemaining (granted_info policy prio q) = bytesRemaining q"
    "si_peer (granted_info policy prio q) = si_peer q"
  using assms by (auto simp: granted_info_def window_open_def Let_def min_def)

lemma grant_message_ok:
  fixes slot unused :: int
  assumes inv: "receiver_inv r" and m: "r_heap r a = Some m"
  defines "policy \<equiv> getScheduledPolicy (r_policyManager r)"
  defines "prio \<equiv> max 0 (maxScheduledPriority policy - slot - unused)"
  defines "m' \<equiv> m\<lparr>im_info := granted_info policy prio (im_info m)\<rparr>"
  shows "\<exists>g es. grant_message policy unused slot a m r = Inr (g, r_emit es (r\<lparr>r_heap := (r_heap r)(a \<mapsto> m')\<rparr>)) \<and>
     length (sent_packets es) \<le> 1 \<and> receiver_inv (r_emit es (r\<lparr>r_heap := (r_heap r)(a \<mapsto> m')\<rparr>))"
proof -
  let ?q = "im_info m" and ?r = "r\<lparr>r_heap := (r_heap r)(a \<mapsto> m')\<rparr>"
  note ok = rinv_msg [OF inv m] and s = rinv_parts [OF inv]
  note lim = rstatic_limits [OF s(1), folded policy_def]
  have q: "0 \<le> bytesRemaining ?q" "bytesRemaining ?q \<le> si_messageLength ?q" "bytesGranted ?q \<le> si_messageLength ?q"
    "si_messageLength ?q = im_messageLength m" "0 \<le> bytesGranted ?q"
    using rmsg_ok_sinfo [OF ok] by (simp_all add: sinfo_ok_def)
  note gi = granted_info_props [OF lim(1,2) q(1-3), of prio]
  have "sinfo_ok (r_driver r) m'"
    using rmsg_ok_sinfo [OF ok] gi unfolding sinfo_ok_def m'_def by simp
  then have "rmsg_ok (r_driver r) m'" using rmsg_ok_info [OF ok] by (simp add: m'_def)
  then have "receiver_inv (r_upd_message a (\<lambda>_. m') r)"
    by (rule rinv_upd_message [OF inv m refl, rotated]) (simp_all add: m'_def gi)
  then have inv': "receiver_inv (r_emit es ?r)" for es using m by (simp add: r_upd_message_def)
  show ?thesis
  proof (cases "bytesGranted ?q - (si_messageLength ?q - bytesRemaining ?q) < minScheduledBytes policy")
    case True
    let ?new = "min (si_messageLength ?q - bytesRemaining ?q + maxScheduledBytes policy) (si_messageLength ?q)"
    have "in_int32 (si_messageLength ?q - bytesRemaining ?q + maxScheduledBytes policy)"
      using q lim(1-3) rmsg_ok_length(2) [OF ok s(2)] by (intro in_int32I; linarith)
    moreover have "bytesGranted ?q \<le> ?new" using True lim q by simp
    moreover have "granted_info policy prio ?q = ?q\<lparr>si_priority := prio, bytesGranted := ?new\<rparr>"
      using True by (simp add: granted_info_def Let_def)
    ultimately have "grant_message policy unused slot a m r = Inr (True, r_emit (PerfAdd tx_grant_pkts 1 #
        ControlPacket_send (r_driver r) (sa_ip (im_source m)) (grant_header (im_id m) ?new prio)) ?r)"
      using True m by (simp add: grant_message_def Let_def receiver_defs prio_def m'_def)
    then show ?thesis using inv' by (auto simp: ControlPacket_send_def Let_def)
  next
    case False
    then have "granted_info policy prio ?q = ?q\<lparr>si_priority := prio\<rparr>" by (simp add: granted_info_def Let_def)
    then have "grant_message policy unused slot a m r = Inr (False, r_emit [] ?r)"
      using False m by (simp add: grant_message_def Let_def receiver_defs prio_def m'_def)
    then show ?thesis using inv' by fastforce
  qed
qed

section \<open>The loop\<close>

lemma split_timer_eq:
  obtains tsc' timer' es where "split_timer b tsc timer r = (tsc', timer', r_emit es r)" "sent_packets es = []"
  by (cases b) (auto simp: split_timer_def Timer_split_def Let_def r_emit_def intro: that [of _ _ "[]"])

text \<open>Unscheduling a message keeps every other peer in the schedule.\<close>

lemma unschedule_inv:
  assumes inv: "receiver_inv r" and m: "r_heap r a = Some m" "si_peer (im_info m) = Some ip"
  obtains r' where "unschedule a r = Inr r'" "receiver_inv r'" "r_events r' = r_events r"
    "r_policyManager r' = r_policyManager r" "receivedMessages r' = receivedMessages r" "granting r' = granting r"
    "\<And>p. p \<noteq> ip \<Longrightarrow> p \<in> set (scheduledPeers r) \<Longrightarrow> p \<in> set (scheduledPeers r')"
proof -
  note s = rinv_parts [OF inv]
  obtain T P where u: "unschedule a r = Inr (r\<lparr>peerTable := T, scheduledPeers := P, r_heap := (r_heap r)(a \<mapsto> set_peer_of None m)\<rparr>)"
    "sched_ok ((r_heap r)(a \<mapsto> set_peer_of None m)) T P"
    using unschedule_ok [OF s(7) m] by blast
  have inv': "receiver_inv (r\<lparr>peerTable := T, scheduledPeers := P, r_heap := (r_heap r)(a \<mapsto> set_peer_of None m)\<rparr>)"
    using rinv_change [OF inv m(1) _ sinfo_ok_unlinked [OF rinv_msg [OF inv m(1)]] _ u(2)] by simp
  have mem: "p \<in> set Q \<longleftrightarrow> linked_to H p \<noteq> {}" if "sched_ok H U Q" for p H U Q
    using sched_ok_parts(3) [OF that, of p] sched_ok_parts(1) [OF that, of p] by (metis peer_ok_def set_empty)
  have "p \<in> set P" if "p \<noteq> ip" "p \<in> set (scheduledPeers r)" for p
  proof -
    have "linked_to ((r_heap r)(a \<mapsto> set_peer_of None m)) p = linked_to (r_heap r) p"
      using that m by (auto simp: linked_to_def)
    with that mem [OF s(7)] mem [OF u(2)] show ?thesis by simp
  qed
  with u(1) inv' show thesis
    by (intro that [of "r\<lparr>peerTable := T, scheduledPeers := P, r_heap := (r_heap r)(a \<mapsto> set_peer_of None m)\<rparr>"]) simp_all
qed

lemma next_in_neq:
  assumes "distinct xs" "x \<in> set xs" "next_in x xs = Some y"
  shows "y \<noteq> x"
proof -
  have "x \<notin> set (after x xs)"
    using before_after_id [OF assms(2)] assms(1) by (metis distinct.simps(2) distinct_append)
  moreover have "y \<in> set (after x xs)" using assms(3) by (auto simp: next_in_def split: list.splits)
  ultimately show ?thesis by blast
qed

lemma grant_loop_ok:
  assumes "receiver_inv r" "\<And>ip. it = Some ip \<Longrightarrow> ip \<in> set (scheduledPeers r)"
    "policy = getScheduledPolicy (r_policyManager r)" "nat (degreeOvercommitment policy - slot) \<le> fuel"
  shows "\<exists>r' es. grant_loop fuel it slot policy unused tsc timer r = Inr r' \<and> receiver_inv r' \<and>
     r_events r' = r_events r @ es \<and> length (sent_packets es) \<le> fuel \<and> receivedMessages r' = receivedMessages r \<and>
     granting r' = granting r"
  using assms
proof (induction fuel arbitrary: it slot tsc timer r)
  case 0
  then show ?case by (subst grant_loop.simps) (auto split: option.splits)
next
  case (Suc fuel)
  note inv = Suc.prems(1) and s = rinv_parts [OF Suc.prems(1)]
  show ?case
  proof (cases "it = None \<or> \<not> slot < degreeOvercommitment policy")
    case True
    with inv show ?thesis by (subst grant_loop.simps) (auto split: option.splits)
  next
    case False
    then obtain ip where it: "it = Some ip" and slot: "slot < degreeOvercommitment policy" by auto
    then have ip: "ip \<in> set (scheduledPeers r)" using Suc.prems(2) by simp
    then obtain a as where a: "peer_messages r ip = a # as"
      using sched_ok_parts(3) [OF s(7)] unfolding peer_messages_plist by (cases "plist (peerTable r) ip") auto
    then have "a \<in> linked_to (r_heap r) ip"
      using sched_ok_parts(5) [OF s(7), of a ip] unfolding peer_messages_plist by simp
    then obtain m where m: "r_heap r a = Some m" "si_peer (im_info m) = Some ip" by (auto simp: linked_to_def)
    define m' where "m' = m\<lparr>im_info := granted_info policy (max 0 (maxScheduledPriority policy - slot - unused)) (im_info m)\<rparr>"
    obtain g es where g: "grant_message policy unused slot a m r = Inr (g, r_emit es (r\<lparr>r_heap := (r_heap r)(a \<mapsto> m')\<rparr>))"
      "length (sent_packets es) \<le> 1" "receiver_inv (r_emit es (r\<lparr>r_heap := (r_heap r)(a \<mapsto> m')\<rparr>))"
      using grant_message_ok [OF inv m(1), of unused slot] Suc.prems(3) unfolding m'_def by blast
    obtain tsc1 timer1 es1 where t1: "split_timer g tsc timer (r_emit es (r\<lparr>r_heap := (r_heap r)(a \<mapsto> m')\<rparr>)) =
        (tsc1, timer1, r_emit es1 (r_emit es (r\<lparr>r_heap := (r_heap r)(a \<mapsto> m')\<rparr>)))" "sent_packets es1 = []"
      by (rule split_timer_eq)
    define r2 where "r2 = r_emit es1 (r_emit es (r\<lparr>r_heap := (r_heap r)(a \<mapsto> m')\<rparr>))"
    have r2: "receiver_inv r2" "r_heap r2 a = Some m'" "si_peer (im_info m') = Some ip"
      "r_events r2 = r_events r @ es @ es1" "r_policyManager r2 = r_policyManager r" "scheduledPeers r2 = scheduledPeers r"
      "receivedMessages r2 = receivedMessages r" "granting r2 = granting r"
      using g(3) m(2) by (simp_all add: r2_def r_emit_def m'_def granted_info_def Let_def receiver_inv_def)
    let ?fin = "si_messageLength (im_info m') \<le> bytesGranted (im_info m')"
    obtain r3 where r3: "(if ?fin then unschedule a r2 else Inr r2) = Inr r3" "receiver_inv r3"
      "r_events r3 = r_events r2" "r_policyManager r3 = r_policyManager r2" "receivedMessages r3 = receivedMessages r2"
      "granting r3 = granting r2"
      "\<And>p. p \<noteq> ip \<Longrightarrow> p \<in> set (scheduledPeers r2) \<Longrightarrow> p \<in> set (scheduledPeers r3)"
    proof (cases ?fin)
      case True
      obtain r' where "unschedule a r2 = Inr r'" "receiver_inv r'" "r_events r' = r_events r2"
        "r_policyManager r' = r_policyManager r2" "receivedMessages r' = receivedMessages r2" "granting r' = granting r2"
        "\<And>p. p \<noteq> ip \<Longrightarrow> p \<in> set (scheduledPeers r2) \<Longrightarrow> p \<in> set (scheduledPeers r')"
        by (rule unschedule_inv [OF r2(1-3)]) blast
      with True show thesis by (intro that [of r']) simp_all
    next
      case False
      show thesis by (rule that [of r2]) (use False r2(1) in simp_all)
    qed
    obtain tsc2 timer2 es2 where t2: "split_timer ?fin tsc1 timer1 r3 = (tsc2, timer2, r_emit es2 r3)" "sent_packets es2 = []"
      by (rule split_timer_eq)
    let ?it = "next_in ip (scheduledPeers r2)"
    have nx: "p \<in> set (scheduledPeers (r_emit es2 r3))" if "?it = Some p" for p
    proof -
      have "p \<noteq> ip" using next_in_neq [OF sched_ok_parts(2) [OF s(7)] ip] that r2(6) by simp
      with r3(7) set_next_in [OF that] show ?thesis by (simp add: r_emit_def)
    qed
    have "\<exists>r' es'. grant_loop fuel ?it (slot + 1) policy unused tsc2 timer2 (r_emit es2 r3) = Inr r' \<and> receiver_inv r' \<and>
        r_events r' = r_events (r_emit es2 r3) @ es' \<and> length (sent_packets es') \<le> fuel \<and>
        receivedMessages r' = receivedMessages (r_emit es2 r3) \<and> granting r' = granting (r_emit es2 r3)"
      by (rule Suc.IH [OF _ nx]) (use r3 r2 Suc.prems(3,4) slot in \<open>simp_all add: r_emit_def receiver_inv_def\<close>)
    then obtain r' es' where r': "grant_loop fuel ?it (slot + 1) policy unused tsc2 timer2 (r_emit es2 r3) = Inr r'" "receiver_inv r'"
      "r_events r' = r_events r @ es @ es1 @ es2 @ es'" "length (sent_packets es') \<le> fuel"
      "receivedMessages r' = receivedMessages r" "granting r' = granting r"
      using r2 r3 by (auto simp: r_emit_def)
    have "grant_loop (Suc fuel) it slot policy unused tsc timer r = Inr r'"
      using it slot a m(1) g(1) t1(1) r2(2) r3(1) t2(1) r'(1)
      by (subst grant_loop.simps) (simp add: r2_def [symmetric] Let_def)
    moreover have "length (sent_packets (es @ es1 @ es2 @ es')) \<le> Suc fuel"
      using g(2) t1(2) t2(2) r'(4) by simp
    ultimately show ?thesis using r' by blast
  qed
qed

section \<open>\<open>trySendGrants\<close> and \<open>poll\<close>\<close>

lemma trySendGrants_ok:
  assumes inv: "receiver_inv r" and small: "length (scheduledPeers r) < 2 ^ 31"
  shows "\<exists>r' es. trySendGrants tsc r = Inr r' \<and> receiver_inv r' \<and> r_events r' = r_events r @ es \<and>
     length (sent_packets es) \<le> nat MAX_OVERCOMMIT_COUNT \<and> receivedMessages r' = receivedMessages r"
proof (cases "granting r \<or> scheduledPeers r = []")
  case True
  with inv show ?thesis by (auto simp: trySendGrants_def)
next
  case False
  let ?p = "getScheduledPolicy (r_policyManager r)"
  let ?n = "max 0 (maxScheduledPriority ?p + 1 - int (length (scheduledPeers r)))"
  have l: "unat (of_nat (length (scheduledPeers r)) :: u64) = length (scheduledPeers r)"
    using small by (simp add: unat_of_nat take_bit_nat_eq_self)
  then have dc: "downCast_int (of_nat (length (scheduledPeers r))) = Inr (int (length (scheduledPeers r)))"
    using downCast_int_small [of "of_nat (length (scheduledPeers r))"] small by metis
  have deg: "degreeOvercommitment ?p = MAX_OVERCOMMIT_COUNT" "maxScheduledPriority ?p < degreeOvercommitment ?p"
    using rinv_parts(1) [OF inv] rstatic_limits(5) by (auto simp: rstatic_ok_def policy_ok_def getScheduledPolicy_def)
  have "\<exists>r' es. grant_loop (nat (degreeOvercommitment ?p)) (Some (hd (scheduledPeers r))) 0 ?p ?n (\<lambda>j. tsc (Suc j)) (tsc 0) (r\<lparr>granting := True\<rparr>) = Inr r' \<and>
      receiver_inv r' \<and> r_events r' = r_events (r\<lparr>granting := True\<rparr>) @ es \<and> length (sent_packets es) \<le> nat (degreeOvercommitment ?p) \<and>
      receivedMessages r' = receivedMessages (r\<lparr>granting := True\<rparr>) \<and> granting r' = granting (r\<lparr>granting := True\<rparr>)"
    by (rule grant_loop_ok) (use inv False in simp_all)
  then show ?thesis
    using False dc deg by (auto simp: trySendGrants_def Let_def)
qed

lemma trySendGrants_inv:
  assumes "receiver_inv r" "trySendGrants tsc r = Inr r'"
  shows "receiver_inv r'"
proof (cases "granting r \<or> scheduledPeers r = []")
  case True
  with assms show ?thesis by (auto simp: trySendGrants_def split: if_splits)
next
  case False
  let ?p = "getScheduledPolicy (r_policyManager r)"
  from assms(2) False obtain n r1 where
    r1: "grant_loop (nat (degreeOvercommitment ?p)) (Some (hd (scheduledPeers r))) 0 ?p n (\<lambda>j. tsc (Suc j)) (tsc 0) (r\<lparr>granting := True\<rparr>) = Inr r1"
    "r' = r1\<lparr>granting := False\<rparr>"
    by (auto simp: trySendGrants_def Let_def res_simps)
  have "\<exists>r' es. grant_loop (nat (degreeOvercommitment ?p)) (Some (hd (scheduledPeers r))) 0 ?p n (\<lambda>j. tsc (Suc j)) (tsc 0) (r\<lparr>granting := True\<rparr>) = Inr r' \<and>
      receiver_inv r' \<and> r_events r' = r_events (r\<lparr>granting := True\<rparr>) @ es \<and> length (sent_packets es) \<le> nat (degreeOvercommitment ?p) \<and>
      receivedMessages r' = receivedMessages (r\<lparr>granting := True\<rparr>) \<and> granting r' = granting (r\<lparr>granting := True\<rparr>)"
    by (rule grant_loop_ok) (use assms(1) False in simp_all)
  with r1 show ?thesis by auto
qed

lemma receiver_poll_inv:
  assumes "receiver_inv r" "receiver_poll tsc1 tsc2 r = Inr r'"
  shows "receiver_inv r'"
proof -
  obtain r1 where "trySendGrants tsc1 r = Inr r1" "r_checkTimeouts tsc2 r1 = Inr r'"
    using assms(2) by (auto simp: receiver_poll_def bindr_eq_Inr)
  with trySendGrants_inv [OF assms(1)] r_checkTimeouts_inv show ?thesis by blast
qed

end
