(* ===== verification/Receiver_Data.thy ===== *)
theory Receiver_Data
  imports Receiver_Grant
begin

text \<open>
  DATA packets. A packet as a sender builds it (\<open>data_packet_ok\<close>) that agrees with what is known of
  its message (\<open>data_fits\<close>) is stored or recognised as a duplicate; the last missing packet
  completes the message and puts it in the queue of received messages, exactly once.
\<close>

definition data_packet_ok :: "driver \<Rightarrow> packet \<Rightarrow> bool" where
  "data_packet_ok d p \<longleftrightarrow>
     (let h = decode_data (payload p); len = unat (totalLength h)
      in length (payload p) = unat (maxPayloadSize d) \<and> 0 < len \<and> len \<le> IM_MAX_MESSAGE_PACKETS * pdl d \<and>
         unat (dh_index h) < packets_for d len \<and>
         plength p = int (sizeof_DataHeader + chunk d len (unat (dh_index h))) \<and>
         unat (unscheduledIndexLimit h) \<le> IM_MAX_MESSAGE_PACKETS)"

definition same_message :: "dataHeader \<Rightarrow> ipAddress \<Rightarrow> inMessage \<Rightarrow> bool" where
  "same_message h ip m \<longleftrightarrow>
     sa_ip (im_source m) = ip \<and> sa_port (im_source m) = be16toh (sport (prefix (dh_common h))) \<and>
     im_messageLength m = int (unat (totalLength h))"

definition data_fits :: "packet \<Rightarrow> ipAddress \<Rightarrow> receiver \<Rightarrow> bool" where
  "data_fits p ip r =
     (let h = decode_data (payload p); msgId = hmessageId (dh_common h)
      in case r_findMessage msgId (r_messageBuckets r (r_getBucket msgId)) r of
           Inr (Some a) \<Rightarrow> (case r_heap r a of Some m \<Rightarrow> same_message h ip m | None \<Rightarrow> False)
         | _ \<Rightarrow> True)"

section \<open>A new message\<close>

definition fresh_message :: "driver \<Rightarrow> dataHeader \<Rightarrow> ipAddress \<Rightarrow> inMessage" where
  "fresh_message d h ip =
     (let len = unat (totalLength h); u = uint (unscheduledIndexLimit h)
      in \<lparr>im_id = hmessageId (dh_common h),
          im_source = \<lparr>sa_ip = ip, sa_port = be16toh (sport (prefix (dh_common h)))\<rparr>,
          im_TRANSPORT_HEADER_LENGTH = int sizeof_DataHeader, im_PACKET_DATA_LENGTH = int (pdl d),
          numExpectedPackets = int (packets_for d len), numUnscheduledPackets = u,
          im_scheduled = (int (packets_for d len) > u), im_start = 0, im_messageLength = int len,
          im_numPackets = 0, im_packets = Map.empty, im_state = RX_IN_PROGRESS,
          im_info = ScheduledMessageInfo (int len)\<rparr>)"

lemma fresh_message_ok:
  assumes "driver_ok d" "0 < unat (totalLength h)" "unat (totalLength h) \<le> IM_MAX_MESSAGE_PACKETS * pdl d"
    "unat (unscheduledIndexLimit h) \<le> IM_MAX_MESSAGE_PACKETS"
  shows "rmsg_ok d (fresh_message d h ip)"
proof -
  let ?n = "unat (totalLength h)"
  have "IM_MAX_MESSAGE_PACKETS * pdl d \<le> 1024 * 65536"
    using pdl_bound [OF assms(1)] by (simp add: IM_MAX_MESSAGE_PACKETS_def)
  then have l: "in_int32 (int ?n)" using assms(3) by (intro in_int32I; linarith)
  have p: "0 < packets_for d ?n" using packets_for_iff [OF pdl_pos [OF assms(1)], of 0 ?n] assms(2) by simp
  have u: "uint (unscheduledIndexLimit h) \<le> int IM_MAX_MESSAGE_PACKETS"
    using assms(4) by (metis of_nat_le_iff uint_nat)
  have n: "0 < uint (totalLength h)" "uint (totalLength h) \<le> int (IM_MAX_MESSAGE_PACKETS * pdl d)"
    using assms(2,3) unfolding uint_nat by linarith+
  have w: "im_wf d (fresh_message d h ip)"
    using l by (simp add: im_wf_def fresh_message_def Let_def)
  have s: "sinfo_ok d (fresh_message d h ip)"
    by (simp add: sinfo_ok_def fresh_message_def Let_def ScheduledMessageInfo_def)
  have e: "im_messageLength (fresh_message d h ip) = int ?n" "im_len (fresh_message d h ip) = ?n"
    by (simp_all add: im_len_def fresh_message_def Let_def)
  show ?thesis
    unfolding rmsg_ok_def e using w s p u n
    by (simp add: fresh_message_def Let_def del: of_nat_mult)
qed

lemma InMessage_fresh:
  assumes "driver_ok d" "unat (totalLength h) \<le> IM_MAX_MESSAGE_PACKETS * pdl d"
  shows "InMessage d sizeof_DataHeader (word_of_int (int_of_u32 (totalLength h))) (hmessageId (dh_common h))
     \<lparr>sa_ip = ip, sa_port = be16toh (sport (prefix (dh_common h)))\<rparr> (uint (unscheduledIndexLimit h)) =
     Inr (fresh_message d h ip)"
    "int_of_u32 (totalLength h) = int (unat (totalLength h))"
proof -
  have "IM_MAX_MESSAGE_PACKETS * pdl d \<le> 1024 * 65536"
    using pdl_bound [OF assms(1)] by (simp add: IM_MAX_MESSAGE_PACKETS_def)
  with assms(2) have l: "unat (totalLength h) < 2 ^ 31" by simp
  then show e: "int_of_u32 (totalLength h) = int (unat (totalLength h))" by (rule int_of_u32_small)
  show "InMessage d sizeof_DataHeader (word_of_int (int_of_u32 (totalLength h))) (hmessageId (dh_common h))
     \<lparr>sa_ip = ip, sa_port = be16toh (sport (prefix (dh_common h)))\<rparr> (uint (unscheduledIndexLimit h)) =
     Inr (fresh_message d h ip)"
    unfolding e InMessage_eq [OF assms(1) l] by (simp add: fresh_message_def Let_def)
qed

lemma rbucket_ok_new:
  assumes "rbucket_ok H (r_getBucket (im_id m)) b" "H a = None"
  shows "rbucket_ok (H(a \<mapsto> m)) (r_getBucket (im_id m)) (b\<lparr>rb_messages := rb_messages b @ [a]\<rparr>)"
proof -
  have a: "a \<notin> set (rb_messages b)" using assms unfolding rbucket_ok_def by auto
  have "{c. \<exists>n. (H(a \<mapsto> m)) c = Some n \<and> r_getBucket (im_id n) = r_getBucket (im_id m)} =
      insert a {c. \<exists>n. H c = Some n \<and> r_getBucket (im_id n) = r_getBucket (im_id m)}"
    using assms(2) by auto
  moreover have "in_progress (H(a \<mapsto> m)) c" if "in_progress H c" for c
    using that assms(2) by (auto simp: in_progress_def)
  ultimately show ?thesis using assms(1) a unfolding rbucket_ok_def by auto
qed

lemma rbucket_ok_new_other:
  assumes "rbucket_ok H i b" "H a = None" "r_getBucket (im_id m) \<noteq> i"
  shows "rbucket_ok (H(a \<mapsto> m)) i b"
proof -
  have "{c. \<exists>n. (H(a \<mapsto> m)) c = Some n \<and> r_getBucket (im_id n) = i} = {c. \<exists>n. H c = Some n \<and> r_getBucket (im_id n) = i}"
    using assms(2,3) by auto
  moreover have "in_progress (H(a \<mapsto> m)) c" if "in_progress H c" for c
    using that assms(2) by (auto simp: in_progress_def)
  ultimately show ?thesis using assms(1) unfolding rbucket_ok_def by auto
qed

lemma rinv_new:
  assumes inv: "receiver_inv r" and a: "r_heap r a = None" and pool: "pool_ok (insert a (dom (r_heap r))) pool"
    and m: "rmsg_ok (r_driver r) m" "si_peer (im_info m) = None" "\<And>b n. r_heap r b = Some n \<Longrightarrow> im_id n \<noteq> im_id m"
  shows "receiver_inv (r_upd_bucket (r_getBucket (im_id m)) (\<lambda>b. b\<lparr>rb_messages := rb_messages b @ [a]\<rparr>)
     (r\<lparr>r_messageAllocator := pool, r_heap := (r_heap r)(a \<mapsto> m)\<rparr>))"
proof -
  note p = rinv_parts [OF inv]
  have "rheap_ok (r_driver r) ((r_heap r)(a \<mapsto> m))"
    using p(4) m(1,3) unfolding rheap_ok_def by (auto split: if_splits) metis+
  moreover have "rqueue_ok ((r_heap r)(a \<mapsto> m)) (receivedMessages r)"
    using p(8) a unfolding rqueue_ok_def by (auto simp: in_progress_def)
  moreover have "rbucket_ok ((r_heap r)(a \<mapsto> m)) j
      (((r_messageBuckets r)(r_getBucket (im_id m) := (r_messageBuckets r (r_getBucket (im_id m)))
         \<lparr>rb_messages := rb_messages (r_messageBuckets r (r_getBucket (im_id m))) @ [a]\<rparr>)) j)" for j
    using rbucket_ok_new [OF p(6) a] rbucket_ok_new_other [OF p(6) a, of m j] by auto
  ultimately show ?thesis
    using p(1) pool sched_ok_new [OF p(7) a m(2)] by (simp add: receiver_inv_def receiver_defs rbuckets_ok_def)
qed

definition started_message :: "driver \<Rightarrow> dataHeader \<Rightarrow> ipAddress \<Rightarrow> inMessage" where
  "started_message d h ip =
     (let m = fresh_message d h ip in if im_scheduled m then set_peer_of (Some ip) m else m)"

lemma new_message_ok:
  fixes ip :: ipAddress
  assumes inv: "receiver_inv r" and h: "0 < unat (totalLength h)"
      "unat (totalLength h) \<le> IM_MAX_MESSAGE_PACKETS * pdl (r_driver r)"
      "unat (unscheduledIndexLimit h) \<le> IM_MAX_MESSAGE_PACKETS"
    and new: "\<And>b n. r_heap r b = Some n \<Longrightarrow> im_id n \<noteq> hmessageId (dh_common h)"
  defines "i \<equiv> r_getBucket (hmessageId (dh_common h))" and "m \<equiv> started_message (r_driver r) h ip"
  shows "new_message h ip i r = Inl BadAlloc \<and> pool_construct (r_messageAllocator r) = Inl BadAlloc \<or>
    (\<exists>a r'. new_message h ip i r = Inr (a, r') \<and> receiver_inv r' \<and> r_heap r a = None \<and>
       r_heap r' = (r_heap r)(a \<mapsto> m) \<and> receivedMessages r' = receivedMessages r \<and> r_driver r' = r_driver r)"
proof (cases "pool_construct (r_messageAllocator r)")
  case (Inl e)
  then show ?thesis using opool.alloc_fails [OF rinv_parts(3) [OF inv]] by (simp add: new_message_def Let_def)
next
  case (Inr ap)
  obtain a pool where ap: "ap = (a, pool)" by fastforce
  let ?f = "fresh_message (r_driver r) h ip"
  have d: "driver_ok (r_driver r)" using rinv_parts(2) [OF inv] .
  have a: "r_heap r a = None" "pool_ok (insert a (dom (r_heap r))) pool"
    using opool.alloc_fresh [OF rinv_parts(3) [OF inv]] Inr ap by auto
  have f: "rmsg_ok (r_driver r) ?f" using fresh_message_ok [OF d h] .
  have fid: "im_id ?f = hmessageId (dh_common h)" "si_peer (im_info ?f) = None" "sa_ip (im_source ?f) = ip"
    by (simp_all add: fresh_message_def Let_def ScheduledMessageInfo_def)
  define r0 where "r0 = r_upd_bucket i (\<lambda>b. b\<lparr>rb_messages := rb_messages b @ [a]\<rparr>)
     (r\<lparr>r_messageAllocator := pool, r_heap := (r_heap r)(a \<mapsto> ?f)\<rparr>)"
  have inv0: "receiver_inv r0"
    using rinv_new [OF inv a f fid(2)] new fid(1) unfolding r0_def i_def by simp
  define r2 where "r2 = r_upd_bucket i (\<lambda>b. b\<lparr>rb_messages := rb_messages b @ [a]\<rparr>)
     (r_emit [PerfAdd allocated_rx_messages 1] (r\<lparr>r_messageAllocator := pool, r_heap := (r_heap r)(a \<mapsto> ?f)\<rparr>))"
  have "r2 = r_emit [PerfAdd allocated_rx_messages 1] r0"
    by (rule receiver.equality) (simp_all add: r2_def r0_def receiver_defs)
  then have "receiver_inv r2" using inv0 by simp
  then have r2: "receiver_inv r2" "r_heap r2 a = Some ?f" "r_heap r2 = (r_heap r)(a \<mapsto> ?f)" "receivedMessages r2 = receivedMessages r"
    "r_driver r2 = r_driver r"
    by (simp_all add: r2_def receiver_defs)
  have unf: "new_message h ip i r = bindr (if im_scheduled ?f then schedule a r2 else Inr r2) (\<lambda>r3. Inr (a, r3))"
    using Inr ap InMessage_fresh(1) [OF d h(2)]
    by (simp add: new_message_def Let_def r2_def receiver_defs signalNewMessage_def)
  show ?thesis
  proof (cases "im_scheduled ?f")
    case False
    then have "m = ?f" by (simp add: m_def started_message_def Let_def)
    with False unf r2 a(1) show ?thesis by simp
  next
    case True
    then have m: "m = set_peer_of (Some ip) ?f" by (simp add: m_def started_message_def Let_def)
    obtain T P where s: "schedule a r2 = Inr (r2\<lparr>peerTable := T, scheduledPeers := P, r_heap := (r_heap r2)(a \<mapsto> m)\<rparr>)"
      "sched_ok ((r_heap r2)(a \<mapsto> m)) T P"
      using schedule_ok [OF rinv_parts(7) [OF r2(1)] r2(2) fid(2)] fid(3) m by auto
    have "sinfo_ok (r_driver r) m"
      using rmsg_ok_sinfo [OF f] True fid(3) unfolding m sinfo_ok_def
      by (simp add: fresh_message_def Let_def ScheduledMessageInfo_def received_bytes_def)
    then have "rmsg_ok (r_driver r2) m" using rmsg_ok_info [OF f] m r2(5) by simp
    then have "receiver_inv (r2\<lparr>peerTable := T, scheduledPeers := P, r_heap := (r_heap r2)(a \<mapsto> m)\<rparr>)"
      by (rule rinv_change [OF r2(1,2) _ _ _ s(2), rotated]) (simp_all add: m)
    with True unf s(1) r2 a(1) show ?thesis by simp
  qed
qed

section \<open>A new packet\<close>

definition add_packet :: "nat \<Rightarrow> packet \<Rightarrow> inMessage \<Rightarrow> inMessage" where
  "add_packet i p m = m\<lparr>im_packets := (im_packets m)(i \<mapsto> p), im_numPackets := im_numPackets m + 1\<rparr>"

text \<open>The message after the schedule was told of the packet.\<close>

definition progressed :: "driver \<Rightarrow> nat \<Rightarrow> packet \<Rightarrow> inMessage \<Rightarrow> inMessage" where
  "progressed d i p m =
     (if si_peer (im_info m) = None then add_packet i p m
      else (add_packet i p m)\<lparr>im_info := (im_info m)\<lparr>bytesRemaining := bytesRemaining (im_info m) - int (chunk d (im_len m) i)\<rparr>\<rparr>)"

definition packet_for :: "driver \<Rightarrow> nat \<Rightarrow> packet \<Rightarrow> inMessage \<Rightarrow> bool" where
  "packet_for d i p m \<longleftrightarrow>
     im_packets m i = None \<and> i < packets_for d (im_len m) \<and>
     length (payload p) = unat (maxPayloadSize d) \<and> plength p = int (sizeof_DataHeader + chunk d (im_len m) i)"

lemma add_packet_wf:
  assumes m: "rmsg_ok d m" and d: "driver_ok d" and p: "packet_for d i p m"
  shows "im_setPacket (int i) p m = Inr (True, add_packet i p m)" "im_wf d (add_packet i p m)"
    "received_bytes d (add_packet i p m) = received_bytes d m + chunk d (im_len m) i"
    "received_bytes d m + chunk d (im_len m) i \<le> im_len m"
    "im_state m = RX_IN_PROGRESS" "im_numPackets m < numExpectedPackets m"
proof -
  have wf: "im_wf d m" and sub: "dom (im_packets m) \<subseteq> {..<packets_for d (im_len m)}"
    and ex: "numExpectedPackets m = int (packets_for d (im_len m))"
    using m by (simp_all add: rmsg_ok_def)
  have pos: "0 < pdl d" using d by (rule pdl_pos)
  have i: "i \<notin> dom (im_packets m)" "i < packets_for d (im_len m)" using p by (auto simp: packet_for_def)
  have "im_messageLength m \<le> int (IM_MAX_MESSAGE_PACKETS * pdl d)" using m by (simp add: rmsg_ok_def)
  then have "im_len m \<le> IM_MAX_MESSAGE_PACKETS * pdl d" unfolding im_len_def by linarith
  then have "i < IM_MAX_MESSAGE_PACKETS" using packets_for_le [OF pos] i(2) by (meson less_le_trans)
  then show set: "im_setPacket (int i) p m = Inr (True, add_packet i p m)"
    using p by (simp add: im_setPacket_def packet_for_def add_packet_def)
  from im_setPacket_ok [OF wf, of "int i" p] \<open>i < IM_MAX_MESSAGE_PACKETS\<close> p set
  show "im_wf d (add_packet i p m)" by (simp add: packet_for_def)
  have fin: "finite (dom (im_packets m))" using finite_packets [OF wf] .
  have dom: "dom (im_packets (add_packet i p m)) = insert i (dom (im_packets m))" by (simp add: add_packet_def)
  have len: "im_len (add_packet i p m) = im_len m" by (simp add: im_len_def add_packet_def)
  show sum: "received_bytes d (add_packet i p m) = received_bytes d m + chunk d (im_len m) i"
    unfolding received_bytes_def dom len using fin i(1) by simp
  have "(\<Sum>j\<in>insert i (dom (im_packets m)). chunk d (im_len m) j) \<le> (\<Sum>j<packets_for d (im_len m). chunk d (im_len m) j)"
    using sub i(2) by (intro sum_mono2) auto
  then show "received_bytes d m + chunk d (im_len m) i \<le> im_len m"
    using sum sum_all_chunks [OF pos, of "im_len m"] unfolding received_bytes_def dom len by simp
  have "card (insert i (dom (im_packets m))) \<le> card {..<packets_for d (im_len m)}"
    using sub i(2) by (intro card_mono) auto
  then have "card (dom (im_packets m)) < packets_for d (im_len m)" using fin i(1) by simp
  then show n: "im_numPackets m < numExpectedPackets m" using wf ex by (simp add: im_wf_def)
  then show "im_state m = RX_IN_PROGRESS" using m by (simp add: rmsg_ok_def)
qed

lemma add_packet_fields [simp]:
  "im_id (add_packet i p m) = im_id m" "im_info (add_packet i p m) = im_info m" "im_state (add_packet i p m) = im_state m"
  "im_len (add_packet i p m) = im_len m" "im_messageLength (add_packet i p m) = im_messageLength m"
  "numExpectedPackets (add_packet i p m) = numExpectedPackets m" "im_source (add_packet i p m) = im_source m"
  "numUnscheduledPackets (add_packet i p m) = numUnscheduledPackets m" "im_scheduled (add_packet i p m) = im_scheduled m"
  "im_numPackets (add_packet i p m) = im_numPackets m + 1" "im_packets (add_packet i p m) = (im_packets m)(i \<mapsto> p)"
  "im_TRANSPORT_HEADER_LENGTH (add_packet i p m) = im_TRANSPORT_HEADER_LENGTH m"
  by (simp_all add: add_packet_def im_len_def)

lemma progressed_fields [simp]:
  "im_id (progressed d i p m) = im_id m" "im_state (progressed d i p m) = im_state m"
  "im_len (progressed d i p m) = im_len m" "im_messageLength (progressed d i p m) = im_messageLength m"
  "numExpectedPackets (progressed d i p m) = numExpectedPackets m" "im_source (progressed d i p m) = im_source m"
  "im_numPackets (progressed d i p m) = im_numPackets m + 1" "im_packets (progressed d i p m) = (im_packets m)(i \<mapsto> p)"
  "si_peer (im_info (progressed d i p m)) = si_peer (im_info m)"
  by (simp_all add: progressed_def)

lemma progressed_ok:
  assumes m: "rmsg_ok d m" and d: "driver_ok d" and p: "packet_for d i p m"
  shows "im_numPackets m + 1 < numExpectedPackets m \<Longrightarrow> rmsg_ok d (progressed d i p m)"
    "\<not> im_numPackets m + 1 < numExpectedPackets m \<Longrightarrow> rmsg_ok d ((progressed d i p m)\<lparr>im_state := RX_COMPLETED\<rparr>)"
proof -
  note a = add_packet_wf [OF assms]
  have w: "im_wf d (progressed d i p m)" using a(2) by (simp add: progressed_def)
  have len: "im_messageLength m = int (im_len m)" using rmsg_ok_length(3) [OF m d] .
  have s: "sinfo_ok d (progressed d i p m)"
    using rmsg_ok_sinfo [OF m] a(3,4) len unfolding sinfo_ok_def by (auto simp: progressed_def)
  have i: "i < packets_for d (im_len m)" "plength p = int (sizeof_DataHeader + chunk d (im_len m) i)"
    using p by (simp_all add: packet_for_def)
  have u: "numUnscheduledPackets (progressed d i p m) = numUnscheduledPackets m" "im_scheduled (progressed d i p m) = im_scheduled m"
    by (simp_all add: progressed_def)
  show "im_numPackets m + 1 < numExpectedPackets m \<Longrightarrow> rmsg_ok d (progressed d i p m)"
    using m w s i a(5) unfolding rmsg_ok_def by (simp add: u)
  show "\<not> im_numPackets m + 1 < numExpectedPackets m \<Longrightarrow> rmsg_ok d ((progressed d i p m)\<lparr>im_state := RX_COMPLETED\<rparr>)"
    using m w s i unfolding rmsg_ok_def by (simp add: u)
qed

lemma sched_ok_state:
  "sched_ok (H(a \<mapsto> m)) T P \<Longrightarrow> sched_ok (H(a \<mapsto> m\<lparr>im_state := st\<rparr>)) T P"
  using sched_ok_same [of "H(a \<mapsto> m)" T P a m "m\<lparr>im_state := st\<rparr>"] by simp

lemma packet_scheduled_ok:
  assumes inv: "receiver_inv r" and m: "r_heap r a = Some m" and p: "packet_for (r_driver r) i p m"
  defines "m' \<equiv> progressed (r_driver r) i p m"
  shows "\<exists>T P. packet_scheduled p a (add_packet i p m) (r_upd_message a (\<lambda>_. add_packet i p m) r) =
      Inr (r\<lparr>r_heap := (r_heap r)(a \<mapsto> m'), peerTable := T, scheduledPeers := P\<rparr>) \<and> sched_ok ((r_heap r)(a \<mapsto> m')) T P"
proof -
  note s = rinv_parts [OF inv] and ok = rinv_msg [OF inv m]
  note a = add_packet_wf [OF ok s(2) p]
  have up: "r_upd_message a (\<lambda>_. add_packet i p m) r = r\<lparr>r_heap := (r_heap r)(a \<mapsto> add_packet i p m)\<rparr>"
    using m by (simp add: r_upd_message_def)
  show ?thesis
  proof (cases "si_peer (im_info m)")
    case None
    then have "sched_ok ((r_heap r)(a \<mapsto> m')) (peerTable r) (scheduledPeers r)"
      by (intro sched_ok_same [OF s(7) m]) (simp_all add: m'_def progressed_def)
    with None show ?thesis unfolding up
      by (intro exI [of _ "peerTable r"] exI [of _ "scheduledPeers r"]) (simp add: packet_scheduled_def m'_def progressed_def)
  next
    case (Some ip)
    have sch: "im_scheduled m" "bytesRemaining (im_info m) = im_messageLength m - int (received_bytes (r_driver r) m)"
      and th: "im_TRANSPORT_HEADER_LENGTH m = int sizeof_DataHeader"
      using rmsg_ok_sinfo [OF ok] Some ok by (simp_all add: sinfo_ok_def rmsg_ok_def im_wf_def)
    have pd: "plength p - im_TRANSPORT_HEADER_LENGTH m = int (chunk (r_driver r) (im_len m) i)"
      using p th by (simp add: packet_for_def)
    have le: "int (chunk (r_driver r) (im_len m) i) \<le> bytesRemaining (im_info m)"
      using sch(2) a(4) rmsg_ok_length(3) [OF ok s(2)] by simp
    define r1 where "r1 = r\<lparr>r_heap := (r_heap r)(a \<mapsto> m')\<rparr>"
    have "\<exists>T P. updateSchedule a r1 = Inr (r1\<lparr>peerTable := T, scheduledPeers := P\<rparr>) \<and> sched_ok (r_heap r1) T P"
      by (rule updateSchedule_ok [where H = "r_heap r" and m = m and m' = m' and ip = ip])
        (use s(7) Some m in \<open>simp_all add: r1_def m'_def progressed_def\<close>)
    moreover have "packet_scheduled p a (add_packet i p m) (r_upd_message a (\<lambda>_. add_packet i p m) r) = updateSchedule a r1"
      using Some sch(1) pd le unfolding up
      by (simp add: packet_scheduled_def Let_def receiver_defs r1_def m'_def progressed_def)
    ultimately show ?thesis by (simp add: r1_def)
  qed
qed

section \<open>Completion\<close>

lemma rinv_complete:
  assumes inv: "receiver_inv r" and m: "r_heap r a = Some m" "im_state m = RX_IN_PROGRESS"
    and m': "im_id m' = im_id m" "rmsg_ok (r_driver r) m'" "im_state m' = RX_COMPLETED"
    and s: "sched_ok ((r_heap r)(a \<mapsto> m')) T P"
  defines "i \<equiv> r_getBucket (im_id m)"
  shows "a \<notin> set (receivedMessages r)"
    "receiver_inv (cancel_resendTimeout i a (r\<lparr>r_heap := (r_heap r)(a \<mapsto> m'), peerTable := T, scheduledPeers := P,
       receivedMessages := receivedMessages r @ [a]\<rparr>))"
proof -
  note p = rinv_parts [OF inv]
  show q: "a \<notin> set (receivedMessages r)" using p(8) m by (auto simp: rqueue_ok_def in_progress_def)
  have "insert a (dom (r_heap r)) = dom (r_heap r)" using m by auto
  moreover have "rbucket_ok ((r_heap r)(a \<mapsto> m')) i
      ((r_messageBuckets r i)\<lparr>resendTimeouts := cancelTimeout a (resendTimeouts (r_messageBuckets r i))\<rparr>)"
    using rinv_timeouts(2) [OF inv, of i]
    by (intro rbucket_ok_upd [OF rbucket_ok_cancel(2) [OF p(6)] m(1) m'(1)]) (simp add: tm_ok_def)
  moreover have "rbucket_ok ((r_heap r)(a \<mapsto> m')) j (r_messageBuckets r j)" if "j \<noteq> i" for j
    using that rinv_timeouts(4) [OF inv, of a j] m(1) unfolding i_def
    by (intro rbucket_ok_upd [OF p(6) m(1) m'(1)]) auto
  moreover have "rqueue_ok ((r_heap r)(a \<mapsto> m')) (receivedMessages r @ [a])"
    using p(8) q m' by (auto simp: rqueue_ok_def)
  ultimately show "receiver_inv (cancel_resendTimeout i a (r\<lparr>r_heap := (r_heap r)(a \<mapsto> m'), peerTable := T, scheduledPeers := P,
       receivedMessages := receivedMessages r @ [a]\<rparr>))"
    using p(1,3) rheap_ok_upd [OF p(4) m(1) m'(1,2)] s
    by (simp add: receiver_inv_def receiver_defs rbuckets_ok_def)
qed

section \<open>\<open>handleDataPacket\<close>\<close>

text \<open>The message after the packet, and whether the packet completed it.\<close>

definition completes :: "nat \<Rightarrow> inMessage \<Rightarrow> bool" where
  "completes i m \<longleftrightarrow> im_packets m i = None \<and> \<not> im_numPackets m + 1 < numExpectedPackets m"

definition stored :: "driver \<Rightarrow> nat \<Rightarrow> packet \<Rightarrow> inMessage \<Rightarrow> inMessage" where
  "stored d i p m =
     (if im_packets m i \<noteq> None then m
      else if completes i m then (progressed d i p m)\<lparr>im_state := RX_COMPLETED\<rparr> else progressed d i p m)"

definition store_step :: "(nat \<Rightarrow> u64) \<Rightarrow> packet \<Rightarrow> nat \<Rightarrow> addr \<Rightarrow> nat \<Rightarrow> inMessage \<Rightarrow> receiver \<Rightarrow> receiver res" where
  "store_step tsc p i a ix m r1 =
     bindr (im_setPacket (int ix) p m) (\<lambda>(packetAdded, m1).
       if packetAdded then
         bindr (packet_scheduled p a m1 (r_upd_message a (\<lambda>_. m1) r1)) (\<lambda>r2.
         let r3 = set_messageTimeout i a (tsc 0) r2
         in if im_numPackets m1 < numExpectedPackets m1
            then Inr (set_resendTimeout i a (tsc 1) r3)
            else complete_message i a r3)
       else Inr (r_release p r1))"

lemma store_step_ok:
  assumes inv: "receiver_inv r" and m: "r_heap r a = Some m"
    and p: "ix < packets_for (r_driver r) (im_len m)" "length (payload p) = unat (maxPayloadSize (r_driver r))"
      "plength p = int (sizeof_DataHeader + chunk (r_driver r) (im_len m) ix)"
  defines "i \<equiv> r_getBucket (im_id m)"
  shows "\<exists>r'. store_step tsc p i a ix m r = Inr r' \<and> receiver_inv r' \<and>
     r_heap r' = (r_heap r)(a \<mapsto> stored (r_driver r) ix p m) \<and>
     receivedMessages r' = receivedMessages r @ (if completes ix m then [a] else [])"
proof (cases "im_packets m ix")
  case (Some q)
  note ok = rinv_msg [OF inv m]
  have "ix < IM_MAX_MESSAGE_PACKETS" using Some ok by (auto simp: rmsg_ok_def im_wf_def)
  with Some have "store_step tsc p i a ix m r = Inr (r_release p r)"
    by (simp add: store_step_def im_setPacket_def)
  with Some inv m show ?thesis by (simp add: stored_def completes_def r_release_def r_emit_def receiver_inv_def fun_upd_idem)
next
  case None
  note ok = rinv_msg [OF inv m] and d = rinv_parts(2) [OF inv]
  have pf: "packet_for (r_driver r) ix p m" using None p by (simp add: packet_for_def)
  note a = add_packet_wf [OF ok d pf]
  let ?m = "progressed (r_driver r) ix p m"
  obtain T P where s: "packet_scheduled p a (add_packet ix p m) (r_upd_message a (\<lambda>_. add_packet ix p m) r) =
      Inr (r\<lparr>r_heap := (r_heap r)(a \<mapsto> ?m), peerTable := T, scheduledPeers := P\<rparr>)" "sched_ok ((r_heap r)(a \<mapsto> ?m)) T P"
    using packet_scheduled_ok [OF inv m pf] by blast
  have b: "a \<in> set (rb_messages (r_messageBuckets r i))" using r_findMessage_present(2) [OF inv m] by (simp add: i_def)
  show ?thesis
  proof (cases "im_numPackets m + 1 < numExpectedPackets m")
    case True
    let ?r2 = "r\<lparr>peerTable := T, scheduledPeers := P, r_heap := (r_heap r)(a \<mapsto> ?m)\<rparr>"
    have "receiver_inv ?r2"
      using rinv_change [OF inv m _ progressed_ok(1) [OF ok d pf True] _ s(2)] by simp
    then have "receiver_inv (set_messageTimeout i a (tsc 0) ?r2)"
      using b by (intro rinv_set_messageTimeout) simp_all
    then have "receiver_inv (set_resendTimeout i a (tsc 1) (set_messageTimeout i a (tsc 0) ?r2))"
      using b a(5) by (intro rinv_set_resendTimeout) (simp_all add: receiver_defs)
    moreover have "store_step tsc p i a ix m r = Inr (set_resendTimeout i a (tsc 1) (set_messageTimeout i a (tsc 0) ?r2))"
      using a(1) s(1) True by (simp add: store_step_def Let_def receiver_defs)
    ultimately show ?thesis
      using None True by (simp add: stored_def completes_def receiver_defs)
  next
    case False
    let ?c = "?m\<lparr>im_state := RX_COMPLETED\<rparr>"
    let ?r1 = "set_messageTimeout i a (tsc 0) r"
    have inv1: "receiver_inv ?r1" using rinv_set_messageTimeout [OF inv b] .
    have m1: "r_heap ?r1 a = Some m" using m by (simp add: receiver_defs)
    have h1: "r_heap ?r1 = r_heap r" "r_driver ?r1 = r_driver r" "receivedMessages ?r1 = receivedMessages r"
      by (simp_all add: receiver_defs)
    have c: "rmsg_ok (r_driver ?r1) ?c" using progressed_ok(2) [OF ok d pf False] h1 by simp
    have sc: "sched_ok ((r_heap ?r1)(a \<mapsto> ?c)) T P" using sched_ok_state [OF s(2)] h1 by simp
    note comp = rinv_complete [OF inv1 m1 a(5) _ c _ sc]
    let ?r' = "r_emit [PerfAdd received_rx_messages 1] (cancel_resendTimeout i a (?r1\<lparr>r_heap := (r_heap ?r1)(a \<mapsto> ?c), peerTable := T,
       scheduledPeers := P, receivedMessages := receivedMessages ?r1 @ [a]\<rparr>))"
    have q: "a \<notin> set (receivedMessages r)" using comp(1) h1 by simp
    have "receiver_inv ?r'" using comp(2) by (simp add: i_def)
    moreover have "store_step tsc p i a ix m r = Inr ?r'"
      using a(1) s(1) False q m by (simp add: store_step_def Let_def complete_message_def receiver_defs)
    ultimately show ?thesis
      using None False by (simp add: stored_def completes_def receiver_defs)
  qed
qed

lemma handleDataPacket_eq:
  "handleDataPacket tsc p ip r =
     (let h = decode_data (payload p); msgId = hmessageId (dh_common h); i = r_getBucket msgId
      in bindr (r_findMessage msgId (r_messageBuckets r i) r) (\<lambda>found.
         bindr (case found of Some a \<Rightarrow> Inr (a, r) | None \<Rightarrow> new_message h ip i r) (\<lambda>(a, r1).
         bindr (r_deref a r1) (\<lambda>m.
         require AssertionFailed (messageId_eq msgId (im_id m))
         (require AssertionFailed (ip_eq (sa_ip (im_source m)) ip)
         (require AssertionFailed (sa_port (im_source m) = be16toh (sport (prefix (dh_common h))))
         (require AssertionFailed (im_messageLength m = int_of_u32 (totalLength h))
         (store_step tsc p i a (unat (dh_index h)) m r1))))))))"
  unfolding handleDataPacket_def store_step_def uint_nat by (simp add: Let_def)

text \<open>The message a packet belongs to: the one with its identifier, or a new one.\<close>

definition message_for :: "packet \<Rightarrow> ipAddress \<Rightarrow> receiver \<Rightarrow> inMessage" where
  "message_for p ip r =
     (let h = decode_data (payload p); msgId = hmessageId (dh_common h)
      in case r_findMessage msgId (r_messageBuckets r (r_getBucket msgId)) r of
           Inr (Some a) \<Rightarrow> (case r_heap r a of Some m \<Rightarrow> m | None \<Rightarrow> started_message (r_driver r) h ip)
         | _ \<Rightarrow> started_message (r_driver r) h ip)"

lemma started_message_fields:
  "im_id (started_message d h ip) = hmessageId (dh_common h)"
  "im_messageLength (started_message d h ip) = int (unat (totalLength h))"
  "im_packets (started_message d h ip) = Map.empty" "same_message h ip (started_message d h ip)"
  by (simp_all add: started_message_def fresh_message_def same_message_def Let_def)

theorem handleDataPacket_ok:
  assumes inv: "receiver_inv r" and p: "data_packet_ok (r_driver r) p" "data_fits p ip r"
  defines "h \<equiv> decode_data (payload p)"
  defines "ix \<equiv> unat (dh_index h)" and "m \<equiv> message_for p ip r"
  shows "handleDataPacket tsc p ip r = Inl BadAlloc \<and> pool_construct (r_messageAllocator r) = Inl BadAlloc \<or>
    (\<exists>r' a. handleDataPacket tsc p ip r = Inr r' \<and> receiver_inv r' \<and>
       im_id m = hmessageId (dh_common h) \<and> (r_heap r a = Some m \<or> r_heap r a = None) \<and>
       r_heap r' = (r_heap r)(a \<mapsto> stored (r_driver r) ix p m) \<and>
       receivedMessages r' = receivedMessages r @ (if completes ix m then [a] else []))"
proof -
  let ?id = "hmessageId (dh_common h)"
  let ?i = "r_getBucket ?id"
  let ?len = "unat (totalLength h)"
  have hp: "length (payload p) = unat (maxPayloadSize (r_driver r))" "0 < ?len" "?len \<le> IM_MAX_MESSAGE_PACKETS * pdl (r_driver r)"
    "ix < packets_for (r_driver r) ?len" "plength p = int (sizeof_DataHeader + chunk (r_driver r) ?len ix)"
    "unat (unscheduledIndexLimit h) \<le> IM_MAX_MESSAGE_PACKETS"
    using p(1) by (simp_all add: data_packet_ok_def Let_def h_def ix_def)
  have iu: "int_of_u32 (totalLength h) = int ?len" using InMessage_fresh(2) [OF rinv_parts(2) [OF inv] hp(3)] .
  text \<open>The second half, for the message found or created.\<close>
  have tail: "\<exists>r'. bindr (r_deref a r1) (\<lambda>m.
         require AssertionFailed (messageId_eq ?id (im_id m))
         (require AssertionFailed (ip_eq (sa_ip (im_source m)) ip)
         (require AssertionFailed (sa_port (im_source m) = be16toh (sport (prefix (dh_common h))))
         (require AssertionFailed (im_messageLength m = int_of_u32 (totalLength h))
         (store_step tsc p ?i a ix m r1))))) = Inr r' \<and> receiver_inv r' \<and>
       r_heap r' = (r_heap r1)(a \<mapsto> stored (r_driver r1) ix p n) \<and>
       receivedMessages r' = receivedMessages r1 @ (if completes ix n then [a] else [])"
    if r1: "receiver_inv r1" "r_heap r1 a = Some n" "im_id n = ?id" "same_message h ip n" "r_driver r1 = r_driver r" for r1 a n
  proof -
    have "im_len n = ?len" using r1(4) by (simp add: same_message_def im_len_def)
    then obtain r' where "store_step tsc p ?i a ix n r1 = Inr r'" "receiver_inv r'"
      "r_heap r' = (r_heap r1)(a \<mapsto> stored (r_driver r1) ix p n)"
      "receivedMessages r' = receivedMessages r1 @ (if completes ix n then [a] else [])"
      using store_step_ok [OF r1(1,2), of ix p tsc] hp(1,4,5) r1(3,5) by auto
    then show ?thesis using r1(2-4) iu by (simp add: same_message_def ip_eq_def)
  qed
  from inv show ?thesis
  proof (cases rule: r_findMessage_cases [where msgId = ?id])
    case (present a n)
    then have n: "m = n" "same_message h ip n"
      using p(2) by (simp_all add: m_def message_for_def data_fits_def Let_def h_def)
    obtain r' where "handleDataPacket tsc p ip r = Inr r'" "receiver_inv r'"
      "r_heap r' = (r_heap r)(a \<mapsto> stored (r_driver r) ix p n)"
      "receivedMessages r' = receivedMessages r @ (if completes ix n then [a] else [])"
      using tail [OF inv present(2,3) n(2) refl] present(1) unfolding handleDataPacket_eq Let_def h_def [symmetric] ix_def by auto
    with n present(2,3) show ?thesis by blast
  next
    case absent
    then have m: "m = started_message (r_driver r) h ip"
      by (simp add: m_def message_for_def Let_def h_def)
    note f = started_message_fields [where d = "r_driver r" and h = h and ip = ip, folded m]
    from new_message_ok [OF inv hp(2,3,6), of ip] absent(2)
    consider "new_message h ip ?i r = Inl BadAlloc" "pool_construct (r_messageAllocator r) = Inl BadAlloc" |
      a r1 where "new_message h ip ?i r = Inr (a, r1)" "receiver_inv r1" "r_heap r1 = (r_heap r)(a \<mapsto> m)"
        "receivedMessages r1 = receivedMessages r" "r_driver r1 = r_driver r" "r_heap r a = None"
      using m by auto
    then show ?thesis
    proof cases
      case 1
      then show ?thesis using absent(1) by (simp add: handleDataPacket_eq Let_def h_def [symmetric])
    next
      case 2
      then have ha: "r_heap r1 a = Some m" by simp
      obtain r' where "handleDataPacket tsc p ip r = Inr r'" "receiver_inv r'"
        "r_heap r' = (r_heap r1)(a \<mapsto> stored (r_driver r) ix p m)"
        "receivedMessages r' = receivedMessages r @ (if completes ix m then [a] else [])"
        using tail [OF 2(2) ha f(1,4) 2(5)] absent(1) 2 unfolding handleDataPacket_eq Let_def h_def [symmetric] ix_def by auto
      with 2 f(1) show ?thesis by auto
    qed
  qed
qed

end
