(* ===== verification/Receiver_System.thy ===== *)
theory Receiver_System
  imports Receiver_Data
begin

text \<open>
  The receiver as a transition system: every packet the transport may hand over and every call an
  application may make is an operation, guarded by the contract of include/Homa/Homa.h and by
  what a correct sender puts into a DATA packet. The invariant of Receiver_Invariant holds in
  every reachable state, and no operation fails there but for lack of memory.
\<close>

datatype receiver_op =
    RecvData "nat \<Rightarrow> u64" packet ipAddress
  | RecvBusy "nat \<Rightarrow> u64" packet
  | RecvPing "nat \<Rightarrow> u64" packet ipAddress
  | Receive
  | Acknowledge addr
  | Fail addr
  | Strip addr u64
  | Drop addr
  | RPoll "nat \<Rightarrow> u64" "nat \<Rightarrow> u64"

text \<open>The application holds the messages that were handed out by \<open>receiveMessage\<close>: those that are
  complete and no longer in the queue.\<close>

definition delivered :: "addr \<Rightarrow> receiver \<Rightarrow> bool" where
  "delivered a r =
     (case r_heap r a of None \<Rightarrow> False
      | Some m \<Rightarrow> im_state m \<noteq> RX_IN_PROGRESS \<and> a \<notin> set (receivedMessages r))"

fun receiver_step :: "receiver_op \<Rightarrow> receiver \<Rightarrow> receiver res" where
  "receiver_step (RecvData tsc p ip) r =
     require Misuse (data_packet_ok (r_driver r) p \<and> data_fits p ip r) (handleDataPacket tsc p ip r)"
| "receiver_step (RecvBusy tsc p) r = handleBusyPacket tsc p r"
| "receiver_step (RecvPing tsc p ip) r = handlePingPacket tsc p ip r"
| "receiver_step Receive r = Inr (snd (receiveMessage r))"
| "receiver_step (Acknowledge a) r = require Misuse (delivered a r) (acknowledge a r)"
| "receiver_step (Fail a) r = require Misuse (delivered a r) (r_fail a r)"
| "receiver_step (Strip a cnt) r =
     require Misuse (delivered a r \<and> unat cnt < 2 ^ 31 - 2 ^ 26) (message_strip cnt a r)"
| "receiver_step (Drop a) r = require Misuse (delivered a r) (dropMessage a r)"
| "receiver_step (RPoll tsc1 tsc2) r = receiver_poll tsc1 tsc2 r"

definition receiver_start :: "receiver \<Rightarrow> bool" where
  "receiver_start r \<longleftrightarrow>
     (\<exists>t1 t2. r = Receiver (r_driver r) (r_policyManager r) t1 t2) \<and> rstatic_ok (r_driver r) (r_policyManager r)"

lemma receiver_start_inv: "receiver_start r \<Longrightarrow> receiver_inv r"
proof -
  assume "receiver_start r"
  then obtain t1 t2 where r: "r = Receiver (r_driver r) (r_policyManager r) t1 t2"
    and s: "rstatic_ok (r_driver r) (r_policyManager r)" by (auto simp: receiver_start_def)
  have "sched_ok Map.empty Map.empty []"
    by (simp add: sched_ok_def peer_ok_def plist_def linked_to_def)
  moreover have "rbuckets_ok Map.empty (\<lambda>_. R_MessageBucket t1 t2)"
    by (simp add: rbuckets_ok_def rbucket_ok_def R_MessageBucket_def tm_ok_TimeoutManager)
      (simp add: TimeoutManager_def)
  ultimately show ?thesis
    using s pool_ok_start by (subst r) (simp add: receiver_inv_def Receiver_def rheap_ok_def rqueue_ok_def)
qed

lemma delivered_heap:
  assumes "delivered a r"
  obtains m where "r_heap r a = Some m" "im_state m \<noteq> RX_IN_PROGRESS" "a \<notin> set (receivedMessages r)"
  using assms by (auto simp: delivered_def split: option.splits)

lemma message_strip_ok:
  assumes inv: "receiver_inv r" and m: "r_heap r a = Some m" and c: "unat cnt < 2 ^ 31 - 2 ^ 26"
  shows "\<exists>r'. message_strip cnt a r = Inr r' \<and> receiver_inv r' \<and> r_driver r' = r_driver r \<and>
     r_heap r' = (r_heap r)(a \<mapsto> m\<lparr>im_start := min (im_start m + int (unat cnt)) (im_messageLength m)\<rparr>)"
proof -
  obtain m' where s: "strip cnt m = Inr m'" "rmsg_ok (r_driver r) m'"
    "m' = m\<lparr>im_start := min (im_start m + int (unat cnt)) (im_messageLength m)\<rparr>"
    using strip_ok [OF rinv_msg [OF inv m] rinv_parts(2) [OF inv] c] by blast
  have "receiver_inv (r_upd_message a (\<lambda>_. m') r)"
    by (rule rinv_upd_message [OF inv m refl _ s(2)]) (simp_all add: s(3))
  with s(1) m show ?thesis by (simp add: message_strip_def s(3)) (simp add: r_upd_message_def)
qed

lemma receiver_step_inv:
  assumes inv: "receiver_inv r" and s: "receiver_step op r = Inr r'"
  shows "receiver_inv r'"
proof (cases op)
  case (RecvData tsc p ip)
  with s have "data_packet_ok (r_driver r) p" "data_fits p ip r" "handleDataPacket tsc p ip r = Inr r'"
    by (simp_all add: res_simps)
  with handleDataPacket_ok [OF inv, of p ip tsc] show ?thesis by auto
next
  case (RecvBusy tsc p)
  with s handleBusyPacket_ok [OF inv, of tsc p] show ?thesis by auto
next
  case (RecvPing tsc p ip)
  with s handlePingPacket_ok [OF inv, of tsc p ip] show ?thesis by auto
next
  case Receive
  with s receiveMessage_ok [OF inv] show ?thesis by auto
next
  case (Acknowledge a)
  with s have "delivered a r" "acknowledge a r = Inr r'" by (simp_all add: res_simps)
  with acknowledge_ok(1) [OF inv] show ?thesis by (metis delivered_heap sum.inject(2))
next
  case (Fail a)
  with s have "delivered a r" "r_fail a r = Inr r'" by (simp_all add: res_simps)
  with acknowledge_ok(2) [OF inv] show ?thesis by (metis delivered_heap sum.inject(2))
next
  case (Strip a cnt)
  with s have "delivered a r" "unat cnt < 2 ^ 31 - 2 ^ 26" "message_strip cnt a r = Inr r'" by (simp_all add: res_simps)
  with message_strip_ok [OF inv] show ?thesis by (metis delivered_heap sum.inject(2))
next
  case (Drop a)
  with s have "delivered a r" "dropMessage a r = Inr r'" by (simp_all add: res_simps)
  with dropMessage_ok [OF inv] show ?thesis by (metis delivered_heap sum.inject(2))
next
  case (RPoll tsc1 tsc2)
  with s receiver_poll_inv [OF inv] show ?thesis by simp
qed

interpretation receiver_system: component receiver_start receiver_step receiver_inv
  by unfold_locales (use receiver_start_inv receiver_step_inv in blast)+

text \<open>In a reachable state a call within the contract does not fail; a DATA packet can run out of
  memory only.\<close>

lemma receiver_step_total:
  assumes inv: "receiver_inv r" and op:
    "case op of RecvData _ p ip \<Rightarrow> data_packet_ok (r_driver r) p \<and> data_fits p ip r
     | Acknowledge a \<Rightarrow> delivered a r | Fail a \<Rightarrow> delivered a r
     | Strip a cnt \<Rightarrow> delivered a r \<and> unat cnt < 2 ^ 31 - 2 ^ 26 | Drop a \<Rightarrow> delivered a r
     | RPoll _ _ \<Rightarrow> False | _ \<Rightarrow> True"
  shows "(\<exists>r'. receiver_step op r = Inr r') \<or> receiver_step op r = Inl BadAlloc"
proof (cases op)
  case (RecvData tsc p ip)
  with op handleDataPacket_ok [OF inv, of p ip tsc] show ?thesis by auto
next
  case (RecvBusy tsc p)
  with handleBusyPacket_ok [OF inv, of tsc p] show ?thesis by auto
next
  case (RecvPing tsc p ip)
  with handlePingPacket_ok [OF inv, of tsc p ip] show ?thesis by auto
next
  case (Acknowledge a)
  with op obtain m where "r_heap r a = Some m" by (auto elim: delivered_heap)
  with Acknowledge op acknowledge_ok(1) [OF inv, of a m] show ?thesis by auto
next
  case (Fail a)
  with op obtain m where "r_heap r a = Some m" by (auto elim: delivered_heap)
  with Fail op acknowledge_ok(2) [OF inv, of a m] show ?thesis by auto
next
  case (Strip a cnt)
  with op obtain m where "r_heap r a = Some m" by (auto elim: delivered_heap)
  with Strip op message_strip_ok [OF inv, of a m cnt] show ?thesis by auto
next
  case (Drop a)
  with op obtain m where "r_heap r a = Some m" "a \<notin> set (receivedMessages r)" by (auto elim: delivered_heap)
  with Drop op dropMessage_ok [OF inv] show ?thesis by auto
qed (use op in simp_all)

end
