(* ===== verification/Frames.thy ===== *)
theory Frames
  imports Sender_System Receiver_System
begin

text \<open>
  What the operations of the sender and of the receiver leave alone: the driver, the transport
  identifier and the policy manager they share. Only \<open>sendMessage\<close> and the restart of a message
  after UNKNOWN consult the policy manager in a way that can change it, and then only the table
  of peers.
\<close>

section \<open>The receiver\<close>

definition rparams :: "receiver \<Rightarrow> driver \<times> policy_manager" where
  "rparams r = (r_driver r, r_policyManager r)"

abbreviation rkeeps :: "receiver \<Rightarrow> receiver res \<Rightarrow> bool" where
  "rkeeps r x \<equiv> ensures (\<lambda>r'. rparams r' = rparams r) x"

lemma rparams_upd [simp]:
  "rparams (r_upd_message a f r) = rparams r" "rparams (r_upd_info a g r) = rparams r"
  "rparams (r_upd_bucket i h r) = rparams r" "rparams (set_messageTimeout i a t r) = rparams r"
  "rparams (cancel_messageTimeout i a r) = rparams r" "rparams (set_resendTimeout i a t r) = rparams r"
  "rparams (cancel_resendTimeout i a r) = rparams r" "rparams (r_emit es r) = rparams r"
  "rparams (r_release p r) = rparams r" "rparams (set_peer ip as r) = rparams r"
  "rparams (r_remove_message i a r) = rparams r" "rparams (r\<lparr>scheduledPeers := ps\<rparr>) = rparams r"
  "rparams (r\<lparr>receivedMessages := q\<rparr>) = rparams r" "rparams (r\<lparr>granting := b\<rparr>) = rparams r"
  "rparams (r\<lparr>r_nextBucketIndex := w\<rparr>) = rparams r" "rparams (r\<lparr>r_heap := H\<rparr>) = rparams r"
  "rparams (r\<lparr>r_messageAllocator := pool\<rparr>) = rparams r"
  by (simp_all add: rparams_def receiver_defs)

lemma rkeeps_from: "rkeeps r x \<Longrightarrow> rparams r = v \<Longrightarrow> ensures (\<lambda>r'. rparams r' = v) x"
  by simp

lemma rkeeps_bind:
  "rkeeps r x \<Longrightarrow> rparams r = v \<Longrightarrow> (\<And>r'. rparams r' = v \<Longrightarrow> ensures (\<lambda>r'. rparams r' = v) (f r')) \<Longrightarrow>
   ensures (\<lambda>r'. rparams r' = v) (bindr x f)"
  by (cases x) simp_all

lemma prioritize_peer_frame: "rkeeps r (prioritize_peer ip r)"
  unfolding prioritize_peer_def by (rule ensures_rules | simp)+

lemma deprioritize_peer_frame: "rkeeps r (deprioritize_peer ip r)"
  unfolding deprioritize_peer_def by (rule ensures_rules | simp)+

lemmas peer_frames = rkeeps_from [OF prioritize_peer_frame] rkeeps_from [OF deprioritize_peer_frame]

lemma schedule_frame: "rkeeps r (schedule a r)"
  unfolding schedule_def by (rule ensures_rules peer_frames ensures_read | simp)+

lemma unschedule_frame: "rkeeps r (unschedule a r)"
  unfolding unschedule_def by (rule ensures_rules peer_frames ensures_read | simp)+

lemma updateSchedule_frame: "rkeeps r (updateSchedule a r)"
  unfolding updateSchedule_def by (rule ensures_rules peer_frames ensures_read | simp)+

lemma unschedule_if_frame: "rkeeps r (unschedule_if a m r)"
  unfolding unschedule_if_def by (rule ensures_rules unschedule_frame | simp)+

lemma r_destroy_frame: "rkeeps r (r_destroy a r)"
  unfolding r_destroy_def by (rule ensures_rules ensures_read | simp)+

lemma packet_scheduled_frame: "rkeeps r (packet_scheduled p a m r)"
  unfolding packet_scheduled_def by (rule ensures_rules rkeeps_from [OF updateSchedule_frame] | simp)+

lemma complete_message_frame: "rkeeps r (complete_message i a r)"
  unfolding complete_message_def by (rule ensures_rules | simp)+

lemma rparams_new:
  "rparams (r\<lparr>r_messageAllocator := pool, r_heap := H\<rparr>) = rparams r"
  "rparams (r\<lparr>r_policyManager := signalNewMessage ip v len (r_policyManager r)\<rparr>) = rparams r"
  by (simp_all add: rparams_def signalNewMessage_def)

lemma new_message_frame: "ensures (\<lambda>ar. rparams (snd ar) = rparams r) (new_message h ip i r)"
proof -
  have last: "ensures (\<lambda>ar. rparams (snd ar) = rparams r) (bindr (if b then schedule a r2 else Inr r2) (\<lambda>r3. Inr (a, r3)))"
    if "rparams r2 = rparams r" for a r2 b
    using that schedule_frame [of r2 a] by (auto simp: ensures_def bindr_eq_Inr)
  show ?thesis
    unfolding new_message_def Let_def
    by (rule last ensures_pair ensures_read | simp add: rparams_def receiver_defs signalNewMessage_def)+
qed

lemma store_step_frame: "rkeeps r (store_step tsc p i a ix m r)"
  unfolding store_step_def
  by (rule ensures_rules rkeeps_bind [OF packet_scheduled_frame] rkeeps_from [OF complete_message_frame] ensures_read | simp)+

lemma handleDataPacket_frame: "rkeeps r (handleDataPacket tsc p ip r)"
proof -
  have found: "ensures (\<lambda>ar. rparams (snd ar) = rparams r) (case v of None \<Rightarrow> new_message h ip i r | Some a \<Rightarrow> Inr (a, r))" for v h i
    using new_message_frame by (cases v) simp_all
  have tail: "ensures (\<lambda>ar. rkeeps r (case ar of (a, r1) \<Rightarrow> bindr (r_deref a r1) (\<lambda>m. require e1 (b1 m) (require e1 (b2 m)
      (require e1 (b3 m) (require e1 (b4 m) (store_step tsc p i a ix m r1)))))))
    (case v of None \<Rightarrow> new_message h ip i r | Some a \<Rightarrow> Inr (a, r))" for v h i e1 b1 b2 b3 b4 ix
    by (rule ensures_mono [OF found]) (auto intro!: ensures_read ensures_require rkeeps_from [OF store_step_frame])
  show ?thesis
    unfolding handleDataPacket_eq Let_def
    by (rule ensures_read, rule ensures_bindr, rule tail)
qed

lemma handleBusyPacket_frame: "rkeeps r (handleBusyPacket tsc p r)"
  unfolding handleBusyPacket_def by (rule ensures_rules ensures_read | simp)+

lemma handlePingPacket_frame: "rkeeps r (handlePingPacket tsc p ip r)"
  unfolding handlePingPacket_def by (rule ensures_rules ensures_read | simp)+

lemma receiveMessage_frame: "rparams (snd (receiveMessage r)) = rparams r"
  by (simp add: receiveMessage_def split: list.split)

lemma acknowledge_frame: "rkeeps r (acknowledge a r)" "rkeeps r (r_fail a r)"
  unfolding acknowledge_def r_fail_def by (rule ensures_read, simp)+

lemma message_strip_frame: "rkeeps r (message_strip cnt a r)"
  unfolding message_strip_def by (rule ensures_read | simp)+

lemma dropMessage_frame: "rkeeps r (dropMessage a r)"
  unfolding dropMessage_def
  by (rule ensures_rules rkeeps_bind [OF unschedule_if_frame] rkeeps_bind [OF r_destroy_frame] ensures_read | simp)+

lemma r_expire_message_frame: "rkeeps r (r_expire_message i a m r)"
  unfolding r_expire_message_def
  by (rule ensures_rules rkeeps_bind [OF unschedule_if_frame] rkeeps_from [OF r_destroy_frame] ensures_read | simp)+

lemma r_message_timeouts_loop_frame: "rkeeps r (r_message_timeouts_loop fuel now i r)"
proof (induction fuel arbitrary: r)
  case (Suc fuel)
  show ?case
    unfolding r_message_timeouts_loop.simps [of "Suc fuel"] nat.case
    by (rule ensures_rules rkeeps_bind [OF r_expire_message_frame] rkeeps_from [OF Suc.IH] ensures_read | simp)+
qed (simp add: r_message_timeouts_loop.simps ensures_rules)

lemma resend_message_frame: "rkeeps r (resend_message t i a m r)"
  unfolding resend_message_def by (rule ensures_rules ensures_read | simp)+

lemma resend_timeouts_loop_frame: "rkeeps r (resend_timeouts_loop fuel tsc now i r)"
proof (induction fuel arbitrary: r tsc)
  case (Suc fuel)
  show ?case
    unfolding resend_timeouts_loop.simps [of "Suc fuel"] nat.case
    by (rule ensures_rules rkeeps_bind [OF resend_message_frame] rkeeps_from [OF Suc.IH] ensures_read | simp)+
qed (simp add: resend_timeouts_loop.simps ensures_rules)

lemma r_checkTimeouts_frame: "rkeeps r (r_checkTimeouts tsc r)"
proof -
  have "rkeeps r (checkResendTimeouts tsc now i r)" for tsc now i r
    unfolding checkResendTimeouts_def by (rule ensures_rules resend_timeouts_loop_frame | simp)+
  moreover have "rkeeps r (r_checkMessageTimeouts now i r)" for now i r
    unfolding r_checkMessageTimeouts_def by (rule ensures_rules r_message_timeouts_loop_frame | simp)+
  ultimately show ?thesis
    unfolding r_checkTimeouts_def Let_def by (intro rkeeps_bind rkeeps_from) (assumption | simp)+
qed

lemma grant_message_frame: "ensures (\<lambda>br. rparams (snd br) = rparams r) (grant_message policy u slot a m r)"
  unfolding grant_message_def by (rule ensures_rules ensures_read | simp)+

lemma split_timer_frame: "rparams (snd (snd (split_timer b tsc timer r))) = rparams r"
  by (simp add: split_timer_def Timer_split_def)

lemma grant_loop_frame: "rkeeps r (grant_loop fuel it slot policy u tsc timer r)"
proof (induction fuel arbitrary: it slot tsc timer r)
  case (Suc fuel)
  have split: "rparams r2 = rparams r" if "split_timer b tsc timer r1 = (tsc', timer', r2)" "rparams r1 = rparams r"
    for b tsc timer r1 tsc' timer' r2
    using that split_timer_frame [of b tsc timer r1] by simp
  have fin: "rkeeps r1 (if b then unschedule a r1 else Inr r1)" for b a r1
    using unschedule_frame by simp
  show ?case
    unfolding grant_loop.simps [of "Suc fuel"] nat.case
    by (rule ensures_rules rkeeps_bind [OF fin] rkeeps_from [OF Suc.IH]
        ensures_bindr [OF ensures_mono [OF grant_message_frame]] ensures_read | fastforce dest: split)+
qed (simp add: grant_loop.simps ensures_rules)

lemma trySendGrants_frame: "rkeeps r (trySendGrants tsc r)"
  unfolding trySendGrants_def
  by (rule ensures_rules rkeeps_bind [OF grant_loop_frame] ensures_read | simp)+

lemma receiver_poll_frame: "rkeeps r (receiver_poll tsc1 tsc2 r)"
  unfolding receiver_poll_def
  by (rule rkeeps_bind [OF trySendGrants_frame refl] rkeeps_from [OF r_checkTimeouts_frame] | assumption)+

lemmas receiver_frames = handleDataPacket_frame handleBusyPacket_frame handlePingPacket_frame
  acknowledge_frame message_strip_frame dropMessage_frame receiver_poll_frame

lemma receiver_step_frame: "rkeeps r (receiver_step op r)"
  by (cases op) (auto simp: receiveMessage_frame intro!: ensures_require receiver_frames)

section \<open>The sender\<close>

text \<open>The parameters of a sender: its identifier, its driver and what never changes in the policy
  manager.\<close>

definition sparams :: "sender \<Rightarrow> u64 \<times> driver \<times> u32 \<times> int" where
  "sparams s = (s_transportId s, s_driver s, RTT_BYTES (policyManager s), MAX_PRIORITY (policyManager s))"

abbreviation skeeps :: "sender \<Rightarrow> sender res \<Rightarrow> bool" where
  "skeeps s x \<equiv> ensures (\<lambda>s'. sparams s' = sparams s) x"

lemma sparams_upd [simp]:
  "sparams (upd_message a f s) = sparams s" "sparams (upd_info a g s) = sparams s"
  "sparams (set_state a st s) = sparams s" "sparams (upd_bucket i h s) = sparams s"
  "sparams (set_timeouts i a t1 t2 s) = sparams s" "sparams (cancel_timeouts i a s) = sparams s"
  "sparams (emit es s) = sparams s" "sparams (release_packet p s) = sparams s"
  "sparams (remove_message i a s) = sparams s" "sparams (enter_sendQueue a s) = sparams s"
  "sparams (s\<lparr>sendQueue := q\<rparr>) = sparams s" "sparams (s\<lparr>sendReady := b\<rparr>) = sparams s"
  "sparams (s\<lparr>sending := b\<rparr>) = sparams s" "sparams (s\<lparr>s_nextBucketIndex := w\<rparr>) = sparams s"
  "sparams (s\<lparr>s_heap := H\<rparr>) = sparams s" "sparams (s\<lparr>messageAllocator := pool\<rparr>) = sparams s"
  "sparams (ping_message t i a m s) = sparams s"
  by (simp_all add: sparams_def sender_defs enter_sendQueue_def ping_message_def Let_def)

lemma skeeps_from: "skeeps s x \<Longrightarrow> sparams s = v \<Longrightarrow> ensures (\<lambda>s'. sparams s' = v) x"
  by simp

lemma skeeps_bind:
  "skeeps s x \<Longrightarrow> sparams s = v \<Longrightarrow> (\<And>s'. sparams s' = v \<Longrightarrow> ensures (\<lambda>s'. sparams s' = v) (f s')) \<Longrightarrow>
   ensures (\<lambda>s'. sparams s' = v) (bindr x f)"
  by (cases x) simp_all

lemma destroy_message_frame: "skeeps s (destroy_message a s)"
  unfolding destroy_message_def by (rule ensures_rules ensures_read | simp)+

lemma handleDonePacket_frame: "skeeps s (handleDonePacket p s)" "skeeps s (handleErrorPacket p s)"
  unfolding handleDonePacket_def handleErrorPacket_def
  by (rule ensures_rules ensures_read | simp split: status.split)+

lemma resend_packets_frame: "skeeps s (resend_packets is m ip prio s)"
proof (induction "is" arbitrary: s)
  case (Cons i "is")
  show ?case
    unfolding resend_packets.simps by (rule ensures_rules skeeps_from [OF Cons.IH] ensures_read | simp)+
qed simp

lemma handleResendPacket_frame: "skeeps s (handleResendPacket tsc p s)"
  unfolding handleResendPacket_def
  by (rule ensures_rules skeeps_bind [OF resend_packets_frame] ensures_read | simp)+

lemma handleGrantPacket_frame: "skeeps s (handleGrantPacket tsc p s)"
  unfolding handleGrantPacket_def by (rule ensures_rules ensures_read | simp)+

lemma leave_sendQueue_frame: "skeeps s (leave_sendQueue a m s)"
proof -
  have "skeeps s (if b then require e c (Inr (s\<lparr>sendQueue := q\<rparr>)) else Inr s)" for b e c q
    by (rule ensures_rules | simp)+
  then show ?thesis
    unfolding leave_sendQueue_def by (intro ensures_if skeeps_bind ensures_require) simp_all
qed

lemma send_single_frame: "skeeps s (send_single i a prio s)"
  unfolding send_single_def by (rule ensures_rules ensures_read | simp)+

lemma sparams_policy:
  "getUnscheduledPolicy ip len (policyManager s) = (pol, pm) \<Longrightarrow> sparams (s\<lparr>policyManager := pm\<rparr>) = sparams s"
  using RTT_BYTES_unscheduled [of ip len "policyManager s"] by (simp add: sparams_def)

lemma sparams_policy_set: "sparams (s\<lparr>policyManager := snd (getUnscheduledPolicy ip len (policyManager s))\<rparr>) = sparams s"
  using sparams_policy [of ip len s] by (metis prod.collapse)

lemma sparams_cong: "sparams s = sparams t \<Longrightarrow> policyManager s = policyManager t \<Longrightarrow>
   sparams (s\<lparr>policyManager := pm\<rparr>) = sparams (t\<lparr>policyManager := pm\<rparr>)"
  by (simp add: sparams_def)

lemma handleUnknownPacket_frame: "skeeps s (handleUnknownPacket tsc p s)"
proof -
  have pol: "sparams ((set_state a st s1)\<lparr>policyManager := pm\<rparr>) = sparams s1"
    if "getUnscheduledPolicy ip len (policyManager s1) = (pol, pm)" for a st s1 ip len pol pm
    using sparams_policy [OF that] sparams_cong [of "set_state a st s1" s1 pm] by (simp add: sender_defs)
  show ?thesis
    unfolding handleUnknownPacket_def
    by (rule ensures_rules skeeps_bind [OF leave_sendQueue_frame] skeeps_bind [OF send_single_frame] ensures_read
        | simp add: pol)+
qed

lemma sendMessage_frame: "skeeps s (sendMessage tsc a dst opt s)"
proof -
  have pol: "sparams (s\<lparr>nextMessageSequenceNumber := n, policyManager := pm\<rparr>) = sparams s"
    if "getUnscheduledPolicy ip len (policyManager s) = (pol, pm)" for ip len pol pm n
    using sparams_policy [OF that] by (simp add: sparams_def)
  show ?thesis
    unfolding sendMessage_def
    by (rule ensures_rules skeeps_from [OF send_single_frame] ensures_read | simp add: pol)+
qed

lemma allocMessage_frame: "ensures (\<lambda>as. sparams (snd as) = sparams s) (allocMessage port s)"
  unfolding allocMessage_def by (rule ensures_rules ensures_read | simp)+

lemma message_op_frame: "skeeps s (message_op f a s)"
  unfolding message_op_def by (rule ensures_read | simp)+

lemma skeeps_requeue: "skeeps s (if b then require e c (Inr (s\<lparr>sendQueue := q\<rparr>)) else Inr s)"
  by (rule ensures_rules | simp)+

lemma cancelMessage_frame: "skeeps s (cancelMessage a s)"
  unfolding cancelMessage_def
  by (rule ensures_rules skeeps_bind [OF skeeps_requeue] ensures_read | simp)+

lemma sender_dropMessage_frame: "skeeps s (sender_dropMessage a s)"
  unfolding sender_dropMessage_def
  by (rule ensures_rules skeeps_from [OF destroy_message_frame] ensures_read | simp)+

lemma expire_message_frame: "skeeps s (expire_message i a m s)"
proof -
  have "skeeps s (if om_state m \<noteq> COMPLETED
      then bindr (if om_state m = IN_PROGRESS then require AssertionFailed (a \<in> set (sendQueue s))
                   (Inr (s\<lparr>sendQueue := remove1 a (sendQueue s)\<rparr>)) else Inr s) (\<lambda>s1. Inr (set_state a FAILED s1))
      else Inr s)"
    by (rule ensures_rules skeeps_bind [OF skeeps_requeue] | simp)+
  from skeeps_bind [OF this refl] show ?thesis unfolding expire_message_def by simp
qed

lemma message_timeouts_loop_frame: "skeeps s (message_timeouts_loop fuel now i s)"
proof (induction fuel arbitrary: s)
  case (Suc fuel)
  show ?case
    unfolding message_timeouts_loop.simps [of "Suc fuel"] nat.case
    by (rule ensures_rules skeeps_bind [OF expire_message_frame] skeeps_from [OF Suc.IH] ensures_read | simp)+
qed (simp add: message_timeouts_loop.simps ensures_rules)

lemma ping_timeouts_loop_frame: "skeeps s (ping_timeouts_loop fuel tsc now i s)"
proof (induction fuel arbitrary: s tsc)
  case (Suc fuel)
  show ?case
    unfolding ping_timeouts_loop.simps [of "Suc fuel"] nat.case
    by (rule ensures_rules skeeps_from [OF Suc.IH] ensures_read | simp)+
qed (simp add: ping_timeouts_loop.simps ensures_rules)

lemma sender_checkTimeouts_frame: "skeeps s (sender_checkTimeouts tsc s)"
proof -
  have p: "skeeps s (checkPingTimeouts tsc now i s)" for tsc now i s
    unfolding checkPingTimeouts_def by (rule ensures_rules ping_timeouts_loop_frame | simp)+
  have m: "skeeps s (sender_checkMessageTimeouts now i s)" for now i s
    unfolding sender_checkMessageTimeouts_def by (rule ensures_rules message_timeouts_loop_frame | simp)+
  show ?thesis
    unfolding sender_checkTimeouts_def Let_def
    by (rule skeeps_bind [OF p] skeeps_from [OF m] | simp)+
qed

lemma send_granted_frame: "ensures (\<lambda>x. sparams (snd (snd x)) = sparams s) (send_granted fuel a e idle s)"
proof (induction fuel arbitrary: e idle s)
  case (Suc fuel)
  have IH: "ensures (\<lambda>x. sparams (snd (snd x)) = sparams s) (send_granted fuel a e idle t)" if "sparams t = sparams s" for e idle t
    using Suc.IH [of t e idle] that by simp
  show ?case
    unfolding send_granted.simps [of "Suc fuel"] nat.case
    by (rule ensures_rules IH ensures_read | simp)+
qed (simp add: send_granted.simps ensures_rules ensures_read)

lemma trySend_loop_frame: "ensures (\<lambda>x. sparams (snd (snd x)) = sparams s) (trySend_loop fuel it e idle ids s)"
proof (induction fuel arbitrary: it e idle ids s)
  case (Suc fuel)
  have IH: "ensures (\<lambda>x. sparams (snd (snd x)) = sparams s) (trySend_loop fuel it e idle ids t)"
    if "sparams t = sparams s" for it e idle ids t
    using Suc.IH [of t it e idle ids] that by simp
  show ?case
    unfolding trySend_loop.simps [of "Suc fuel"] nat.case
    by (rule ensures_rules IH ensures_bindr [OF ensures_mono [OF send_granted_frame]] ensures_read | simp)+
qed (simp add: trySend_loop.simps ensures_rules)

lemma finish_sent_frame: "skeeps s (finish_sent ids s)"
proof (induction ids arbitrary: s)
  case (Cons j ids)
  show ?case
    unfolding finish_sent.simps
    by (rule ensures_rules skeeps_bind [OF destroy_message_frame] skeeps_from [OF Cons.IH] ensures_read | simp)+
qed simp

lemma trySend_frame: "skeeps s (trySend tsc queued s)"
  unfolding trySend_def
  by (rule ensures_rules ensures_bindr [OF ensures_mono [OF trySend_loop_frame]] skeeps_bind [OF finish_sent_frame] | simp)+

lemma sender_poll_frame: "skeeps s (sender_poll tsc1 tsc2 queued s)"
  unfolding sender_poll_def
  by (rule skeeps_bind [OF trySend_frame refl] skeeps_from [OF sender_checkTimeouts_frame] | assumption)+

lemmas sender_frames = message_op_frame sendMessage_frame cancelMessage_frame sender_dropMessage_frame
  handleDonePacket_frame handleResendPacket_frame handleGrantPacket_frame handleUnknownPacket_frame sender_poll_frame

lemma sender_step_frame: "skeeps s (sender_step op s)"
proof (cases op)
  case (Alloc port)
  have "ensures (\<lambda>as. skeeps s (case as of (a, s') \<Rightarrow> Inr s')) (allocMessage port s)"
    by (rule ensures_mono [OF allocMessage_frame]) auto
  then show ?thesis unfolding Alloc sender_step.simps by (rule ensures_bindr)
qed (auto intro!: ensures_require sender_frames)

end
