(* ===== verification/Transport.thy ===== *)
theory Transport
  imports Frames
begin

text \<open>
  \<open>TransportImpl\<close> of src/TransportImpl.h and src/TransportImpl.cc: it owns the policy manager, the
  sender and the receiver, receives bursts of packets from the driver and hands each one to the
  component its opcode names. Sender and receiver hold pointers to one policy manager: in the
  model each has a copy, and what the one writes is copied to the other after every call.
\<close>

record transport =
  t_transportId :: u64
  t_driver :: driver
  t_sender :: sender
  t_receiver :: receiver
  nextTimeoutCycles :: u64
  t_events :: "event list"

definition BASE_TIMEOUT_US :: u64 where "BASE_TIMEOUT_US = 2000"
definition MESSAGE_TIMEOUT_US :: u64 where "MESSAGE_TIMEOUT_US = 40 * BASE_TIMEOUT_US"
definition PING_INTERVAL_US :: u64 where "PING_INTERVAL_US = 3 * BASE_TIMEOUT_US"
definition RESEND_INTERVAL_US :: u64 where "RESEND_INTERVAL_US = BASE_TIMEOUT_US"
definition MAX_BURST :: nat where "MAX_BURST = 32"

text \<open>\<open>fromMicroseconds\<close> is the conversion of PerfUtils, which is not part of the repository.\<close>

definition TransportImpl :: "(u64 \<Rightarrow> u64) \<Rightarrow> driver \<Rightarrow> u64 \<Rightarrow> transport" where
  "TransportImpl fromMicroseconds d tid =
     (let pm = Policy_Manager d
      in \<lparr>t_transportId = tid, t_driver = d,
          t_sender = Sender tid d pm (fromMicroseconds MESSAGE_TIMEOUT_US) (fromMicroseconds PING_INTERVAL_US),
          t_receiver = Receiver d pm (fromMicroseconds MESSAGE_TIMEOUT_US) (fromMicroseconds RESEND_INTERVAL_US),
          nextTimeoutCycles = 0, t_events = []\<rparr>)"

definition t_emit :: "event list \<Rightarrow> transport \<Rightarrow> transport" where
  "t_emit es t = t\<lparr>t_events := t_events t @ es\<rparr>"

definition put_sender :: "sender \<Rightarrow> transport \<Rightarrow> transport" where
  "put_sender s t = t\<lparr>t_sender := s, t_receiver := (t_receiver t)\<lparr>r_policyManager := policyManager s\<rparr>\<rparr>"

definition put_receiver :: "receiver \<Rightarrow> transport \<Rightarrow> transport" where
  "put_receiver r t = t\<lparr>t_receiver := r, t_sender := (t_sender t)\<lparr>policyManager := r_policyManager r\<rparr>\<rparr>"

definition on_sender :: "(sender \<Rightarrow> sender res) \<Rightarrow> transport \<Rightarrow> transport res" where
  "on_sender f t = bindr (f (t_sender t)) (\<lambda>s. Inr (put_sender s t))"

definition on_receiver :: "(receiver \<Rightarrow> receiver res) \<Rightarrow> transport \<Rightarrow> transport res" where
  "on_receiver f t = bindr (f (t_receiver t)) (\<lambda>r. Inr (put_receiver r t))"

section \<open>Operations\<close>

definition t_alloc :: "u16 \<Rightarrow> transport \<Rightarrow> (addr \<times> transport) res" where
  "t_alloc sourcePort t =
     bindr (allocMessage sourcePort (t_sender t)) (\<lambda>(a, s). Inr (a, put_sender s t))"

definition t_receive :: "transport \<Rightarrow> addr option \<times> transport" where
  "t_receive t = (let (found, r) = receiveMessage (t_receiver t) in (found, put_receiver r t))"

text \<open>The \<open>switch\<close> has no default: a packet with another opcode falls through it.\<close>

definition processPacket :: "(nat \<Rightarrow> u64) \<Rightarrow> packet \<Rightarrow> ipAddress \<Rightarrow> transport \<Rightarrow> transport res" where
  "processPacket tsc packet sourceIp t =
     require AssertionFailed (plength packet \<ge> int sizeof_CommonHeader)
     (let t1 = t_emit [PerfAdd rx_bytes (word_of_int (plength packet))] t;
          opcode = hopcode (decode_common (payload packet))
      in if opcode = opcode_value DATA then
           on_receiver (handleDataPacket tsc packet sourceIp) (t_emit [PerfAdd rx_data_pkts 1] t1)
         else if opcode = opcode_value GRANT then
           on_sender (handleGrantPacket tsc packet) (t_emit [PerfAdd rx_grant_pkts 1] t1)
         else if opcode = opcode_value DONE then
           on_sender (handleDonePacket packet) (t_emit [PerfAdd rx_done_pkts 1] t1)
         else if opcode = opcode_value RESEND then
           on_sender (handleResendPacket tsc packet) (t_emit [PerfAdd rx_resend_pkts 1] t1)
         else if opcode = opcode_value BUSY then
           on_receiver (handleBusyPacket tsc packet) (t_emit [PerfAdd rx_busy_pkts 1] t1)
         else if opcode = opcode_value PING then
           on_receiver (handlePingPacket tsc packet sourceIp) (t_emit [PerfAdd rx_ping_pkts 1] t1)
         else if opcode = opcode_value UNKNOWN then
           on_sender (handleUnknownPacket tsc packet) (t_emit [PerfAdd rx_unknown_pkts 1] t1)
         else if opcode = opcode_value ERROR then
           on_sender (handleErrorPacket packet) (t_emit [PerfAdd rx_error_pkts 1] t1)
         else Inr t1)"

text \<open>An arrival is a packet, the address it came from and the time values its handler reads.\<close>

type_synonym arrival = "(nat \<Rightarrow> u64) \<times> packet \<times> ipAddress"

fun process_burst :: "arrival list \<Rightarrow> transport \<Rightarrow> transport res" where
  "process_burst [] t = Inr t"
| "process_burst ((tsc, p, ip) # ps) t = bindr (processPacket tsc p ip t) (process_burst ps)"

text \<open>\<open>receivePackets\<close> is the driver's: it is told how many packets the arrays hold.\<close>

definition processPackets :: "(nat \<Rightarrow> u64) \<Rightarrow> (nat \<Rightarrow> arrival list) \<Rightarrow> transport \<Rightarrow> transport res" where
  "processPackets tsc receivePackets t =
     (let packets = receivePackets MAX_BURST
      in require OutOfRange (length packets \<le> MAX_BURST)
         (bindr (process_burst packets t) (\<lambda>t1.
            Inr (if packets \<noteq> [] then t_emit [PerfAdd active_cycles (fst (Timer_split (tsc 1) (tsc 0)))] t1 else t1))))"

record poll_input =
  pi_timer :: "nat \<Rightarrow> u64"
  pi_packets_timer :: "nat \<Rightarrow> u64"
  pi_receivePackets :: "nat \<Rightarrow> arrival list"
  pi_send :: "nat \<Rightarrow> u64"
  pi_send_timeouts :: "nat \<Rightarrow> u64"
  pi_queuedBytes :: u32
  pi_grants :: "nat \<Rightarrow> u64"
  pi_receive_timeouts :: "nat \<Rightarrow> u64"

text \<open>What a call of \<open>poll\<close> reads from outside: the time stamp counter and the driver.\<close>

definition t_poll :: "poll_input \<Rightarrow> transport \<Rightarrow> transport res" where
  "t_poll x t =
     bindr (processPackets (pi_packets_timer x) (pi_receivePackets x) t) (\<lambda>t1.
     bindr (on_sender (sender_poll (pi_send x) (pi_send_timeouts x) (pi_queuedBytes x)) t1) (\<lambda>t2.
     bindr (on_receiver (receiver_poll (pi_grants x) (pi_receive_timeouts x)) t2) (\<lambda>t3.
       Inr (t_emit [PerfAdd total_cycles (fst (Timer_split (pi_timer x 1) (pi_timer x 0)))] t3))))"

section \<open>Invariant\<close>

text \<open>Both components satisfy their invariants and share the parameters.\<close>

definition shared_ok :: "transport \<Rightarrow> bool" where
  "shared_ok t \<longleftrightarrow>
     s_transportId (t_sender t) = t_transportId t \<and> s_driver (t_sender t) = t_driver t \<and>
     r_driver (t_receiver t) = t_driver t \<and> r_policyManager (t_receiver t) = policyManager (t_sender t)"

definition transport_inv :: "transport \<Rightarrow> bool" where
  "transport_inv t \<longleftrightarrow> sender_inv (t_sender t) \<and> receiver_inv (t_receiver t) \<and> shared_ok t"

lemma rinv_policy:
  assumes "receiver_inv r" "policy_ok pm" "RTT_BYTES pm = RTT_BYTES (r_policyManager r)"
    "MAX_PRIORITY pm = MAX_PRIORITY (r_policyManager r)"
  shows "receiver_inv (r\<lparr>r_policyManager := pm\<rparr>)"
  using assms by (simp add: receiver_inv_def rstatic_ok_def)

lemma put_sender_inv:
  assumes t: "transport_inv t" and s: "sender_inv s" "sparams s = sparams (t_sender t)"
  shows "transport_inv (put_sender s t)"
proof -
  have "policy_ok (policyManager s)" using s(1) by (simp add: sender_inv_def static_ok_def)
  with t s show ?thesis
    by (auto simp: transport_inv_def put_sender_def shared_ok_def sparams_def intro!: rinv_policy)
qed

lemma put_receiver_inv:
  assumes t: "transport_inv t" and r: "receiver_inv r" "rparams r = rparams (t_receiver t)"
  shows "transport_inv (put_receiver r t)"
  using t r by (simp add: transport_inv_def put_receiver_def shared_ok_def rparams_def)

lemma on_sender_inv:
  assumes "transport_inv t" "on_sender f t = Inr t'" "skeeps (t_sender t) (f (t_sender t))"
    "\<And>s'. f (t_sender t) = Inr s' \<Longrightarrow> sender_inv s'"
  shows "transport_inv t'"
  using assms put_sender_inv by (auto simp: on_sender_def bindr_eq_Inr dest: ensuresD)

lemma on_receiver_inv:
  assumes "transport_inv t" "on_receiver f t = Inr t'" "rkeeps (t_receiver t) (f (t_receiver t))"
    "\<And>r'. f (t_receiver t) = Inr r' \<Longrightarrow> receiver_inv r'"
  shows "transport_inv t'"
  using assms put_receiver_inv by (auto simp: on_receiver_def bindr_eq_Inr dest: ensuresD)

lemma t_emit_fields [simp]:
  "t_sender (t_emit es t) = t_sender t" "t_receiver (t_emit es t) = t_receiver t"
  "t_driver (t_emit es t) = t_driver t" "t_transportId (t_emit es t) = t_transportId t"
  by (simp_all add: t_emit_def)

lemma transport_inv_emit [simp]: "transport_inv (t_emit es t) = transport_inv t"
  by (simp add: transport_inv_def shared_ok_def)

section \<open>The transport as a transition system\<close>

text \<open>A DATA packet has to be one that a sender builds and has to agree with the message it belongs
  to; every other packet may hold anything.\<close>

definition packet_expected :: "packet \<Rightarrow> ipAddress \<Rightarrow> transport \<Rightarrow> bool" where
  "packet_expected p ip t \<longleftrightarrow>
     plength p \<ge> int sizeof_CommonHeader \<and>
     (hopcode (decode_common (payload p)) = opcode_value DATA \<longrightarrow>
        data_packet_ok (t_driver t) p \<and> data_fits p ip (t_receiver t))"

fun burst_expected :: "arrival list \<Rightarrow> transport \<Rightarrow> bool" where
  "burst_expected [] t = True"
| "burst_expected ((tsc, p, ip) # ps) t =
     (packet_expected p ip t \<and>
      (case processPacket tsc p ip t of Inl e \<Rightarrow> True | Inr t' \<Rightarrow> burst_expected ps t'))"

fun app_sender_op :: "sender_op \<Rightarrow> bool" where
  "app_sender_op (Alloc _) = True"
| "app_sender_op (Append _ _ _) = True"
| "app_sender_op (Prepend _ _ _) = True"
| "app_sender_op (Reserve _ _) = True"
| "app_sender_op (Send _ _ _ _) = True"
| "app_sender_op (Cancel _) = True"
| "app_sender_op (Release _) = True"
| "app_sender_op _ = False"

fun app_receiver_op :: "receiver_op \<Rightarrow> bool" where
  "app_receiver_op Receive = True"
| "app_receiver_op (Acknowledge _) = True"
| "app_receiver_op (Fail _) = True"
| "app_receiver_op (Strip _ _) = True"
| "app_receiver_op (Drop _) = True"
| "app_receiver_op _ = False"

datatype transport_op = OutCall sender_op | InCall receiver_op | TransportPoll poll_input

fun transport_step :: "transport_op \<Rightarrow> transport \<Rightarrow> transport res" where
  "transport_step (OutCall op) t = require Misuse (app_sender_op op) (on_sender (sender_step op) t)"
| "transport_step (InCall op) t = require Misuse (app_receiver_op op) (on_receiver (receiver_step op) t)"
| "transport_step (TransportPoll x) t =
     require Misuse (burst_expected (pi_receivePackets x MAX_BURST) t) (t_poll x t)"

definition transport_start :: "transport \<Rightarrow> bool" where
  "transport_start t \<longleftrightarrow>
     (\<exists>f d tid. t = TransportImpl f d tid \<and> static_ok d (Policy_Manager d) \<and> rstatic_ok d (Policy_Manager d))"

lemma transport_start_inv: "transport_start t \<Longrightarrow> transport_inv t"
proof -
  assume "transport_start t"
  then obtain f d tid where t: "t = TransportImpl f d tid" "static_ok d (Policy_Manager d)"
    "rstatic_ok d (Policy_Manager d)" by (auto simp: transport_start_def)
  have "sender_start (t_sender t)" using t by (auto simp: sender_start_def TransportImpl_def Let_def)
  moreover have "receiver_start (t_receiver t)"
    using t by (auto simp: receiver_start_def TransportImpl_def Let_def Receiver_def)
  moreover have "shared_ok t"
    by (simp add: t(1) shared_ok_def TransportImpl_def Let_def Sender_def Receiver_def)
  ultimately show ?thesis by (simp add: transport_inv_def sender_start_inv receiver_start_inv)
qed

lemma sender_call_inv: "transport_inv t \<Longrightarrow> on_sender (sender_step op) t = Inr t' \<Longrightarrow> transport_inv t'"
  by (rule on_sender_inv [where f = "sender_step op"]) (auto simp: transport_inv_def intro: sender_step_frame dest: sender_step_inv)

lemma receiver_call_inv: "transport_inv t \<Longrightarrow> on_receiver (receiver_step op) t = Inr t' \<Longrightarrow> transport_inv t'"
  by (rule on_receiver_inv [where f = "receiver_step op"])
    (auto simp: transport_inv_def intro: receiver_step_frame dest: receiver_step_inv)

text \<open>The handlers as steps of the two components.\<close>

lemma handler_steps:
  "handleDonePacket p = sender_step (HandleDone p)" "handleResendPacket tsc p = sender_step (HandleResend tsc p)"
  "handleGrantPacket tsc p = sender_step (HandleGrant tsc p)" "handleErrorPacket p = sender_step (HandleError p)"
  "handleUnknownPacket tsc p = sender_step (HandleUnknown tsc p)"
  "handleBusyPacket tsc p = receiver_step (RecvBusy tsc p)"
  "handlePingPacket tsc p ip = receiver_step (RecvPing tsc p ip)"
  by (simp_all add: fun_eq_iff)

lemma data_step:
  assumes "shared_ok t" "data_packet_ok (t_driver t) p" "data_fits p ip (t_receiver t)"
  shows "on_receiver (handleDataPacket tsc p ip) t = on_receiver (receiver_step (RecvData tsc p ip)) t"
  using assms by (simp add: on_receiver_def shared_ok_def)

lemma processPacket_inv:
  assumes inv: "transport_inv t" and e: "packet_expected p ip t" and r: "processPacket tsc p ip t = Inr t'"
  shows "transport_inv t'"
proof (cases "hopcode (decode_common (payload p)) = opcode_value DATA")
  case True
  let ?t1 = "t_emit [PerfAdd rx_data_pkts 1] (t_emit [PerfAdd rx_bytes (word_of_int (plength p))] t)"
  have t1: "transport_inv ?t1" using inv by simp
  have "on_receiver (handleDataPacket tsc p ip) ?t1 = on_receiver (receiver_step (RecvData tsc p ip)) ?t1"
    using t1 e True by (intro data_step) (auto simp: transport_inv_def packet_expected_def)
  with True r e have "on_receiver (receiver_step (RecvData tsc p ip)) ?t1 = Inr t'"
    by (simp add: processPacket_def Let_def packet_expected_def del: receiver_step.simps)
  with t1 show ?thesis by (rule receiver_call_inv)
next
  case False
  with r inv show ?thesis
    unfolding processPacket_def handler_steps
    by (auto simp: Let_def require_eq_Inr simp del: sender_step.simps receiver_step.simps split: if_split_asm
        dest!: sender_call_inv [rotated] receiver_call_inv [rotated])
qed

lemma process_burst_inv:
  "transport_inv t \<Longrightarrow> burst_expected ps t \<Longrightarrow> process_burst ps t = Inr t' \<Longrightarrow> transport_inv t'"
  by (induction ps t rule: burst_expected.induct) (auto simp: bindr_eq_Inr dest: processPacket_inv)

lemma poll_steps:
  "sender_poll tsc1 tsc2 queued = sender_step (Poll tsc1 tsc2 queued)" "receiver_poll tsc3 tsc4 = receiver_step (RPoll tsc3 tsc4)"
  by (simp_all add: fun_eq_iff)

lemma t_poll_inv:
  assumes inv: "transport_inv t" and e: "burst_expected (pi_receivePackets x MAX_BURST) t" and r: "t_poll x t = Inr t'"
  shows "transport_inv t'"
proof -
  let ?emit = "\<lambda>t0. if pi_receivePackets x MAX_BURST \<noteq> []
      then t_emit [PerfAdd active_cycles (fst (Timer_split (pi_packets_timer x 1) (pi_packets_timer x 0)))] t0 else t0"
  from r obtain t0 t2 t3 where p: "process_burst (pi_receivePackets x MAX_BURST) t = Inr t0"
    "on_sender (sender_step (Poll (pi_send x) (pi_send_timeouts x) (pi_queuedBytes x))) (?emit t0) = Inr t2"
    "on_receiver (receiver_step (RPoll (pi_grants x) (pi_receive_timeouts x))) t2 = Inr t3"
    "transport_inv t' = transport_inv t3"
    unfolding t_poll_def poll_steps processPackets_def
    by (auto simp: Let_def bindr_eq_Inr require_eq_Inr simp del: sender_step.simps receiver_step.simps)
  have "transport_inv (?emit t0)" using process_burst_inv [OF inv e p(1)] by simp
  from receiver_call_inv [OF sender_call_inv [OF this p(2)] p(3)] p(4) show ?thesis by simp
qed

lemma transport_step_inv:
  assumes "transport_inv t" "transport_step op t = Inr t'"
  shows "transport_inv t'"
  using assms
  by (cases op) (auto simp: require_eq_Inr dest: sender_call_inv receiver_call_inv t_poll_inv)

interpretation transport_system: component transport_start transport_step transport_inv
  by unfold_locales (use transport_start_inv transport_step_inv in blast)+

section \<open>Every packet is handled\<close>

text \<open>No packet with a complete common header makes the transport fail: a DATA packet as above can
  only run out of memory.\<close>

lemma on_component_ok:
  "\<exists>s'. f (t_sender t) = Inr s' \<Longrightarrow> \<exists>t'. on_sender f t = Inr t'"
  "\<exists>r'. g (t_receiver t) = Inr r' \<Longrightarrow> \<exists>t'. on_receiver g t = Inr t'"
  by (auto simp: on_sender_def on_receiver_def)

lemma processPacket_total:
  assumes inv: "transport_inv t" and e: "packet_expected p ip t"
  shows "(\<exists>t'. processPacket tsc p ip t = Inr t') \<or> processPacket tsc p ip t = Inl BadAlloc"
proof (cases "hopcode (decode_common (payload p)) = opcode_value DATA")
  case True
  with e inv have "data_packet_ok (r_driver (t_receiver t)) p" "data_fits p ip (t_receiver t)" "receiver_inv (t_receiver t)"
    by (simp_all add: packet_expected_def transport_inv_def shared_ok_def)
  from handleDataPacket_ok [OF this(3,1,2), of tsc] True e show ?thesis
    by (auto simp: processPacket_def Let_def on_receiver_def packet_expected_def)
next
  case False
  note i = inv [unfolded transport_inv_def]
  have s: "\<exists>s'. handleGrantPacket tsc p (t_sender t) = Inr s'" "\<exists>s'. handleDonePacket p (t_sender t) = Inr s'"
    "\<exists>s'. handleResendPacket tsc p (t_sender t) = Inr s'" "\<exists>s'. handleUnknownPacket tsc p (t_sender t) = Inr s'"
    "\<exists>s'. handleErrorPacket p (t_sender t) = Inr s'"
    using i handleGrantPacket_ok handleDonePacket_ok handleResendPacket_ok handleUnknownPacket_ok handleErrorPacket_ok by blast+
  have r: "\<exists>r'. handleBusyPacket tsc p (t_receiver t) = Inr r'" "\<exists>r'. handlePingPacket tsc p ip (t_receiver t) = Inr r'"
    using i handleBusyPacket_ok handlePingPacket_ok by blast+
  show ?thesis
    using False e s r unfolding processPacket_def Let_def packet_expected_def
    by (simp add: on_component_ok)
qed

section \<open>Packets go back to the driver\<close>

text \<open>The last thing a handler of a control packet does is to release it.\<close>

abbreviation s_releases :: "packet \<Rightarrow> sender res \<Rightarrow> bool" where
  "s_releases p x \<equiv> ensures (\<lambda>s'. \<exists>es. s_events s' = es @ [ReleasePackets [p]]) x"

abbreviation r_releases :: "packet \<Rightarrow> receiver res \<Rightarrow> bool" where
  "r_releases p x \<equiv> ensures (\<lambda>r'. \<exists>es. r_events r' = es @ [ReleasePackets [p]]) x"

lemma s_release_last: "\<exists>es. s_events (release_packet p s) = es @ [ReleasePackets [p]]"
  by (simp add: release_packet_def emit_def)

lemma r_release_last: "\<exists>es. r_events (r_release p r) = es @ [ReleasePackets [p]]"
  by (simp add: r_release_def r_emit_def)

lemma sender_releases:
  "s_releases p (handleDonePacket p s)" "s_releases p (handleErrorPacket p s)" "s_releases p (handleGrantPacket tsc p s)"
  "s_releases p (handleResendPacket tsc p s)" "s_releases p (handleUnknownPacket tsc p s)"
  unfolding handleDonePacket_def handleErrorPacket_def handleGrantPacket_def handleResendPacket_def handleUnknownPacket_def
  by (rule ensures_rules ensures_read | simp add: s_release_last split: status.split)+

lemma receiver_releases: "r_releases p (handleBusyPacket tsc p r)" "r_releases p (handlePingPacket tsc p ip r)"
  unfolding handleBusyPacket_def handlePingPacket_def
  by (rule ensures_rules ensures_read | simp add: r_release_last)+

end
