(* ===== verification/End_To_End.thy ===== *)
theory End_To_End
  imports Frames
begin

text \<open>
  From \<open>sendMessage\<close> at one host to \<open>receive\<close> at another: whatever the network does to the packets of
  a message short of damaging them, reorder them, repeat them, delay them, once each packet has
  arrived the receiver has delivered the message to its application exactly once and the
  application reads the bytes that were sent.
\<close>

section \<open>A message on the wire\<close>

text \<open>\<open>q\<close> is packet \<open>i\<close> of the message as it arrives: the same length and the same bytes; what is in
  the buffer beyond the length is arbitrary.\<close>

definition arrives_as :: "driver \<Rightarrow> outMessage \<Rightarrow> nat \<Rightarrow> packet \<Rightarrow> bool" where
  "arrives_as d m i q =
     (case om_packets m i of None \<Rightarrow> False
      | Some p \<Rightarrow> plength q = plength p \<and> length (payload q) = unat (maxPayloadSize d) \<and>
                 take (nat (plength p)) (payload q) = take (nat (plength p)) (payload p))"

text \<open>A message that was sent: every packet has its header.\<close>

definition wire_header :: "outMessage \<Rightarrow> u16 \<Rightarrow> u16 \<Rightarrow> u16 \<Rightarrow> nat \<Rightarrow> dataHeader" where
  "wire_header m sp dp limit i =
     DataHeader sp dp (om_id m) (word_of_int (om_messageLength m)) 0 limit (of_nat i)"

definition on_wire :: "driver \<Rightarrow> outMessage \<Rightarrow> u16 \<Rightarrow> u16 \<Rightarrow> u16 \<Rightarrow> bool" where
  "on_wire d m sp dp limit \<longleftrightarrow>
     om_wf d m \<and> 0 < om_messageLength m \<and> unat limit \<le> IM_MAX_MESSAGE_PACKETS \<and>
     (\<forall>i p. om_packets m i = Some p \<longrightarrow> decode_data (payload p) = wire_header m sp dp limit i)"

text \<open>The network hands packets to the receiver; the number says which packet of the message it
  is, for the sake of the statements only.\<close>

fun deliver :: "((nat \<Rightarrow> u64) \<times> nat \<times> packet) list \<Rightarrow> ipAddress \<Rightarrow> receiver \<Rightarrow> receiver res" where
  "deliver [] ip r = Inr r"
| "deliver ((tsc, i, q) # qs) ip r = bindr (handleDataPacket tsc q ip r) (deliver qs ip)"

lemma field_take: "off + n \<le> k \<Longrightarrow> field off n (take k bs) = field off n bs"
  by (simp add: field_def drop_take min_def)

lemma decode_data_take: "sizeof_DataHeader \<le> n \<Longrightarrow> decode_data (take n bs) = decode_data bs"
  by (simp add: decode_data_def decode_common_def field_take sizeof_DataHeader_def)

lemma same_payload_size:
  assumes "maxPayloadSize d' = maxPayloadSize d"
  shows "pdl d' = pdl d" "chunk d' = chunk d" "packets_for d' = packets_for d"
  using assms by (simp_all add: pdl_def chunk_def packets_for_def fun_eq_iff)

lemma wire_packet:
  assumes w: "on_wire d m sp dp limit" and q: "arrives_as d m i q"
  defines "len \<equiv> nat (om_messageLength m)"
  shows "decode_data (payload q) = wire_header m sp dp limit i" "length (payload q) = unat (maxPayloadSize d)"
    "plength q = int (sizeof_DataHeader + chunk d len i)" "i < packets_for d len"
proof -
  obtain p where p: "om_packets m i = Some p" "plength q = plength p" "length (payload q) = unat (maxPayloadSize d)"
    "take (nat (plength p)) (payload q) = take (nat (plength p)) (payload p)"
    using q by (auto simp: arrives_as_def split: option.splits)
  have l: "i < packets_for d len" "packet_ok d (chunk d len i) p"
    using w p(1) unfolding on_wire_def om_wf_def om_layout_def len_def by (metis option.simps(5))+
  then have n: "plength p = int (sizeof_DataHeader + chunk d len i)" by (simp add: packet_ok_def)
  then have "sizeof_DataHeader \<le> nat (plength p)" by simp
  then have "decode_data (payload q) = decode_data (payload p)" using p(4) by (metis decode_data_take)
  then show "decode_data (payload q) = wire_header m sp dp limit i" using w p(1) by (simp add: on_wire_def)
  show "length (payload q) = unat (maxPayloadSize d)" "plength q = int (sizeof_DataHeader + chunk d len i)"
    "i < packets_for d len" using p(2,3) n l(1) by simp_all
qed

lemma wire_header_fields:
  assumes "on_wire d m sp dp limit" "driver_ok d" "i < packets_for d (nat (om_messageLength m))"
  defines "h \<equiv> wire_header m sp dp limit i"
  shows "hmessageId (dh_common h) = om_id m" "unat (totalLength h) = nat (om_messageLength m)"
    "unat (dh_index h) = i" "unscheduledIndexLimit h = limit" "be16toh (sport (prefix (dh_common h))) = sp"
    "nat (om_messageLength m) \<le> IM_MAX_MESSAGE_PACKETS * pdl d"
proof -
  have len: "nat (om_messageLength m) \<le> MAX_MESSAGE_PACKETS * pdl d" "0 < om_messageLength m"
    using assms(1) by (simp_all add: on_wire_def om_wf_def om_layout_def)
  have "MAX_MESSAGE_PACKETS * pdl d < 4294967296" using pdl_bound [OF assms(2)] by (simp add: MAX_MESSAGE_PACKETS_def)
  then have "om_messageLength m < 4294967296" using len by linarith
  then show "unat (totalLength h) = nat (om_messageLength m)"
    using len(2) by (simp add: h_def wire_header_def DataHeader_def Let_def unat_eq_nat_uint uint_word_of_int)
  have "packets_for d (nat (om_messageLength m)) \<le> MAX_MESSAGE_PACKETS"
    using packets_for_le [OF pdl_pos [OF assms(2)] len(1)] .
  then have "i < 1024" using assms(3) by (simp add: MAX_MESSAGE_PACKETS_def)
  then show "unat (dh_index h) = i" by (simp add: h_def wire_header_def DataHeader_def Let_def unsigned_of_nat take_bit_nat_eq_self)
  show "nat (om_messageLength m) \<le> IM_MAX_MESSAGE_PACKETS * pdl d"
    using len(1) by (simp add: MAX_MESSAGE_PACKETS_def IM_MAX_MESSAGE_PACKETS_def)
qed (simp_all add: h_def wire_header_def DataHeader_def CommonHeader_def Let_def)

section \<open>Arrival\<close>

lemma stored_fields [simp]:
  "im_id (stored d i p n) = im_id n" "im_messageLength (stored d i p n) = im_messageLength n"
  "im_source (stored d i p n) = im_source n" "im_start (stored d i p n) = im_start n"
  "im_state n \<noteq> RX_DROPPED \<Longrightarrow> im_state (stored d i p n) \<noteq> RX_DROPPED"
  "im_packets (stored d i p n) = (if im_packets n i = None then (im_packets n)(i \<mapsto> p) else im_packets n)"
  by (auto simp: stored_def progressed_def add_packet_def)

text \<open>What the receiver holds of the message once the packets in \<open>S\<close> have arrived.\<close>

definition all_packets :: "driver \<Rightarrow> outMessage \<Rightarrow> nat set" where
  "all_packets d m = {..<packets_for d (nat (om_messageLength m))}"

definition arrived :: "driver \<Rightarrow> outMessage \<Rightarrow> u16 \<Rightarrow> ipAddress \<Rightarrow> nat set \<Rightarrow> inMessage \<Rightarrow> bool" where
  "arrived d m sp ip S n \<longleftrightarrow>
     im_id n = om_id m \<and> im_messageLength n = om_messageLength m \<and> im_source n = \<lparr>sa_ip = ip, sa_port = sp\<rparr> \<and>
     im_start n = 0 \<and> im_state n \<noteq> RX_DROPPED \<and> dom (im_packets n) = S \<and> S \<subseteq> all_packets d m \<and>
     im_numPackets n = int (card S) \<and> numExpectedPackets n = int (card (all_packets d m)) \<and>
     (\<forall>i p. im_packets n i = Some p \<longrightarrow> arrives_as d m i p)"

definition holds :: "driver \<Rightarrow> outMessage \<Rightarrow> u16 \<Rightarrow> ipAddress \<Rightarrow> receiver \<Rightarrow> nat set \<Rightarrow> receiver \<Rightarrow> bool" where
  "holds d m sp ip r0 S r \<longleftrightarrow>
     receiver_inv r \<and> rparams r = rparams r0 \<and>
     (if S = {} then r_heap r = r_heap r0 \<and> receivedMessages r = receivedMessages r0
      else \<exists>a n. r_heap r0 a = None \<and> r_heap r = (r_heap r0)(a \<mapsto> n) \<and> arrived d m sp ip S n \<and>
             receivedMessages r = receivedMessages r0 @ (if S = all_packets d m then [a] else []))"

lemma stored_counts:
  "im_numPackets (stored d i p n) = im_numPackets n + (if im_packets n i = None then 1 else 0)"
  "numExpectedPackets (stored d i p n) = numExpectedPackets n"
  by (auto simp: stored_def)

lemma arrived_finite: "arrived d m sp ip S n \<Longrightarrow> finite S"
  by (rule finite_subset [of S "all_packets d m"]) (simp_all add: arrived_def all_packets_def)

lemma arrived_stored:
  assumes n: "arrived d m sp ip S n" and q: "arrives_as d m i q" "i \<in> all_packets d m"
  shows "arrived d m sp ip (insert i S) (stored d' i q n)"
proof -
  have "im_packets n i = None \<longleftrightarrow> i \<notin> S" using n by (auto simp: arrived_def)
  then show ?thesis
    using n q arrived_finite [OF n] by (auto simp: arrived_def stored_counts insert_absorb)
qed

lemma arrived_completes:
  assumes n: "arrived d m sp ip S n" and i: "i \<in> all_packets d m"
  shows "completes i n \<longleftrightarrow> i \<notin> S \<and> insert i S = all_packets d m"
proof (cases "i \<in> S")
  case True
  with n show ?thesis by (auto simp: completes_def arrived_def)
next
  case False
  have fin: "finite (all_packets d m)" by (simp add: all_packets_def)
  have e: "S \<subseteq> all_packets d m" using n by (simp add: arrived_def)
  have "card (insert i S) = card S + 1" using False arrived_finite [OF n] by simp
  moreover have "card (insert i S) \<le> card (all_packets d m)" using e i fin by (intro card_mono) auto
  moreover have "insert i S = all_packets d m" if "card (insert i S) = card (all_packets d m)"
    using that e i fin by (intro card_subset_eq) auto
  ultimately show ?thesis using False n by (auto simp: completes_def arrived_def)
qed

lemma arrived_fresh:
  assumes "on_wire d m sp dp limit" "driver_ok d" "i < packets_for d (nat (om_messageLength m))"
    and size: "maxPayloadSize d' = maxPayloadSize d"
  shows "arrived d m sp ip {} (started_message d' (wire_header m sp dp limit i) ip)"
proof -
  have "0 < om_messageLength m" using assms(1) by (simp add: on_wire_def)
  with wire_header_fields [OF assms(1-3)] show ?thesis
    by (simp add: arrived_def started_message_def fresh_message_def Let_def all_packets_def same_payload_size [OF size])
qed

text \<open>The message a packet is for, and where it is put.\<close>

lemma packet_target:
  assumes H: "holds d m sp ip r0 S r" and w: "on_wire d m sp dp limit" and d: "driver_ok d"
    and size: "maxPayloadSize (r_driver r0) = maxPayloadSize d"
    and new: "\<forall>b n. r_heap r0 b = Some n \<longrightarrow> im_id n \<noteq> om_id m"
    and q: "arrives_as d m i q"
  defines "n \<equiv> message_for q ip r"
  shows "data_fits q ip r" "arrived d m sp ip S n" "S \<noteq> {} \<Longrightarrow> \<exists>a. r_heap r a = Some n \<and> r_heap r0 a = None \<and>
      r_heap r = (r_heap r0)(a \<mapsto> n) \<and> receivedMessages r = receivedMessages r0 @ (if S = all_packets d m then [a] else [])"
proof -
  note p = wire_packet [OF w q]
  note h = wire_header_fields [OF w d p(4)]
  have inv: "receiver_inv r" using H by (simp add: holds_def)
  let ?find = "r_findMessage (om_id m) (r_messageBuckets r (r_getBucket (om_id m))) r"
  have "data_fits q ip r \<and> arrived d m sp ip S n \<and> (S \<noteq> {} \<longrightarrow> (\<exists>a. r_heap r a = Some n \<and> r_heap r0 a = None \<and>
      r_heap r = (r_heap r0)(a \<mapsto> n) \<and> receivedMessages r = receivedMessages r0 @ (if S = all_packets d m then [a] else [])))"
  proof (cases "S = {}")
    case True
    then have e: "r_heap r = r_heap r0" using H by (simp add: holds_def)
    from inv have "?find = Inr None"
    proof (cases rule: r_findMessage_cases [where msgId = "om_id m"])
      case (present a n')
      with new e show ?thesis by metis
    qed
    then have "data_fits q ip r" "n = started_message (r_driver r) (wire_header m sp dp limit i) ip"
      by (simp_all add: data_fits_def n_def message_for_def Let_def p(1) h(1))
    moreover have "r_driver r = r_driver r0" using H by (simp add: holds_def rparams_def)
    ultimately show ?thesis using True arrived_fresh [OF w d p(4) size] by simp
  next
    case False
    with H obtain a n' where a: "r_heap r0 a = None" "r_heap r = (r_heap r0)(a \<mapsto> n')" "arrived d m sp ip S n'"
      "receivedMessages r = receivedMessages r0 @ (if S = all_packets d m then [a] else [])" by (auto simp: holds_def)
    then have ra: "r_heap r a = Some n'" by simp
    have "im_id n' = om_id m" using a(3) by (simp add: arrived_def)
    then have f: "?find = Inr (Some a)" using r_findMessage_present(1) [OF inv ra] by simp
    have "0 < om_messageLength m" using w by (simp add: on_wire_def)
    then have "same_message (wire_header m sp dp limit i) ip n'"
      using a(3) h by (simp add: same_message_def arrived_def)
    with f ra have "data_fits q ip r" "n = n'"
      by (simp_all add: data_fits_def n_def message_for_def Let_def p(1) h(1))
    with a ra show ?thesis by (intro conjI impI exI [of _ a]) simp_all
  qed
  then show "data_fits q ip r" "arrived d m sp ip S n" "S \<noteq> {} \<Longrightarrow> \<exists>a. r_heap r a = Some n \<and> r_heap r0 a = None \<and>
      r_heap r = (r_heap r0)(a \<mapsto> n) \<and> receivedMessages r = receivedMessages r0 @ (if S = all_packets d m then [a] else [])"
    by blast+
qed

lemma deliver_step:
  assumes H: "holds d m sp ip r0 S r" and w: "on_wire d m sp dp limit" and d: "driver_ok d"
    and size: "maxPayloadSize (r_driver r0) = maxPayloadSize d"
    and new: "\<forall>b n. r_heap r0 b = Some n \<longrightarrow> im_id n \<noteq> om_id m"
    and q: "arrives_as d m i q"
  shows "handleDataPacket tsc q ip r = Inl BadAlloc \<or>
    (\<exists>r'. handleDataPacket tsc q ip r = Inr r' \<and> holds d m sp ip r0 (insert i S) r')"
proof -
  let ?n = "message_for q ip r"
  note p = wire_packet [OF w q]
  note h = wire_header_fields [OF w d p(4)] and sz = same_payload_size [OF size]
  note t = packet_target [OF H w d size new q]
  have inv: "receiver_inv r" and par: "rparams r = rparams r0" using H by (simp_all add: holds_def)
  have dr: "r_driver r = r_driver r0" using par by (simp add: rparams_def)
  have len: "0 < om_messageLength m" "unat limit \<le> IM_MAX_MESSAGE_PACKETS" using w by (simp_all add: on_wire_def)
  have ok: "data_packet_ok (r_driver r) q"
    using p h len by (simp add: data_packet_ok_def Let_def dr sz size)
  have i: "i \<in> all_packets d m" using p(4) by (simp add: all_packets_def)
  from handleDataPacket_ok [OF inv ok t(1), of tsc]
  consider "handleDataPacket tsc q ip r = Inl BadAlloc" |
    r' a where "handleDataPacket tsc q ip r = Inr r'" "receiver_inv r'" "r_heap r a = Some ?n \<or> r_heap r a = None"
      "r_heap r' = (r_heap r)(a \<mapsto> stored (r_driver r) i q ?n)"
      "receivedMessages r' = receivedMessages r @ (if completes i ?n then [a] else [])"
    by (auto simp: p(1) h(3))
  then show ?thesis
  proof cases
    case 2
    let ?s = "stored (r_driver r) i q ?n"
    have ar: "arrived d m sp ip (insert i S) ?s" using arrived_stored [OF t(2) q i] .
    have par': "rparams r' = rparams r0" using ensuresD [OF handleDataPacket_frame 2(1)] par by simp
    note comp = arrived_completes [OF t(2) i]
    have new': "r_heap r0 a = None \<and> r_heap r' = (r_heap r0)(a \<mapsto> ?s) \<and>
        receivedMessages r' = receivedMessages r0 @ (if insert i S = all_packets d m then [a] else [])"
    proof (cases "S = {}")
      case True
      then have e: "r_heap r = r_heap r0" "receivedMessages r = receivedMessages r0" using H by (simp_all add: holds_def)
      have "r_heap r0 a = None" using 2(3) new t(2) e by (auto simp: arrived_def)
      then show ?thesis using 2 e True comp by simp
    next
      case False
      then obtain b where b: "r_heap r b = Some ?n" "r_heap r0 b = None" "r_heap r = (r_heap r0)(b \<mapsto> ?n)"
        "receivedMessages r = receivedMessages r0 @ (if S = all_packets d m then [b] else [])" using t(3) by blast
      have "a = b"
      proof (cases "r_heap r a")
        case None
        then have "a \<noteq> b" using b(1) by auto
        then have "r_heap r' b = Some ?n" "r_heap r' a = Some ?s" using 2(4) b(1) by simp_all
        then show ?thesis using rinv_id [OF 2(2)] by simp
      next
        case (Some n)
        then show ?thesis using 2(3) rinv_id [OF inv _ b(1)] by auto
      qed
      moreover have "S \<subseteq> all_packets d m" using t(2) by (simp add: arrived_def)
      ultimately show ?thesis using 2 b comp i by (auto simp: insert_absorb)
    qed
    have "\<exists>b n. r_heap r0 b = None \<and> r_heap r' = (r_heap r0)(b \<mapsto> n) \<and> arrived d m sp ip (insert i S) n \<and>
        receivedMessages r' = receivedMessages r0 @ (if insert i S = all_packets d m then [b] else [])"
      by (intro exI [of _ a] exI [of _ ?s]) (use new' ar in blast)
    then have "holds d m sp ip r0 (insert i S) r'" unfolding holds_def using 2(2) par' by simp
    with 2(1) show ?thesis by blast
  qed simp
qed

lemma deliver_holds:
  assumes w: "on_wire d m sp dp limit" and d: "driver_ok d" and size: "maxPayloadSize (r_driver r0) = maxPayloadSize d"
    and new: "\<forall>b n. r_heap r0 b = Some n \<longrightarrow> im_id n \<noteq> om_id m"
  shows "holds d m sp ip r0 S r \<Longrightarrow> \<forall>x\<in>set qs. arrives_as d m (fst (snd x)) (snd (snd x)) \<Longrightarrow>
    deliver qs ip r = Inl BadAlloc \<or>
    (\<exists>r'. deliver qs ip r = Inr r' \<and> holds d m sp ip r0 (S \<union> (fst \<circ> snd) ` set qs) r')"
proof (induction qs ip r arbitrary: S rule: deliver.induct)
  case (2 tsc i q qs ip r)
  from 2(3) have q: "arrives_as d m i q" and qs: "\<forall>x\<in>set qs. arrives_as d m (fst (snd x)) (snd (snd x))" by auto
  from deliver_step [OF 2(2) w d size new q, of tsc] show ?case
  proof
    assume "\<exists>r'. handleDataPacket tsc q ip r = Inr r' \<and> holds d m sp ip r0 (insert i S) r'"
    then obtain r' where r': "handleDataPacket tsc q ip r = Inr r'" "holds d m sp ip r0 (insert i S) r'" by blast
    have "S \<union> (fst \<circ> snd) ` set ((tsc, i, q) # qs) = insert i S \<union> (fst \<circ> snd) ` set qs" by auto
    with 2(1) [OF r'(1,2) qs] r'(1) show ?thesis by simp
  qed simp
qed simp

text \<open>The bytes that were sent are the bytes that arrived.\<close>

lemma offset_in_chunk: "0 < pdl d \<Longrightarrow> k < len \<Longrightarrow> k mod pdl d < chunk d len (k div pdl d)"
  using div_mult_mod_eq [of k "pdl d"] mod_less_divisor [of "pdl d" k] unfolding chunk_def by linarith

lemma arrived_buffer:
  assumes n: "arrived d m sp ip (all_packets d m) n" and w: "on_wire d m sp dp limit" and d: "driver_ok d"
    and size: "maxPayloadSize d' = maxPayloadSize d"
  shows "im_buffer d' n = om_buffer d m" "im_complete d' n"
proof -
  note sz = same_payload_size [OF size]
  have len: "im_messageLength n = om_messageLength m" and all: "dom (im_packets n) = all_packets d m"
    and arr: "\<forall>i p. im_packets n i = Some p \<longrightarrow> arrives_as d m i p"
    using n by (simp_all add: arrived_def)
  have pos: "0 < pdl d" using pdl_pos [OF d] .
  have "im_byte d' n k = om_byte d m k" if k: "k < nat (om_messageLength m)" for k
  proof -
    let ?i = "k div pdl d" and ?o = "sizeof_DataHeader + k mod pdl d"
    have "?i * pdl d < nat (om_messageLength m)" using k le_less_trans [OF div_times_less_eq_dividend] by blast
    then have "?i \<in> all_packets d m" using packets_for_iff [OF pos] by (simp add: all_packets_def)
    then obtain q where q: "im_packets n ?i = Some q" using all by blast
    with arr have aq: "arrives_as d m ?i q" by blast
    then obtain p where p: "om_packets m ?i = Some p" "plength q = plength p"
      "take (nat (plength p)) (payload q) = take (nat (plength p)) (payload p)"
      by (auto simp: arrives_as_def split: option.splits)
    have "?o < nat (plength p)"
      using wire_packet(3) [OF w aq] offset_in_chunk [OF pos k] p(2) by simp
    then have "payload q ! ?o = payload p ! ?o" using p(3) by (metis nth_take)
    then show ?thesis by (simp add: im_byte_def om_byte_def sz q p(1))
  qed
  then show "im_buffer d' n = om_buffer d m" by (simp add: im_buffer_def om_buffer_def len)
  show "im_complete d' n" using all by (auto simp: im_complete_def len sz all_packets_def)
qed

lemma deliver_complete:
  assumes inv: "receiver_inv r" and w: "on_wire d m sp dp limit" and d: "driver_ok d"
    and size: "maxPayloadSize (r_driver r) = maxPayloadSize d"
    and new: "\<forall>b n. r_heap r b = Some n \<longrightarrow> im_id n \<noteq> om_id m"
    and qs: "\<forall>x\<in>set qs. arrives_as d m (fst (snd x)) (snd (snd x))" "(fst \<circ> snd) ` set qs = all_packets d m"
  shows "deliver qs ip r = Inl BadAlloc \<or>
    (\<exists>r' b n. deliver qs ip r = Inr r' \<and> receiver_inv r' \<and> r_heap r b = None \<and> r_heap r' = (r_heap r)(b \<mapsto> n) \<and>
       receivedMessages r' = receivedMessages r @ [b] \<and> im_state n = RX_COMPLETED \<and> im_id n = om_id m \<and>
       im_source n = \<lparr>sa_ip = ip, sa_port = sp\<rparr> \<and>
       message_read (get 0 (word_of_int (om_messageLength m))) b r' = Inr (om_buffer d m))"
proof -
  have H: "holds d m sp ip r {} r" using inv by (simp add: holds_def)
  have len: "0 < om_messageLength m" "nat (om_messageLength m) \<le> MAX_MESSAGE_PACKETS * pdl d"
    using w by (simp_all add: on_wire_def om_wf_def om_layout_def)
  have "0 < packets_for d (nat (om_messageLength m))"
    using packets_for_iff [OF pdl_pos [OF d], of 0] len(1) by simp
  then have ne: "all_packets d m \<noteq> {}" by (auto simp: all_packets_def)
  from deliver_holds [OF w d size new H qs(1)] show ?thesis
  proof
    assume "\<exists>r'. deliver qs ip r = Inr r' \<and> holds d m sp ip r ({} \<union> (fst \<circ> snd) ` set qs) r'"
    then obtain r' where r': "deliver qs ip r = Inr r'" "holds d m sp ip r (all_packets d m) r'" using qs(2) by auto
    then obtain b n where b: "receiver_inv r'" "rparams r' = rparams r" "r_heap r b = None" "r_heap r' = (r_heap r)(b \<mapsto> n)"
      "arrived d m sp ip (all_packets d m) n" "receivedMessages r' = receivedMessages r @ [b]"
      using ne by (auto simp: holds_def)
    then have rn: "r_heap r' b = Some n" and dr: "r_driver r' = r_driver r" by (simp_all add: rparams_def)
    note ok = rinv_msg [OF b(1) rn]
    have f: "im_messageLength n = om_messageLength m" "im_start n = 0" "im_state n \<noteq> RX_DROPPED"
      "im_numPackets n = numExpectedPackets n" "im_id n = om_id m" "im_source n = \<lparr>sa_ip = ip, sa_port = sp\<rparr>"
      using b(5) by (simp_all add: arrived_def)
    have st: "im_state n = RX_COMPLETED" using ok f(3,4) by (cases "im_state n") (simp_all add: rmsg_ok_def)
    have wf: "im_wf (r_driver r') n" using ok by (simp add: rmsg_ok_def)
    have "MAX_MESSAGE_PACKETS * pdl d < 67108864" using pdl_bound [OF d] by (simp add: MAX_MESSAGE_PACKETS_def)
    then have small: "nat (om_messageLength m) < 67108864" using len(2) by linarith
    define w :: u64 where "w = word_of_int (om_messageLength m)"
    have uw: "unat w = nat (om_messageLength m)"
      using small len(1) by (simp add: w_def unat_eq_nat_uint uint_word_of_int)
    have a0: "downCast_int 0 = Inr (int 0)" "downCast_int w = Inr (int (nat (om_messageLength m)))"
      using downCast_int_small [of 0] downCast_int_small [of w] uw small by simp_all
    have "get 0 w n = Inr (take (nat (om_messageLength m)) (drop (nat (im_start n) + 0) (im_buffer (r_driver r') n)))"
      by (rule get_correct [OF rinv_parts(2) [OF b(1)] wf _ _ _ a0])
        (use arrived_buffer(2) [OF b(5) w d, of "r_driver r'"] size dr f len small same_payload_size [of "r_driver r'" d] in simp_all)
    also have "\<dots> = Inr (om_buffer d m)"
      using arrived_buffer(1) [OF b(5) w d, of "r_driver r'"] size dr f(2) by simp
    finally have "message_read (get 0 w) b r' = Inr (om_buffer d m)" using rn by (simp add: message_read_def)
    with r'(1) b st f show ?thesis unfolding w_def by blast
  qed simp
qed

section \<open>What \<open>sendMessage\<close> puts on the wire\<close>

lemma om_layout_packets:
  assumes "om_wf d m" "om_packets m j = Some p"
  shows "int j < om_numPackets m"
  using assms unfolding om_wf_def om_layout_def by (metis of_nat_less_iff option.simps(5))

lemma sent_on_wire:
  assumes inv: "sender_inv s" and m: "s_heap s a = Some m" "\<not> started m" "om_held m" "0 < om_numPackets m"
    and no_wrap: "nextMessageSequenceNumber s \<noteq> - 1"
    and lim: "packets_for (s_driver s) (unat (RTT_BYTES (policyManager s))) \<le> IM_MAX_MESSAGE_PACKETS"
    and s': "sendMessage tsc a dst opt s = Inr s'" "s_heap s' a = Some m'"
  shows "om_id m' = \<lparr>transportId = s_transportId s, sequence = nextMessageSequenceNumber s\<rparr>"
    "om_buffer (s_driver s) m' = om_buffer (s_driver s) m" "om_messageLength m' = om_messageLength m"
    "on_wire (s_driver s) m' (sa_port (om_source m)) (sa_port dst)
       (word_of_int (int (packets_for (s_driver s) (unat (RTT_BYTES (policyManager s))))))"
proof -
  let ?d = "s_driver s" and ?id = "\<lparr>transportId = s_transportId s, sequence = nextMessageSequenceNumber s\<rparr>"
  let ?l = "int (packets_for (s_driver s) (unat (RTT_BYTES (policyManager s))))"
  let ?p = "prepared ?id dst opt 0 ?l m"
  obtain s'' m'' where "sendMessage tsc a dst opt s = Inr s''" "s_heap s'' = (s_heap s)(a \<mapsto> m'')"
    and p: "m'' = ?p\<lparr>om_state := if om_numPackets m = 1 then SENT else IN_PROGRESS, om_info := om_info m''\<rparr>"
    using sendMessage_ok [OF inv m no_wrap, of tsc dst opt] by blast
  with s' have "m'' = m'" by simp
  with p obtain st q where m': "m' = ?p\<lparr>om_state := st, om_info := q\<rparr>" by blast
  have d: "driver_ok ?d" using inv_parts(4) [OF inv] .
  have wf: "om_wf ?d m" using inv_msg [OF inv m(1)] by (simp add: msg_ok_def)
  note pr = prepared_ok [OF d wf, of ?id dst opt 0 ?l]
  show "om_id m' = ?id" "om_messageLength m' = om_messageLength m" by (simp_all add: m')
  show "om_buffer ?d m' = om_buffer ?d m" using pr(2) by (simp add: m')
  have "om_numPackets m = int (packets_for ?d (nat (om_messageLength m)))" using wf by (simp add: om_wf_def om_layout_def)
  then have len: "0 < om_messageLength m"
    using m(4) packets_for_iff [OF pdl_pos [OF d], of 0 "nat (om_messageLength m)"] by simp
  have wf': "om_wf ?d m'" using pr(1) by (simp add: m')
  have "unat (word_of_int ?l :: u16) \<le> IM_MAX_MESSAGE_PACKETS"
    using lim by (simp add: IM_MAX_MESSAGE_PACKETS_def unsigned_of_nat take_bit_nat_eq_self)
  moreover have "decode_data (payload p) = wire_header m' (sa_port (om_source m)) (sa_port dst) (word_of_int ?l) i"
    if p: "om_packets m' i = Some p" for i p
  proof -
    have "int i < om_numPackets m" using om_layout_packets [OF wf' p] by (simp add: m')
    from prepared_header [OF d wf this, of ?id dst opt 0 ?l] p show ?thesis
      by (auto simp: m' wire_header_def)
  qed
  ultimately show "on_wire ?d m' (sa_port (om_source m)) (sa_port dst) (word_of_int ?l)"
    using wf' len by (simp add: on_wire_def m')
qed

end
