(* ===== verification/Sender_Effects.thy ===== *)
theory Sender_Effects
  imports Frames
begin

text \<open>
  What the control packets do to a sender, message by message: the effect of GRANT, DONE, ERROR and
  RESEND on the message they name, on every branch, and the ways a message leaves the states it
  may be in.
\<close>

section \<open>The message a packet names\<close>

lemma find_started:
  assumes inv: "sender_inv s" and m: "s_heap s a = Some m" "started m"
  shows "findMessage (om_id m) (messageBuckets s (getBucket (om_id m))) s = Inr (Some a)"
  using inv
proof (cases rule: findMessage_cases [where msgId = "om_id m"])
  case absent
  with m show ?thesis by blast
next
  case (present b n)
  have "heap_ok (s_driver s) (s_transportId s) (nextMessageSequenceNumber s) (s_heap s)" using inv by (simp add: sender_inv_def)
  with present m have "b = a" unfolding heap_ok_def by blast
  with present show ?thesis by simp
qed

section \<open>DONE and ERROR\<close>

text \<open>Only a message that was sent completely can be acknowledged or rejected.\<close>

lemma done_effect:
  assumes inv: "sender_inv s" and m: "s_heap s a = Some m" "started m"
    and p: "hmessageId (decode_common (payload p)) = om_id m"
  shows "\<exists>s'. handleDonePacket p s = Inr s' \<and>
      s_heap s' = (s_heap s)(a \<mapsto> m\<lparr>om_state := if om_state m = SENT then COMPLETED else om_state m\<rparr>)"
    and "\<exists>s'. handleErrorPacket p s = Inr s' \<and>
      s_heap s' = (s_heap s)(a \<mapsto> m\<lparr>om_state := if om_state m = SENT then FAILED else om_state m\<rparr>)"
proof -
  have "(s_heap s)(a \<mapsto> m\<lparr>om_state := om_state m\<rparr>) = s_heap s" using m(1) by (simp add: fun_upd_idem)
  then show "\<exists>s'. handleDonePacket p s = Inr s' \<and>
      s_heap s' = (s_heap s)(a \<mapsto> m\<lparr>om_state := if om_state m = SENT then COMPLETED else om_state m\<rparr>)"
    "\<exists>s'. handleErrorPacket p s = Inr s' \<and>
      s_heap s' = (s_heap s)(a \<mapsto> m\<lparr>om_state := if om_state m = SENT then FAILED else om_state m\<rparr>)"
    using find_started [OF inv m] m p
    by (cases "om_state m"; simp add: handleDonePacket_def handleErrorPacket_def Let_def getStatus_def sender_defs)+
qed

section \<open>GRANT\<close>

text \<open>The number of packets a grant of \<open>n\<close> bytes covers, at most those of the message.\<close>

definition grant_target :: "driver \<Rightarrow> u32 \<Rightarrow> outMessage \<Rightarrow> int" where
  "grant_target d n m = min (int (packets_for d (unat n))) (om_numPackets m)"

definition after_grant :: "driver \<Rightarrow> grantHeader \<Rightarrow> outMessage \<Rightarrow> outMessage" where
  "after_grant d h m =
     (if om_state m = IN_PROGRESS \<and> packetsGranted (om_info m) < grant_target d (byteLimit h) m
      then m\<lparr>om_info := (om_info m)\<lparr>packetsGranted := grant_target d (byteLimit h) m,
                                    qi_priority := uint (gh_priority h)\<rparr>\<rparr>
      else m)"

lemma grant_effect:
  assumes inv: "sender_inv s" and m: "s_heap s a = Some m" "started m"
    and p: "hmessageId (gh_common (decode_grant (payload p))) = om_id m"
    and small: "unat (byteLimit (decode_grant (payload p))) \<le> 65535 * pdl (s_driver s)"
  shows "\<exists>s'. handleGrantPacket tsc p s = Inr s' \<and> sender_inv s' \<and>
    s_heap s' = (s_heap s)(a \<mapsto> after_grant (s_driver s) (decode_grant (payload p)) m)"
proof -
  let ?h = "decode_grant (payload p)" and ?d = "s_driver s"
  let ?s1 = "set_timeouts (getBucket (om_id m)) a (tsc 0) (tsc 1) s"
  have same: "(s_heap s)(a \<mapsto> m) = s_heap s" using m(1) by (simp add: fun_upd_idem)
  have d: "driver_ok ?d" using inv_parts(4) [OF inv] .
  obtain s' where s': "handleGrantPacket tsc p s = Inr s'" "sender_inv s'" using handleGrantPacket_ok [OF inv] by blast
  have "s_heap s' = (s_heap s)(a \<mapsto> after_grant ?d ?h m)"
  proof (cases "om_state m = IN_PROGRESS")
    case False
    then show ?thesis
      using s'(1) find_started [OF inv m] m p same by (auto simp: handleGrantPacket_def Let_def after_grant_def sender_defs)
  next
    case True
    have n: "1 < om_numPackets m" using inv_msg [OF inv m(1)] True by (simp add: msg_ok_def)
    have pk: "deref_pointer (qi_packets (om_info m)) ?s1 = Inr m"
      using deref_packets [OF inv m n, of ?s1] by simp
    have "om_PACKET_DATA_LENGTH m = int (pdl ?d)"
      using inv_msg [OF inv m(1)] by (simp add: msg_ok_def om_wf_def om_layout_def)
    then have l: "packet_limit (byteLimit ?h) (om_PACKET_DATA_LENGTH m) = Inr (int (packets_for ?d (unat (byteLimit ?h))))"
      using packet_limit_small(1) [OF pdl_pos [OF d] _ small] pdl_bound [OF d] by simp
    from s'(1) have "s' = (if packetsGranted (om_info m) < grant_target ?d (byteLimit ?h) m
        then release_packet p ((upd_info a (\<lambda>q. q\<lparr>packetsGranted := grant_target ?d (byteLimit ?h) m,
               qi_priority := uint (gh_priority ?h)\<rparr>) ?s1)\<lparr>sendReady := True\<rparr>)
        else release_packet p ?s1)"
      using find_started [OF inv m] m p True pk l
      by (auto simp: handleGrantPacket_def Let_def grant_target_def min_def split: if_splits)
    then show ?thesis using m True same by (auto simp: after_grant_def sender_defs)
  qed
  with s' show ?thesis by blast
qed

text \<open>A limit close to \<open>2 ^ 32\<close> wraps around: the grant then covers hardly anything.\<close>

lemma packet_limit_wraps:
  assumes "0 < l" "l < 2 ^ 31" "2 ^ 32 \<le> unat n + l - 1"
  shows "packet_limit n (int l) = Inr (int ((unat n + l - 1 - 2 ^ 32) div l))"
proof -
  let ?l = "word_of_int (int l) :: u32"
  have l: "unat ?l = l" using assms(2) by (simp add: unsigned_of_nat take_bit_nat_eq_self)
  have n: "unat n < 2 ^ 32" using unsigned_less [of n] by simp
  have one: "unat (?l - 1) = l - 1" using assms(1) l by (simp add: unat_sub word_le_nat_alt)
  have "unat (n + (?l - 1)) = (unat n + (l - 1)) mod 2 ^ 32"
    using one by (simp add: unat_word_ariths)
  also have "\<dots> = unat n + l - 1 - 2 ^ 32"
    using assms n by (simp add: le_mod_geq)
  finally have "unat (n + ?l - 1) = unat n + l - 1 - 2 ^ 32" by (simp only: add_diff_eq)
  then have q: "unat ((n + ?l - 1) div ?l) = (unat n + l - 1 - 2 ^ 32) div l" using l by (simp add: unat_div)
  have "(unat n + l - 1 - 2 ^ 32) div l \<le> unat n + l - 1 - 2 ^ 32" by simp
  also have "\<dots> < 2 ^ 31" using n assms(1,2) by simp
  finally have "int_of_u32 ((n + ?l - 1) div ?l) = int ((unat n + l - 1 - 2 ^ 32) div l)"
    using int_of_u32_small [of "(n + ?l - 1) div ?l", unfolded q] by simp
  then show ?thesis using assms(1) by (simp add: packet_limit_def)
qed

section \<open>RESEND\<close>

text \<open>A request beyond the packets of the message is ignored, whatever part of it lies within.\<close>

lemma resend_ignored:
  assumes inv: "sender_inv s" and m: "s_heap s a = Some m" "started m" "1 < om_numPackets m"
    and p: "hmessageId (rh_common (decode_resend (payload p))) = om_id m"
    and beyond: "om_numPackets m < uint (rh_index (decode_resend (payload p))) + uint (rh_num (decode_resend (payload p)))"
  shows "handleResendPacket tsc p s =
    Inr (release_packet p (set_timeouts (getBucket (om_id m)) a (tsc 0) (tsc 1) s))"
  using find_started [OF inv m(1,2)] m p beyond deref_packets [OF inv m, of "set_timeouts (getBucket (om_id m)) a (tsc 0) (tsc 1) s"]
  by (simp add: handleResendPacket_def Let_def)

text \<open>A request within the message: what was sent already is sent again, in order and at the
  priority of resent packets; when nothing of it was sent yet, the answer is BUSY; and the
  request counts as a grant.\<close>

definition after_resend :: "resendHeader \<Rightarrow> outMessage \<Rightarrow> outMessage" where
  "after_resend h m =
     (let stop = uint (rh_index h) + uint (rh_num h)
      in if packetsGranted (om_info m) < stop
         then m\<lparr>om_info := (om_info m)\<lparr>packetsGranted := stop, qi_priority := uint (rh_priority h)\<rparr>\<rparr>
         else m)"

definition resent :: "resendHeader \<Rightarrow> outMessage \<Rightarrow> packet list" where
  "resent h m =
     map (\<lambda>i. the (om_packets m i))
       [unat (rh_index h)..<nat (min (uint (rh_index h) + uint (rh_num h)) (packetsSent (om_info m)))]"

lemma sent_packets_busy: "\<exists>q. sent_packets (ControlPacket_send d ip (encode_common h)) = [q]"
  by (simp add: ControlPacket_send_def Let_def)

lemma resend_effect:
  fixes p :: packet
  assumes inv: "sender_inv s" and m: "s_heap s a = Some m" "started m" "1 < om_numPackets m"
  defines "h \<equiv> decode_resend (payload p)"
  assumes p: "hmessageId (rh_common h) = om_id m"
    and within: "uint (rh_index h) < om_numPackets m" "uint (rh_index h) + uint (rh_num h) \<le> om_numPackets m"
    and sent: "uint (rh_index h) < packetsSent (om_info m)"
  shows "\<exists>s' es. handleResendPacket tsc p s = Inr s' \<and> s_heap s' = (s_heap s)(a \<mapsto> after_resend h m) \<and>
    s_events s' = s_events s @ es \<and> sent_packets es = resent h m \<and>
    set (sent_priorities es) \<subseteq> {MAX_PRIORITY (policyManager s)}"
proof -
  let ?i = "getBucket (om_id m)"
  let ?s1 = "set_timeouts ?i a (tsc 0) (tsc 1) s"
  let ?ix = "uint (rh_index h)" and ?stop = "uint (rh_index h) + uint (rh_num h)"
  let ?js = "[nat ?ix..<nat (min ?stop (packetsSent (om_info m)))]"
  define s2 where "s2 = (if packetsGranted (om_info m) < ?stop
      then (upd_info a (\<lambda>q. q\<lparr>packetsGranted := ?stop, qi_priority := uint (rh_priority h)\<rparr>) ?s1)\<lparr>sendReady := True\<rparr>
      else ?s1)"
  have same: "(s_heap s)(a \<mapsto> m) = s_heap s" using m(1) by (simp add: fun_upd_idem)
  have dp: "deref_pointer (qi_packets (om_info m)) ?s1 = Inr m" using deref_packets [OF inv m, of ?s1] by simp
  have "\<exists>q. getPacket i m = Inr (Some q)" if "i \<in> set (map int ?js)" for i
  proof -
    from that have "0 \<le> i" "i < om_numPackets m" using within(2) by auto
    with getPacket_ok [OF inv_parts(4) [OF inv] msg_ok_parts(1) [OF inv_msg [OF inv m(1)] inv_parts(4) [OF inv]]]
    show ?thesis by metis
  qed
  from resend_packets_ok [OF this, where ip = "sa_ip (om_destination m)" and
      prio = "getResendPriority (policyManager s)" and s = s2]
  obtain es where es: "resend_packets (map int ?js) m (sa_ip (om_destination m)) (getResendPriority (policyManager s)) s2 = Inr (emit es s2)"
    "sent_packets es = map (\<lambda>i. the (om_packets m (nat i))) (map int ?js)"
    "sent_priorities es = map (\<lambda>_. getResendPriority (policyManager s)) (map int ?js)" by blast
  have "handleResendPacket tsc p s = Inr (release_packet p (emit es s2))"
    using find_started [OF inv m(1,2)] m p within sent dp es(1)
    unfolding s2_def h_def by (simp add: handleResendPacket_def Let_def split: if_splits)
  moreover have "s_heap (release_packet p (emit es s2)) = (s_heap s)(a \<mapsto> after_resend h m)"
    using m(1) same by (auto simp: s2_def after_resend_def Let_def sender_defs)
  moreover have "s_events (release_packet p (emit es s2)) = s_events s @ (es @ [ReleasePackets [p]])"
    by (simp add: s2_def sender_defs)
  moreover have "sent_packets (es @ [ReleasePackets [p]]) = resent h m"
    using es(2) by (simp add: resent_def comp_def)
  moreover have "set (sent_priorities (es @ [ReleasePackets [p]])) \<subseteq> {MAX_PRIORITY (policyManager s)}"
    using es(3) by (auto simp: getResendPriority_def)
  ultimately show ?thesis by blast
qed

lemma resend_busy:
  fixes p :: packet
  assumes inv: "sender_inv s" and m: "s_heap s a = Some m" "started m" "1 < om_numPackets m"
  defines "h \<equiv> decode_resend (payload p)"
  assumes p: "hmessageId (rh_common h) = om_id m"
    and within: "uint (rh_index h) < om_numPackets m" "uint (rh_index h) + uint (rh_num h) \<le> om_numPackets m"
    and unsent: "packetsSent (om_info m) \<le> uint (rh_index h)"
  shows "\<exists>s'. handleResendPacket tsc p s = Inr s' \<and> s_heap s' = (s_heap s)(a \<mapsto> after_resend h m) \<and>
    s_events s' = s_events s @ PerfAdd tx_busy_pkts 1 #
      ControlPacket_send (s_driver s) (sa_ip (om_destination m)) (encode_common (BusyHeader (om_id m))) @ [ReleasePackets [p]]"
proof -
  let ?s1 = "set_timeouts (getBucket (om_id m)) a (tsc 0) (tsc 1) s"
  have same: "(s_heap s)(a \<mapsto> m) = s_heap s" using m(1) by (simp add: fun_upd_idem)
  have dp: "deref_pointer (qi_packets (om_info m)) ?s1 = Inr m" using deref_packets [OF inv m, of ?s1] by simp
  have info: "qi_id (om_info m) = om_id m" "qi_destination (om_info m) = om_destination m"
    using inv_msg [OF inv m(1)] m(2,3) by (simp_all add: msg_ok_def info_ok_def)
  show ?thesis
    using find_started [OF inv m(1,2)] m p within unsent dp info same
    unfolding h_def by (auto simp: handleResendPacket_def Let_def after_resend_def sender_defs)
qed

section \<open>Messages that are no longer wanted\<close>

text \<open>A cancelled message has no timeouts; a late GRANT for it starts them again.\<close>

lemma late_grant_restarts_timeout:
  assumes inv: "sender_inv s" and m: "s_heap s a = Some m" "om_state m = CANCELED"
    and p: "hmessageId (gh_common (decode_grant (payload p))) = om_id m"
  shows "\<exists>s'. handleGrantPacket tsc p s = Inr s' \<and>
    a \<in> set (tlist (messageTimeouts (messageBuckets s' (getBucket (om_id m))))) \<and>
    (\<exists>s''. expire_message (getBucket (om_id m)) a m s' = Inr s'' \<and> s_heap s'' a = Some (m\<lparr>om_state := FAILED\<rparr>))"
proof -
  have st: "started m" using m(2) by (simp add: started_def)
  let ?s1 = "set_timeouts (getBucket (om_id m)) a (tsc 0) (tsc 1) s"
  have h: "handleGrantPacket tsc p s = Inr (release_packet p ?s1)"
    using find_started [OF inv m(1) st] m p by (simp add: handleGrantPacket_def Let_def)
  moreover have "a \<in> set (tlist (messageTimeouts (messageBuckets (release_packet p ?s1) (getBucket (om_id m)))))"
    by (simp add: sender_defs)
  moreover have "\<exists>s''. expire_message (getBucket (om_id m)) a m (release_packet p ?s1) = Inr s'' \<and>
      s_heap s'' a = Some (m\<lparr>om_state := FAILED\<rparr>)"
    using m by (simp add: expire_message_def sender_defs)
  ultimately show ?thesis by blast
qed

text \<open>A message that the application released while it was in progress is destroyed when its last
  packet was sent. When it times out instead, it stays allocated, although nothing refers to it
  but its bucket.\<close>

lemma released_message_stays:
  assumes inv: "sender_inv s" and m: "s_heap s a = Some m" "om_state m = IN_PROGRESS" "\<not> om_held m"
  defines "i \<equiv> getBucket (om_id m)"
  shows "\<exists>s' m'. expire_message i a m s = Inr s' \<and> sender_inv s' \<and> s_heap s' a = Some m' \<and>
    om_state m' = FAILED \<and> \<not> om_held m' \<and> a \<notin> set (sendQueue s') \<and>
    a \<notin> set (tlist (messageTimeouts (messageBuckets s' i)))"
proof -
  have st: "started m" using m(2) by (simp add: started_def)
  obtain s' where s': "expire_message i a m s = Inr s'" "sender_inv s'"
    "messageTimeouts (messageBuckets s' i) = cancelTimeout a (messageTimeouts (messageBuckets s i))"
    "s_heap s' = (s_heap s)(a \<mapsto> m\<lparr>om_state := FAILED\<rparr>)"
    using expire_message_ok [OF inv m(1) st, of i] m(2) by auto
  have "tm_ok (messageTimeouts (messageBuckets s i))" using inv_bucket [OF inv, of i] by (simp add: bucket_ok_def)
  then have "a \<notin> set (tlist (messageTimeouts (messageBuckets s' i)))"
    using s'(3) set_tlist_cancelTimeout by fastforce
  moreover have "a \<notin> set (sendQueue s')" using inv_queue_iff [OF s'(2), of a] s'(4) by simp
  ultimately show ?thesis using s' m(3) by auto
qed

end
