(* ===== verification/Receiver_Effects.thy ===== *)
theory Receiver_Effects
  imports Sender_Effects
begin

text \<open>
  How the two ends work together on lost packets, and what a receiver does with DATA packets that no
  correct sender sends.
\<close>

section \<open>Requests for the end of a message\<close>

text \<open>A message without scheduled packets is scanned up to the number of packets the sender may send
  unasked, which need not be the number of its packets. The run that holds the last packet then
  reaches beyond the message.\<close>

lemma unscheduled_limit:
  assumes "rmsg_ok d n" "\<not> im_scheduled n"
  shows "resend_limit n = Inr (Some (numUnscheduledPackets n))" "nat (numUnscheduledPackets n) \<le> IM_MAX_MESSAGE_PACKETS"
  using assms by (auto simp: resend_limit_def Let_def rmsg_ok_def)

lemma tail_run:
  assumes m: "rmsg_ok d n" and q: "q \<in> set rs" "maximal_runs n k rs" and last: "e - 1 \<in> set (run_of q)"
    and e: "numExpectedPackets n = int e" "0 < e"
  shows "fst q + snd q = k"
proof -
  have "dom (im_packets n) \<subseteq> {..<e}" using m e(1) by (simp add: rmsg_ok_def)
  moreover have "e \<le> fst q + snd q" using last e(2) by (auto simp: run_of_def)
  ultimately have "im_packets n (fst q + snd q) = None" by auto
  with q show ?thesis unfolding maximal_runs_def by blast
qed

lemma lost_tail:
  assumes n: "rmsg_ok d n" "\<not> im_scheduled n" "numExpectedPackets n < numUnscheduledPackets n"
    and lost: "im_packets n (nat (numExpectedPackets n) - 1) = None"
    and s: "sender_inv s" "s_heap s a = Some m" "started m" "1 < om_numPackets m" "om_numPackets m = numExpectedPackets n"
      "om_id m = im_id n"
  shows "\<exists>rs. resend_scan (map int [0..<nat (numUnscheduledPackets n)]) 0 0 d n = Inr (concat (map (resend_request d n) rs)) \<and>
    (\<exists>q\<in>set rs. nat (numExpectedPackets n) - 1 \<in> set (run_of q)) \<and>
    (\<forall>q\<in>set rs. nat (numExpectedPackets n) - 1 \<in> set (run_of q) \<longrightarrow>
      (\<forall>p tsc prio. decode_resend (payload p) = ResendHeader (im_id n) (of_nat (fst q)) (of_nat (snd q)) prio \<longrightarrow>
         handleResendPacket tsc p s = Inr (release_packet p (set_timeouts (getBucket (om_id m)) a (tsc 0) (tsc 1) s))))"
proof -
  let ?k = "nat (numUnscheduledPackets n)" and ?e = "nat (numExpectedPackets n)"
  have k: "?k \<le> IM_MAX_MESSAGE_PACKETS" using unscheduled_limit(2) [OF n(1,2)] .
  then obtain rs where rs: "resend_scan (map int [0..<?k]) 0 0 d n = Inr (concat (map (resend_request d n) rs))"
    "concat (map run_of rs) = missing n ?k" "maximal_runs n ?k rs"
    by (rule resend_scan_ok)
  have e: "numExpectedPackets n = int ?e" "0 < ?e" "?e < ?k" using s(4,5) n(3) by auto
  have "?e - 1 \<in> set (missing n ?k)" using lost e by (auto simp: missing_def)
  then have "\<exists>q\<in>set rs. ?e - 1 \<in> set (run_of q)" unfolding rs(2) [symmetric] by auto
  moreover have "handleResendPacket tsc p s = Inr (release_packet p (set_timeouts (getBucket (om_id m)) a (tsc 0) (tsc 1) s))"
    if q: "q \<in> set rs" "?e - 1 \<in> set (run_of q)"
      and p: "decode_resend (payload p) = ResendHeader (im_id n) (of_nat (fst q)) (of_nat (snd q)) prio" for q p tsc prio
  proof -
    have stop: "fst q + snd q = ?k" using tail_run [OF n(1) q(1) rs(3) q(2) e(1,2)] .
    have "fst q < 65536" "snd q < 65536" using stop k by (simp_all add: IM_MAX_MESSAGE_PACKETS_def)
    then have "uint (of_nat (fst q) :: u16) = int (fst q)" "uint (of_nat (snd q) :: u16) = int (snd q)"
      by (simp_all add: uint_nat unsigned_of_nat take_bit_nat_eq_self del: uint_nat)
    moreover have "om_numPackets m < int (fst q + snd q)" using stop n(3) s(4,5) by simp
    ultimately have "om_numPackets m < uint (of_nat (fst q) :: u16) + uint (of_nat (snd q) :: u16)" by simp
    then show ?thesis
      using resend_ignored [OF s(1-4), of p tsc] p s(6) by (simp add: ResendHeader_def CommonHeader_def)
  qed
  ultimately show ?thesis using rs(1) by blast
qed

section \<open>Complete messages\<close>

lemma rmsg_complete:
  assumes "rmsg_ok d m" "im_state m \<noteq> RX_IN_PROGRESS"
  shows "dom (im_packets m) = {..<packets_for d (im_len m)}"
proof -
  have dom: "dom (im_packets m) \<subseteq> {..<packets_for d (im_len m)}" "numExpectedPackets m = int (packets_for d (im_len m))"
    and n: "im_numPackets m = int (card (dom (im_packets m)))" "\<not> im_numPackets m < numExpectedPackets m"
    using assms by (simp_all add: rmsg_ok_def im_wf_def)
  have "card (dom (im_packets m)) = packets_for d (im_len m)"
    using n dom(2) card_mono [OF _ dom(1)] by simp
  then show ?thesis using dom(1) by (intro card_subset_eq) simp_all
qed

section \<open>Reading a complete message\<close>

lemma get_rest:
  assumes inv: "receiver_inv r" and m: "r_heap r a = Some m" "im_state m \<noteq> RX_IN_PROGRESS"
    and c: "unat offset < 2 ^ 31 - 2 ^ 26" "unat cnt < 2 ^ 31 - 2 ^ 26"
  shows "message_read (get offset cnt) a r =
    Inr (take (unat cnt) (drop (nat (im_start m) + unat offset) (im_buffer (r_driver r) m)))"
proof -
  note d = rinv_parts(2) [OF inv] and ok = rinv_msg [OF inv m(1)]
  have wf: "im_wf (r_driver r) m" and len: "0 \<le> im_messageLength m" "im_messageLength m \<le> int (IM_MAX_MESSAGE_PACKETS * pdl (r_driver r))"
    using ok by (simp_all add: rmsg_ok_def)
  have all: "im_complete (r_driver r) m"
    using rmsg_complete [OF ok m(2)] by (auto simp: im_complete_def im_len_def)
  have l2: "nat (im_messageLength m) \<le> MAX_MESSAGE_PACKETS * pdl (r_driver r)"
    using len(2) by (simp add: IM_MAX_MESSAGE_PACKETS_def MAX_MESSAGE_PACKETS_def nat_le_iff)
  have a: "downCast_int offset = Inr (int (unat offset))" "downCast_int cnt = Inr (int (unat cnt))"
    using c by (intro downCast_int_small, simp)+
  have "unat offset < 2080374784" "unat cnt < 2080374784" using c by simp_all
  from get_correct [OF d wf all len(1) l2 a this] m(1) show ?thesis by (simp add: message_read_def)
qed

text \<open>Stripping bytes from the front leaves the rest to be read.\<close>

lemma get_after_strip:
  assumes inv: "receiver_inv r" and m: "r_heap r a = Some m" "im_state m \<noteq> RX_IN_PROGRESS"
    and c: "unat n < 2 ^ 31 - 2 ^ 26" "unat offset < 2 ^ 31 - 2 ^ 26" "unat cnt < 2 ^ 31 - 2 ^ 26"
  shows "\<exists>r'. message_strip n a r = Inr r' \<and> receiver_inv r' \<and>
    message_read (get offset cnt) a r' =
      Inr (take (unat cnt) (drop (nat (im_start m) + unat n + unat offset) (im_buffer (r_driver r) m)))"
proof -
  let ?m = "m\<lparr>im_start := min (im_start m + int (unat n)) (im_messageLength m)\<rparr>"
  obtain r' where r': "message_strip n a r = Inr r'" "receiver_inv r'" "r_heap r' = (r_heap r)(a \<mapsto> ?m)" "r_driver r' = r_driver r"
    using message_strip_ok [OF inv m(1) c(1)] by blast
  have st: "0 \<le> im_start m" "0 < im_messageLength m"
    using rinv_msg [OF inv m(1)] by (auto simp: rmsg_ok_def im_wf_def)
  have buf: "im_buffer (r_driver r') ?m = im_buffer (r_driver r) m" "length (im_buffer (r_driver r) m) = nat (im_messageLength m)"
    using r'(4) by (simp_all add: im_buffer_def im_byte_def)
  have "drop (nat (im_start ?m) + unat offset) (im_buffer (r_driver r) m) =
      drop (nat (im_start m) + unat n + unat offset) (im_buffer (r_driver r) m)"
  proof (cases "im_start m + int (unat n) \<le> im_messageLength m")
    case True
    then have "nat (im_start ?m) = nat (im_start m) + unat n" using st(1) by (simp add: nat_add_distrib min_def)
    then show ?thesis by simp
  next
    case False
    then have "nat (im_start ?m) = nat (im_messageLength m)" "nat (im_messageLength m) \<le> nat (im_start m) + unat n"
      using st by (simp_all add: min_def, linarith)
    then show ?thesis using buf(2) by simp
  qed
  then show ?thesis
    using get_rest [OF r'(2), of a ?m offset cnt] r' m(2) c(2,3) buf(1) by simp
qed

section \<open>Packets beyond the message\<close>

text \<open>The index of a DATA packet is not compared with the number of packets. A packet beyond the end
  of a message that waits in the queue counts as new and fails an assertion; an index beyond the
  array throws.\<close>

lemma data_packet_of:
  assumes inv: "receiver_inv r" and m: "r_heap r a = Some m"
    and h: "h = decode_data (payload p)" "hmessageId (dh_common h) = im_id m" "same_message h ip m"
      "unat (totalLength h) < 2 ^ 31"
  shows "handleDataPacket tsc p ip r = store_step tsc p (r_getBucket (im_id m)) a (unat (dh_index h)) m r"
proof -
  have "int_of_u32 (totalLength h) = int (unat (totalLength h))" using int_of_u32_small [OF h(4)] .
  then show ?thesis
    using r_findMessage_present(1) [OF inv m] m h(2,3)
    unfolding handleDataPacket_eq h(1) [symmetric] Let_def by (simp add: same_message_def ip_eq_def)
qed

lemma packet_beyond_message:
  assumes inv: "receiver_inv r" and m: "r_heap r a = Some m" "a \<in> set (receivedMessages r)"
    and h: "h = decode_data (payload p)" "hmessageId (dh_common h) = im_id m" "same_message h ip m"
      "unat (totalLength h) < 2 ^ 31"
    and beyond: "numExpectedPackets m \<le> int (unat (dh_index h))" and data: "int sizeof_DataHeader < plength p"
  shows "handleDataPacket tsc p ip r =
    Inl (if unat (dh_index h) < IM_MAX_MESSAGE_PACKETS then AssertionFailed else OutOfRange)"
proof -
  let ?ix = "unat (dh_index h)" and ?d = "r_driver r"
  note ok = rinv_msg [OF inv m(1)]
  have dom: "dom (im_packets m) \<subseteq> {..<packets_for ?d (im_len m)}" "numExpectedPackets m = int (packets_for ?d (im_len m))"
    and hl: "im_TRANSPORT_HEADER_LENGTH m = int sizeof_DataHeader"
    and len: "0 < im_messageLength m"
    using ok by (simp_all add: rmsg_ok_def im_wf_def)
  have "packets_for ?d (im_len m) \<le> ?ix" using dom(2) beyond by linarith
  then have none: "im_packets m ?ix = None" using dom(1) by force
  have st: "im_state m \<noteq> RX_IN_PROGRESS"
    using rinv_parts(8) [OF inv] m by (auto simp: rqueue_ok_def in_progress_def)
  then have full: "\<not> im_numPackets m < numExpectedPackets m" using ok by (simp add: rmsg_ok_def)
  note all = rmsg_complete [OF ok st]
  have rb: "received_bytes ?d m = im_len m"
    unfolding received_bytes_def all using sum_all_chunks [OF pdl_pos [OF rinv_parts(2) [OF inv]]] .
  have bytes: "bytesRemaining (im_info m) = 0" if "si_peer (im_info m) \<noteq> None"
    using ok that rb len by (simp add: rmsg_ok_def sinfo_ok_def im_len_def)
  show ?thesis
  proof (cases "?ix < IM_MAX_MESSAGE_PACKETS")
    case False
    then have "\<not> int ?ix < int IM_MAX_MESSAGE_PACKETS" by linarith
    then have "im_setPacket (int ?ix) p m = Inl OutOfRange" unfolding im_setPacket_def by (intro require_fails) blast
    with False show ?thesis unfolding data_packet_of [OF inv m(1) h] store_step_def by simp
  next
    case True
    let ?m1 = "m\<lparr>im_packets := (im_packets m)(?ix \<mapsto> p), im_numPackets := im_numPackets m + 1\<rparr>"
    have "0 \<le> int ?ix \<and> int ?ix < int IM_MAX_MESSAGE_PACKETS" using True by linarith
    then have set: "im_setPacket (int ?ix) p m = Inr (True, ?m1)"
      unfolding im_setPacket_def nat_int none by (simp only: require_True option.case simp_thms)
    have "packet_scheduled p a ?m1 (r_upd_message a (\<lambda>_. ?m1) r) = Inl AssertionFailed" if "im_scheduled m \<and> si_peer (im_info m) \<noteq> None"
      using that bytes data hl by (simp add: packet_scheduled_def Let_def)
    moreover have "packet_scheduled p a ?m1 (r_upd_message a (\<lambda>_. ?m1) r) = Inr (r_upd_message a (\<lambda>_. ?m1) r)"
      if "\<not> (im_scheduled m \<and> si_peer (im_info m) \<noteq> None)"
      using that by (auto simp: packet_scheduled_def)
    ultimately show ?thesis
      unfolding data_packet_of [OF inv m(1) h] store_step_def set using True full m
      by (cases "im_scheduled m \<and> si_peer (im_info m) \<noteq> None")
        (simp_all add: complete_message_def Let_def receiver_defs)
  qed
qed

end
