(* ===== verification/QueueEstimator.thy ===== *)
theory QueueEstimator
  imports Driver Complex_Main
begin

text \<open>
  \<open>QueueEstimator\<close> of include/Homa/Drivers/Util/QueueEstimator.h: the estimate of the bytes that wait
  in the output queue of a network card. The estimate is computed in \<open>double\<close>: every operation is
  the exact one followed by the rounding \<open>rnd\<close> of the machine, a parameter of the model. The clock is
  a template parameter of the class: \<open>now\<close> is the time it returns and \<open>seconds\<close> converts a difference
  of two times.
\<close>

record estimator =
  qe_bandwidth :: real
  queuedBytes :: u32
  lastUpdateTime :: int

definition QueueEstimator :: "(real \<Rightarrow> real) \<Rightarrow> int \<Rightarrow> u32 \<Rightarrow> estimator" where
  "QueueEstimator rnd now bw =
     \<lparr>qe_bandwidth = rnd (rnd (real (unat bw) * 10 ^ 6) / 8), queuedBytes = 0, lastUpdateTime = now\<rparr>"

text \<open>The conversion of a \<open>double\<close> to \<open>uint32_t\<close> drops the fraction and is undefined out of range.\<close>

definition refreshQueuedBytesEstimate ::
  "(real \<Rightarrow> real) \<Rightarrow> (int \<Rightarrow> real) \<Rightarrow> int \<Rightarrow> estimator \<Rightarrow> estimator res" where
  "refreshQueuedBytesEstimate rnd seconds now q =
     require AssertionFailed (now \<ge> lastUpdateTime q)
     (let updateInterval = seconds (now - lastUpdateTime q);
          queuedBytesEstimate = rnd (real (unat (queuedBytes q)) - rnd (qe_bandwidth q * updateInterval))
      in if queuedBytesEstimate < 0 then Inr (q\<lparr>queuedBytes := 0, lastUpdateTime := now\<rparr>)
         else require OutOfRange (\<lfloor>queuedBytesEstimate\<rfloor> < 2 ^ 32)
           (Inr (q\<lparr>queuedBytes := word_of_int \<lfloor>queuedBytesEstimate\<rfloor>, lastUpdateTime := now\<rparr>)))"

definition qe_getQueuedBytes ::
  "(real \<Rightarrow> real) \<Rightarrow> (int \<Rightarrow> real) \<Rightarrow> int \<Rightarrow> estimator \<Rightarrow> (u32 \<times> estimator) res" where
  "qe_getQueuedBytes rnd seconds now q =
     bindr (refreshQueuedBytesEstimate rnd seconds now q) (\<lambda>q'. Inr (queuedBytes q', q'))"

definition signalBytesSent ::
  "(real \<Rightarrow> real) \<Rightarrow> (int \<Rightarrow> real) \<Rightarrow> int \<Rightarrow> u32 \<Rightarrow> estimator \<Rightarrow> estimator res" where
  "signalBytesSent rnd seconds now sentBytes q =
     bindr (refreshQueuedBytesEstimate rnd seconds now q) (\<lambda>q'.
       Inr (q'\<lparr>queuedBytes := queuedBytes q' + sentBytes\<rparr>))"

section \<open>What the estimate relies on\<close>

text \<open>Rounding is monotone and does not change integers of at most 53 bits; a later time is a longer
  interval.\<close>

definition rounding_ok :: "(real \<Rightarrow> real) \<Rightarrow> bool" where
  "rounding_ok rnd \<longleftrightarrow> mono rnd \<and> (\<forall>n::nat. n < 2 ^ 53 \<longrightarrow> rnd (real n) = real n)"

definition clock_ok :: "(int \<Rightarrow> real) \<Rightarrow> bool" where
  "clock_ok seconds \<longleftrightarrow> mono seconds \<and> seconds 0 = 0"

definition estimator_ok :: "estimator \<Rightarrow> bool" where
  "estimator_ok q \<longleftrightarrow> 0 \<le> qe_bandwidth q"

lemma rounding_facts:
  assumes "rounding_ok rnd"
  shows "rnd 0 = 0" "0 \<le> x \<Longrightarrow> 0 \<le> rnd x" "rnd (real (unat (w :: u32))) = real (unat w)" "x \<le> y \<Longrightarrow> rnd x \<le> rnd y"
proof -
  have m: "mono rnd" and e: "\<And>n::nat. n < 2 ^ 53 \<Longrightarrow> rnd (real n) = real n" using assms by (simp_all add: rounding_ok_def)
  show z: "rnd 0 = 0" using e [of 0] by simp
  show "0 \<le> x \<Longrightarrow> 0 \<le> rnd x" using monoD [OF m, of 0 x] z by simp
  have "unat w < 2 ^ 53" using unsigned_less [of w, where 'a = nat] by simp
  then show "rnd (real (unat w)) = real (unat w)" by (rule e)
  show "x \<le> y \<Longrightarrow> rnd x \<le> rnd y" using monoD [OF m] .
qed

lemma QueueEstimator_ok: "rounding_ok rnd \<Longrightarrow> estimator_ok (QueueEstimator rnd now bw)"
  by (simp add: estimator_ok_def QueueEstimator_def rounding_facts(2) del: of_nat_unat)

lemma signalBytesSent_ok:
  "\<exists>q'. refreshQueuedBytesEstimate rnd seconds now q = Inr q' \<and> estimator_ok q' \<and> lastUpdateTime q' = now \<Longrightarrow>
   \<exists>q'. signalBytesSent rnd seconds now b q = Inr q' \<and> estimator_ok q' \<and> lastUpdateTime q' = now"
  by (auto simp: signalBytesSent_def estimator_ok_def)

section \<open>The estimate\<close>

lemma truncated_mono: "int m = max 0 x \<Longrightarrow> x \<le> y \<Longrightarrow> int n = max 0 y \<Longrightarrow> m \<le> n"
  by (simp add: max_def split: if_splits)


definition drained :: "(real \<Rightarrow> real) \<Rightarrow> (int \<Rightarrow> real) \<Rightarrow> int \<Rightarrow> estimator \<Rightarrow> real" where
  "drained rnd seconds now q = rnd (qe_bandwidth q * seconds (now - lastUpdateTime q))"

lemma drained_props:
  assumes "rounding_ok rnd" "clock_ok seconds" "estimator_ok q" "lastUpdateTime q \<le> now"
  shows "0 \<le> drained rnd seconds now q" "now \<le> now' \<Longrightarrow> drained rnd seconds now q \<le> drained rnd seconds now' q"
    "now = lastUpdateTime q \<Longrightarrow> drained rnd seconds now q = 0"
proof -
  have s: "mono seconds" "seconds 0 = 0" using assms(2) by (simp_all add: clock_ok_def)
  have b: "0 \<le> qe_bandwidth q" using assms(3) by (simp add: estimator_ok_def)
  have "0 \<le> seconds (now - lastUpdateTime q)" using monoD [OF s(1), of 0 "now - lastUpdateTime q"] s(2) assms(4) by simp
  then show "0 \<le> drained rnd seconds now q" using b by (simp add: drained_def rounding_facts(2) [OF assms(1)])
  show "now \<le> now' \<Longrightarrow> drained rnd seconds now q \<le> drained rnd seconds now' q"
    unfolding drained_def using b monoD [OF s(1)] by (intro rounding_facts(4) [OF assms(1)] mult_left_mono) simp_all
  show "now = lastUpdateTime q \<Longrightarrow> drained rnd seconds now q = 0"
    using s(2) by (simp add: drained_def rounding_facts(1) [OF assms(1)])
qed

lemma refresh_value:
  assumes "rounding_ok rnd" "clock_ok seconds" "estimator_ok q" "lastUpdateTime q \<le> now"
  shows "\<exists>q'. refreshQueuedBytesEstimate rnd seconds now q = Inr q' \<and> estimator_ok q' \<and> lastUpdateTime q' = now \<and>
    qe_bandwidth q' = qe_bandwidth q \<and>
    int (unat (queuedBytes q')) = max 0 \<lfloor>rnd (real (unat (queuedBytes q)) - drained rnd seconds now q)\<rfloor>"
proof -
  let ?e = "rnd (real (unat (queuedBytes q)) - drained rnd seconds now q)"
  have "?e \<le> rnd (real (unat (queuedBytes q)))"
    using drained_props(1) [OF assms] by (intro rounding_facts(4) [OF assms(1)]) simp
  also have "\<dots> = real (unat (queuedBytes q))" by (rule rounding_facts(3) [OF assms(1)])
  finally have "\<lfloor>?e\<rfloor> \<le> int (unat (queuedBytes q))" by (simp add: floor_le_iff)
  moreover have "int (unat (queuedBytes q)) < 2 ^ 32" using uint_lt2p [of "queuedBytes q"] by simp
  ultimately have l: "\<lfloor>?e\<rfloor> < 2 ^ 32" by linarith
  show ?thesis
  proof (cases "?e < 0")
    case True
    then have "max 0 \<lfloor>?e\<rfloor> = 0" by (simp add: max_def floor_less_iff)
    with True assms(3,4) show ?thesis
      by (simp add: refreshQueuedBytesEstimate_def drained_def Let_def estimator_ok_def)
  next
    case False
    then have f: "0 \<le> \<lfloor>?e\<rfloor>" by simp
    then have "int (unat (word_of_int \<lfloor>?e\<rfloor> :: u32)) = \<lfloor>?e\<rfloor>" using l by (simp add: uint_word_of_int)
    with False assms(3,4) l f show ?thesis
      by (simp add: refreshQueuedBytesEstimate_def drained_def Let_def estimator_ok_def)
  qed
qed

text \<open>Without new packets the estimate only falls; it is exact at the time of the last update, and
  zero once the bandwidth covers what was queued.\<close>

lemma estimate_falls:
  assumes r: "rounding_ok rnd" "clock_ok seconds" and q: "estimator_ok q" "lastUpdateTime q \<le> now" "now \<le> now'"
  shows "\<exists>b q1 b' q2. qe_getQueuedBytes rnd seconds now q = Inr (b, q1) \<and> qe_getQueuedBytes rnd seconds now' q = Inr (b', q2) \<and>
    b' \<le> b \<and> b \<le> queuedBytes q \<and> (now = lastUpdateTime q \<longrightarrow> b = queuedBytes q) \<and>
    (real (unat (queuedBytes q)) \<le> drained rnd seconds now q \<longrightarrow> b = 0)"
proof -
  let ?b = "\<lambda>t. rnd (real (unat (queuedBytes q)) - drained rnd seconds t q)"
  have last': "lastUpdateTime q \<le> now'" using q(2,3) by simp
  obtain q1 where q1: "refreshQueuedBytesEstimate rnd seconds now q = Inr q1" "int (unat (queuedBytes q1)) = max 0 \<lfloor>?b now\<rfloor>"
    using refresh_value [OF r q(1,2)] by blast
  obtain q2 where q2: "refreshQueuedBytesEstimate rnd seconds now' q = Inr q2" "int (unat (queuedBytes q2)) = max 0 \<lfloor>?b now'\<rfloor>"
    using refresh_value [OF r q(1) last'] by blast
  have "?b now' \<le> ?b now" using drained_props(2) [OF r q] by (intro rounding_facts(4) [OF r(1)]) simp
  then have "\<lfloor>?b now'\<rfloor> \<le> \<lfloor>?b now\<rfloor>" by (rule floor_mono)
  then have 1: "queuedBytes q2 \<le> queuedBytes q1" unfolding word_le_nat_alt using truncated_mono [OF q2(2) _ q1(2)] by blast
  have "?b now \<le> real (unat (queuedBytes q))"
    using rounding_facts(4) [OF r(1), of "real (unat (queuedBytes q)) - drained rnd seconds now q" "real (unat (queuedBytes q))"]
      drained_props(1) [OF r q(1,2)] rounding_facts(3) [OF r(1)] by simp
  then have "\<lfloor>?b now\<rfloor> \<le> int (unat (queuedBytes q))" by (simp add: floor_le_iff)
  then have 2: "queuedBytes q1 \<le> queuedBytes q"
    unfolding word_le_nat_alt by (rule truncated_mono [OF q1(2)]) (simp add: max_def)
  have 3: "queuedBytes q1 = queuedBytes q" if "now = lastUpdateTime q"
  proof -
    have "?b now = real (unat (queuedBytes q))"
      using drained_props(3) [OF r q(1,2) that] rounding_facts(3) [OF r(1)] by simp
    then have "int (unat (queuedBytes q1)) = max 0 \<lfloor>real (unat (queuedBytes q))\<rfloor>" using q1(2) by metis
    also have "\<dots> = int (unat (queuedBytes q))" unfolding floor_of_nat by simp
    finally show ?thesis by (simp only: of_nat_eq_iff word_unat_eq_iff [symmetric])
  qed
  have 4: "queuedBytes q1 = 0" if "real (unat (queuedBytes q)) \<le> drained rnd seconds now q"
  proof -
    have "?b now \<le> rnd 0" using that by (intro rounding_facts(4) [OF r(1)]) simp
    then have "\<lfloor>?b now\<rfloor> \<le> 0" using rounding_facts(1) [OF r(1)] by (simp add: floor_le_iff)
    then have "int (unat (queuedBytes q1)) = 0" using q1(2) by simp
    then show ?thesis by (simp only: of_nat_eq_0_iff unat_eq_zero)
  qed
  show ?thesis using q1(1) q2(1) 1 2 3 4 by (auto simp: qe_getQueuedBytes_def)
qed

text \<open>The identity is the rounding of an exact machine, and a clock of nanoseconds.\<close>

lemma exact_rounding: "rounding_ok (\<lambda>x. x)"
  by (simp add: rounding_ok_def mono_def)

lemma nanosecond_clock: "clock_ok (\<lambda>t. real_of_int t / 10 ^ 9)"
  by (auto simp: clock_ok_def mono_def intro: divide_right_mono)

end
