(* ===== verification/FakeDriver.thy ===== *)
theory FakeDriver
  imports QueueEstimator
begin

text \<open>
  The driver of include/Homa/Drivers/Fake/FakeDriver.h and src/Drivers/Fake/FakeDriver.cc: a network
  inside one process that copies packets between the queues of its drivers. The network maps
  addresses to network cards; a card has one queue per priority. The random number that decides
  about the loss of a packet is an argument of the call. What a driver of the core is to the other
  theories (\<open>driver\<close> of Driver) is \<open>fake_driver\<close>.
\<close>

definition NUM_PRIORITIES :: nat where "NUM_PRIORITIES = 8"
definition MAX_PAYLOAD_SIZE :: nat where "MAX_PAYLOAD_SIZE = 1500"

text \<open>The buffer of a packet is its payload.\<close>

record fakePacket =
  base :: packet
  sourceIp :: ipAddress

record fakeNIC =
  priorityQueue :: "fakePacket list list"

record fakeNetwork =
  network :: "ipAddress \<rightharpoonup> addr"
  nextAddressId :: u32
  packetLossRate :: real
  nics :: "addr \<Rightarrow> fakeNIC"

record fakeDriver =
  localAddressId :: u32
  fd_nic :: addr
  queueEstimator :: estimator

definition FakePacket :: fakePacket where
  "FakePacket =
     \<lparr>base = \<lparr>payload = replicate MAX_PAYLOAD_SIZE 0, plength = 0\<rparr>, sourceIp = \<lparr>ip_addr = 0\<rparr>\<rparr>"

definition FakePacket_copy :: "fakePacket \<Rightarrow> fakePacket res" where
  "FakePacket_copy other =
     require OutOfRange (MAX_PAYLOAD_SIZE \<le> length (payload (base other)))
       (Inr \<lparr>base = \<lparr>payload = memcpy (replicate MAX_PAYLOAD_SIZE 0) 0 (take MAX_PAYLOAD_SIZE (payload (base other))),
                     plength = plength (base other)\<rparr>, sourceIp = \<lparr>ip_addr = 0\<rparr>\<rparr>)"

section \<open>The network\<close>

definition FakeNetwork :: fakeNetwork where
  "FakeNetwork =
     \<lparr>network = Map.empty, nextAddressId = 1, packetLossRate = 0, nics = (\<lambda>_. \<lparr>priorityQueue = []\<rparr>)\<rparr>"

definition FakeNIC :: fakeNIC where
  "FakeNIC = \<lparr>priorityQueue = replicate NUM_PRIORITIES []\<rparr>"

text \<open>\<open>insert\<close> of a map leaves an entry that exists as it is.\<close>

definition registerNIC :: "addr \<Rightarrow> fakeNetwork \<Rightarrow> u32 \<times> fakeNetwork" where
  "registerNIC nic n =
     (let addressId = nextAddressId n; ip = \<lparr>ip_addr = addressId\<rparr>
      in (addressId, n\<lparr>nextAddressId := addressId + 1,
            network := (case network n ip of None \<Rightarrow> (network n)(ip \<mapsto> nic) | Some _ \<Rightarrow> network n)\<rparr>))"

definition deregisterNIC :: "u32 \<Rightarrow> fakeNetwork \<Rightarrow> fakeNetwork" where
  "deregisterNIC addressId n = n\<lparr>network := (network n)(\<lparr>ip_addr = addressId\<rparr> := None)\<rparr>"

definition net_sendPacket ::
  "real \<Rightarrow> fakePacket \<Rightarrow> int \<Rightarrow> ipAddress \<Rightarrow> ipAddress \<Rightarrow> fakeNetwork \<Rightarrow> fakeNetwork res" where
  "net_sendPacket draw packet prio src dst n =
     (if draw < packetLossRate n then Inr n
      else case network n dst of
        None \<Rightarrow> Inr n
      | Some nic \<Rightarrow>
          bindr (FakePacket_copy packet) (\<lambda>copy.
          let dstPacket = copy\<lparr>sourceIp := src\<rparr>; queues = priorityQueue (nics n nic)
          in require AssertionFailed (prio < int NUM_PRIORITIES)
             (require AssertionFailed (prio \<ge> 0)
             (require OutOfRange (nat prio < length queues)
               (Inr (n\<lparr>nics := (nics n)(nic := \<lparr>priorityQueue =
                  queues[nat prio := queues ! nat prio @ [dstPacket]]\<rparr>)\<rparr>))))))"

definition setPacketLossRate :: "real \<Rightarrow> fakeNetwork \<Rightarrow> fakeNetwork" where
  "setPacketLossRate lossRate n =
     n\<lparr>packetLossRate := if lossRate > 1 then 1 else if lossRate < 0 then 0 else lossRate\<rparr>"

section \<open>The driver\<close>

definition fd_getBandwidth :: u32 where "fd_getBandwidth = 10000"

text \<open>\<open>nic\<close> is the address of the card that is constructed inside the driver.\<close>

definition FakeDriver ::
  "(real \<Rightarrow> real) \<Rightarrow> int \<Rightarrow> addr \<Rightarrow> fakeNetwork \<Rightarrow> fakeDriver \<times> fakeNetwork" where
  "FakeDriver rnd now nic n =
     (let (addressId, n') = registerNIC nic (n\<lparr>nics := (nics n)(nic := FakeNIC)\<rparr>)
      in (\<lparr>localAddressId = addressId, fd_nic = nic, queueEstimator = QueueEstimator rnd now fd_getBandwidth\<rparr>, n'))"

text \<open>Destruction: the driver leaves the network, then its card deletes the packets that still wait, from
  the front of every queue. The deleted packets are part of the result.\<close>

fun delete_queue :: "fakePacket list \<Rightarrow> fakePacket list \<times> fakePacket list" where
  "delete_queue [] = ([], [])"
| "delete_queue (p # ps) = (let (deleted, rest) = delete_queue ps in (p # deleted, rest))"

fun delete_queues :: "fakePacket list list \<Rightarrow> fakePacket list \<times> fakePacket list list" where
  "delete_queues [] = ([], [])"
| "delete_queues (q # qs) =
     (let (d1, q') = delete_queue q; (d2, qs') = delete_queues qs in (d1 @ d2, q' # qs'))"

definition FakeNIC_destruct :: "fakeNIC \<Rightarrow> fakePacket list \<times> fakeNIC" where
  "FakeNIC_destruct nic =
     (let (deleted, qs) = delete_queues (priorityQueue nic) in (deleted, \<lparr>priorityQueue = qs\<rparr>))"

definition FakeDriver_destruct :: "fakeDriver \<Rightarrow> fakeNetwork \<Rightarrow> fakePacket list \<times> fakeNetwork" where
  "FakeDriver_destruct d n =
     (let n' = deregisterNIC (localAddressId d) n;
          (deleted, nic) = FakeNIC_destruct (nics n' (fd_nic d))
      in (deleted, n'\<lparr>nics := (nics n')(fd_nic d := nic)\<rparr>))"

definition fd_getLocalAddress :: "fakeDriver \<Rightarrow> ipAddress" where
  "fd_getLocalAddress d = \<lparr>ip_addr = localAddressId d\<rparr>"

definition fd_allocPacket :: packet where
  "fd_allocPacket = base FakePacket"

text \<open>The clock is read once, by the estimator.\<close>

definition fd_sendPacket ::
  "(real \<Rightarrow> real) \<Rightarrow> (int \<Rightarrow> real) \<Rightarrow> int \<Rightarrow> real \<Rightarrow> packet \<Rightarrow> ipAddress \<Rightarrow> int \<Rightarrow> fakeDriver \<Rightarrow> fakeNetwork \<Rightarrow>
     (fakeDriver \<times> fakeNetwork) res" where
  "fd_sendPacket rnd seconds now draw packet destination prio d n =
     (let srcPacket = \<lparr>base = packet, sourceIp = \<lparr>ip_addr = 0\<rparr>\<rparr>
      in bindr (net_sendPacket draw srcPacket prio (fd_getLocalAddress d) destination n) (\<lambda>n'.
         bindr (signalBytesSent rnd seconds now (word_of_int (plength packet)) (queueEstimator d)) (\<lambda>q.
         Inr (d\<lparr>queueEstimator := q\<rparr>, n'))))"

text \<open>The inner loop takes packets from the front of one queue while there is room for them.\<close>

fun take_packets :: "nat \<Rightarrow> fakePacket list \<Rightarrow> fakePacket list \<times> fakePacket list" where
  "take_packets room [] = ([], [])"
| "take_packets room (p # ps) =
     (if 0 < room then let (taken, rest) = take_packets (room - 1) ps in (p # taken, rest) else ([], p # ps))"

text \<open>The outer loop visits the queues from the highest priority down; \<open>qs\<close> are the queues of the
  priorities still to visit, the highest one last.\<close>

fun receive_loop :: "nat \<Rightarrow> fakePacket list list \<Rightarrow> fakePacket list \<times> fakePacket list list" where
  "receive_loop room [] = ([], [])"
| "receive_loop room (q # qs) =
     (let (received, qs') = receive_loop room qs;
          (taken, rest) = take_packets (room - length received) q
      in (received @ taken, rest # qs'))"

definition fd_receivePackets :: "nat \<Rightarrow> fakeDriver \<Rightarrow> fakeNetwork \<Rightarrow> (packet \<times> ipAddress) list \<times> fakeNetwork" where
  "fd_receivePackets maxPackets d n =
     (let (received, qs) = receive_loop maxPackets (priorityQueue (nics n (fd_nic d)))
      in (map (\<lambda>p. (base p, sourceIp p)) received, n\<lparr>nics := (nics n)(fd_nic d := \<lparr>priorityQueue = qs\<rparr>)\<rparr>))"

definition fd_getHighestPacketPriority :: int where
  "fd_getHighestPacketPriority = int NUM_PRIORITIES - 1"

definition fd_getMaxPayloadSize :: u32 where
  "fd_getMaxPayloadSize = of_nat MAX_PAYLOAD_SIZE"

definition fd_getQueuedBytes ::
  "(real \<Rightarrow> real) \<Rightarrow> (int \<Rightarrow> real) \<Rightarrow> int \<Rightarrow> fakeDriver \<Rightarrow> (u32 \<times> fakeDriver) res" where
  "fd_getQueuedBytes rnd seconds now d =
     bindr (qe_getQueuedBytes rnd seconds now (queueEstimator d)) (\<lambda>(b, q). Inr (b, d\<lparr>queueEstimator := q\<rparr>))"

definition fake_driver :: "fakeDriver \<Rightarrow> driver" where
  "fake_driver d =
     \<lparr>maxPayloadSize = fd_getMaxPayloadSize, localAddress = fd_getLocalAddress d,
      highestPacketPriority = fd_getHighestPacketPriority, bandwidth = fd_getBandwidth,
      fresh = (\<lambda>_. payload fd_allocPacket)\<rparr>"

text \<open>It meets what the core relies on.\<close>

lemma fake_driver_ok: "driver_ok (fake_driver d)"
  by (simp add: driver_ok_def fake_driver_def fd_getMaxPayloadSize_def MAX_PAYLOAD_SIZE_def sizeof_DataHeader_def
      fd_getHighestPacketPriority_def NUM_PRIORITIES_def fd_allocPacket_def FakePacket_def)

section \<open>Order of delivery\<close>

text \<open>The packets that wait at a card, in the order in which they are received.\<close>

definition waiting :: "fakePacket list list \<Rightarrow> fakePacket list" where
  "waiting qs = concat (rev qs)"

lemma delete_queue_all: "delete_queue q = (q, [])"
  by (induction q) simp_all

lemma delete_queues_all: "delete_queues qs = (concat qs, map (\<lambda>_. []) qs)"
  by (induction qs) (simp_all add: delete_queue_all)

text \<open>A destroyed driver deletes every packet that waits at it once, and gets no more.\<close>

lemma destruct_deletes:
  assumes "FakeDriver_destruct d n = (deleted, n')"
  shows "deleted = concat (priorityQueue (nics n (fd_nic d)))" "waiting (priorityQueue (nics n' (fd_nic d))) = []"
    "network n' (fd_getLocalAddress d) = None"
    "net_sendPacket draw p prio src (fd_getLocalAddress d) n' = Inr n'"
  using assms
  by (auto simp: FakeDriver_destruct_def FakeNIC_destruct_def deregisterNIC_def delete_queues_all waiting_def
      fd_getLocalAddress_def net_sendPacket_def Let_def)

lemma take_packets_eq: "take_packets room q = (take room q, drop room q)"
  by (induction room q rule: take_packets.induct) (auto simp: take_Cons' drop_Cons')

lemma receive_loop_eq:
  "receive_loop room qs = (received, rest) \<Longrightarrow>
     received = take room (waiting qs) \<and> waiting rest = drop room (waiting qs) \<and> length rest = length qs"
proof (induction qs arbitrary: received rest)
  case (Cons q qs)
  obtain r0 qs0 where l: "receive_loop room qs = (r0, qs0)" by fastforce
  with Cons.IH have 0: "r0 = take room (waiting qs)" "waiting qs0 = drop room (waiting qs)" "length qs0 = length qs" by blast+
  have e: "room - length r0 = room - length (waiting qs)" unfolding 0(1) by simp
  have "received = r0 @ take (room - length r0) q" "rest = drop (room - length r0) q # qs0"
    using Cons.prems l by (simp_all add: take_packets_eq)
  then show ?case unfolding e using 0 by (simp add: waiting_def)
qed (simp add: waiting_def)

lemma receive_in_order:
  assumes "fd_receivePackets k d n = (ps, n')"
  shows "ps = map (\<lambda>p. (base p, sourceIp p)) (take k (waiting (priorityQueue (nics n (fd_nic d)))))"
    "waiting (priorityQueue (nics n' (fd_nic d))) = drop k (waiting (priorityQueue (nics n (fd_nic d))))"
    "length (priorityQueue (nics n' (fd_nic d))) = length (priorityQueue (nics n (fd_nic d)))"
    "network n' = network n" "a \<noteq> fd_nic d \<Longrightarrow> nics n' a = nics n a"
proof -
  obtain r qs where l: "receive_loop k (priorityQueue (nics n (fd_nic d))) = (r, qs)" by fastforce
  from receive_loop_eq [OF this] have
    e: "r = take k (waiting (priorityQueue (nics n (fd_nic d))))" "waiting qs = drop k (waiting (priorityQueue (nics n (fd_nic d))))"
      "length qs = length (priorityQueue (nics n (fd_nic d)))" by blast+
  have "ps = map (\<lambda>p. (base p, sourceIp p)) r" "n' = n\<lparr>nics := (nics n)(fd_nic d := \<lparr>priorityQueue = qs\<rparr>)\<rparr>"
    using assms l by (simp_all add: fd_receivePackets_def)
  then show "ps = map (\<lambda>p. (base p, sourceIp p)) (take k (waiting (priorityQueue (nics n (fd_nic d)))))"
    "waiting (priorityQueue (nics n' (fd_nic d))) = drop k (waiting (priorityQueue (nics n (fd_nic d))))"
    "length (priorityQueue (nics n' (fd_nic d))) = length (priorityQueue (nics n (fd_nic d)))"
    "network n' = network n" "a \<noteq> fd_nic d \<Longrightarrow> nics n' a = nics n a"
    using e by simp_all
qed

section \<open>Packets on their way\<close>

text \<open>A full buffer is copied as it is.\<close>

lemma FakePacket_copy_full:
  "length (payload (base p)) = MAX_PAYLOAD_SIZE \<Longrightarrow>
   FakePacket_copy p = Inr (p\<lparr>sourceIp := \<lparr>ip_addr = 0\<rparr>\<rparr>)"
  by (simp add: FakePacket_copy_def memcpy_def)

lemma fd_sendPacket_ok:
  assumes n: "network n dst = Some nic" "length (priorityQueue (nics n nic)) = NUM_PRIORITIES" "\<not> draw < packetLossRate n"
    and p: "length (payload p) = MAX_PAYLOAD_SIZE" "0 \<le> prio" "prio < int NUM_PRIORITIES"
    and e: "rounding_ok rnd" "clock_ok seconds" "estimator_ok (queueEstimator d)" "lastUpdateTime (queueEstimator d) \<le> now"
  shows "\<exists>q. fd_sendPacket rnd seconds now draw p dst prio d n =
      Inr (d\<lparr>queueEstimator := q\<rparr>, n\<lparr>nics := (nics n)(nic := \<lparr>priorityQueue = (priorityQueue (nics n nic))
        [nat prio := priorityQueue (nics n nic) ! nat prio @ [\<lparr>base = p, sourceIp = fd_getLocalAddress d\<rparr>]]\<rparr>)\<rparr>) \<and>
    estimator_ok q \<and> lastUpdateTime q = now"
proof -
  obtain q where q: "signalBytesSent rnd seconds now (word_of_int (plength p)) (queueEstimator d) = Inr q" "estimator_ok q" "lastUpdateTime q = now"
    using signalBytesSent_ok refresh_value [OF e] by metis
  have "FakePacket_copy \<lparr>base = p, sourceIp = \<lparr>ip_addr = 0\<rparr>\<rparr> = Inr \<lparr>base = p, sourceIp = \<lparr>ip_addr = 0\<rparr>\<rparr>"
    using FakePacket_copy_full [of "\<lparr>base = p, sourceIp = \<lparr>ip_addr = 0\<rparr>\<rparr>"] p(1) by simp
  moreover have "nat prio < NUM_PRIORITIES" using p(2,3) by linarith
  ultimately show ?thesis using n p(2,3) q by (intro exI [of _ q]) (simp add: fd_sendPacket_def net_sendPacket_def Let_def)
qed

text \<open>A sequence of packets to one destination: the time, the random number, the packet and its
  priority of each call.\<close>

type_synonym sending = "int \<times> real \<times> packet \<times> int"

fun fd_send_list ::
  "(real \<Rightarrow> real) \<Rightarrow> (int \<Rightarrow> real) \<Rightarrow> ipAddress \<Rightarrow> sending list \<Rightarrow> fakeDriver \<Rightarrow> fakeNetwork \<Rightarrow> (fakeDriver \<times> fakeNetwork) res" where
  "fd_send_list rnd seconds dst [] d n = Inr (d, n)"
| "fd_send_list rnd seconds dst ((now, draw, p, prio) # xs) d n =
     bindr (fd_sendPacket rnd seconds now draw p dst prio d n) (\<lambda>(d', n'). fd_send_list rnd seconds dst xs d' n')"

definition sending_ok :: "sending \<Rightarrow> bool" where
  "sending_ok x \<longleftrightarrow>
     (case x of (now, draw, p, prio) \<Rightarrow> 0 \<le> draw \<and> length (payload p) = MAX_PAYLOAD_SIZE \<and> 0 \<le> prio \<and> prio < int NUM_PRIORITIES)"

text \<open>The packets of one priority.\<close>

definition of_priority :: "sending list \<Rightarrow> nat \<Rightarrow> packet list" where
  "of_priority xs i = map (\<lambda>(_, _, p, _). p) (filter (\<lambda>(_, _, _, prio). prio = int i) xs)"

lemma fd_send_list_ok:
  assumes "rounding_ok rnd" "clock_ok seconds"
  shows "\<lbrakk>\<forall>x\<in>set xs. sending_ok x; sorted_wrt (\<le>) (lastUpdateTime (queueEstimator d) # map fst xs);
      estimator_ok (queueEstimator d); network n dst = Some nic; length (priorityQueue (nics n nic)) = NUM_PRIORITIES;
      packetLossRate n = 0\<rbrakk> \<Longrightarrow>
    \<exists>d' n'. fd_send_list rnd seconds dst xs d n = Inr (d', n') \<and> network n' = network n \<and> packetLossRate n' = 0 \<and>
      length (priorityQueue (nics n' nic)) = NUM_PRIORITIES \<and>
      (\<forall>i < NUM_PRIORITIES. priorityQueue (nics n' nic) ! i =
         priorityQueue (nics n nic) ! i @ map (\<lambda>p. \<lparr>base = p, sourceIp = fd_getLocalAddress d\<rparr>) (of_priority xs i))"
proof (induction xs arbitrary: d n)
  case Nil
  then show ?case by (simp add: of_priority_def)
next
  case (Cons x xs)
  obtain now draw p prio where x: "x = (now, draw, p, prio)" by (cases x)
  let ?qs = "priorityQueue (nics n nic)" and ?p = "\<lparr>base = p, sourceIp = fd_getLocalAddress d\<rparr>"
  have ok: "\<not> draw < packetLossRate n" "length (payload p) = MAX_PAYLOAD_SIZE" "0 \<le> prio" "prio < int NUM_PRIORITIES"
    using Cons.prems(1,6) x by (auto simp: sending_ok_def)
  have t: "lastUpdateTime (queueEstimator d) \<le> now" using Cons.prems(2) x by simp
  define n1 where "n1 = n\<lparr>nics := (nics n)(nic := \<lparr>priorityQueue = ?qs[nat prio := ?qs ! nat prio @ [?p]]\<rparr>)\<rparr>"
  obtain q where q: "fd_sendPacket rnd seconds now draw p dst prio d n = Inr (d\<lparr>queueEstimator := q\<rparr>, n1)"
    "estimator_ok q" "lastUpdateTime q = now"
    using fd_sendPacket_ok [OF Cons.prems(4,5) ok assms Cons.prems(3) t] unfolding n1_def by blast
  have n1: "network n1 = network n" "packetLossRate n1 = 0" "priorityQueue (nics n1 nic) = ?qs[nat prio := ?qs ! nat prio @ [?p]]"
    using Cons.prems(6) by (simp_all add: n1_def)
  have "\<exists>d' n'. fd_send_list rnd seconds dst xs (d\<lparr>queueEstimator := q\<rparr>) n1 = Inr (d', n') \<and> network n' = network n1 \<and>
      packetLossRate n' = 0 \<and> length (priorityQueue (nics n' nic)) = NUM_PRIORITIES \<and>
      (\<forall>i < NUM_PRIORITIES. priorityQueue (nics n' nic) ! i =
         priorityQueue (nics n1 nic) ! i @
         map (\<lambda>p. \<lparr>base = p, sourceIp = fd_getLocalAddress (d\<lparr>queueEstimator := q\<rparr>)\<rparr>) (of_priority xs i))"
    by (rule Cons.IH) (use Cons.prems n1 q(2,3) x in simp_all)
  moreover have "priorityQueue (nics n1 nic) ! i = ?qs ! i @ (if prio = int i then [?p] else [])" if "i < NUM_PRIORITIES" for i
    using that ok(3) Cons.prems(5) unfolding n1(3) by (auto simp: nth_list_update)
  ultimately show ?case
    using q(1) n1(1) x by (auto simp: of_priority_def fd_getLocalAddress_def)
qed

end
