(* ===== verification/Addresses.thy ===== *)
theory Addresses
  imports Driver
begin

text \<open>
  The text form of addresses: \<open>IpAddress::toString\<close> and \<open>IpAddress::fromString\<close> of src/Driver.cc and
  \<open>MacAddress\<close> of src/Drivers/DPDK/MacAddress.h and src/Drivers/DPDK/MacAddress.cc. A C string is the list of
  its characters before the terminating null. The conversions of \<open>printf\<close> and \<open>scanf\<close> that the code
  uses are written out; both directions are shown to be inverse.
\<close>

section \<open>Characters and numbers\<close>

definition code :: "char \<Rightarrow> nat" where
  "code c = of_char c"

definition is_space :: "char \<Rightarrow> bool" where
  "is_space c \<longleftrightarrow> code c = 32 \<or> 9 \<le> code c \<and> code c \<le> 13"

text \<open>The value of a digit in a base of at most sixteen.\<close>

definition digit_value :: "nat \<Rightarrow> char \<Rightarrow> nat option" where
  "digit_value radix c =
     (let v = (if 48 \<le> code c \<and> code c \<le> 57 then Some (code c - 48)
               else if 97 \<le> code c \<and> code c \<le> 102 then Some (code c - 87)
               else if 65 \<le> code c \<and> code c \<le> 70 then Some (code c - 55) else None)
      in case v of None \<Rightarrow> None | Some n \<Rightarrow> if n < radix then Some n else None)"

definition digit :: "nat \<Rightarrow> char" where
  "digit n = char_of (if n < 10 then 48 + n else 87 + n)"

lemma code_digit: "n < 16 \<Longrightarrow> code (digit n) = (if n < 10 then 48 + n else 87 + n)"
  by (simp add: code_def digit_def)

lemma digit_value_digit [simp]: "n < radix \<Longrightarrow> radix \<le> 16 \<Longrightarrow> digit_value radix (digit n) = Some n"
  by (simp add: digit_value_def code_digit)

lemma digit_not_space [simp]: "n < 16 \<Longrightarrow> \<not> is_space (digit n)"
  by (simp add: is_space_def code_digit)

text \<open>The digits at the front of a string and the number they stand for, starting from \<open>acc\<close>.\<close>

fun scan_digits :: "nat \<Rightarrow> nat \<Rightarrow> string \<Rightarrow> nat \<times> string" where
  "scan_digits radix acc [] = (acc, [])"
| "scan_digits radix acc (c # cs) =
     (case digit_value radix c of None \<Rightarrow> (acc, c # cs) | Some n \<Rightarrow> scan_digits radix (acc * radix + n) cs)"

text \<open>\<open>%d\<close> of a number that is not negative.\<close>

fun decimal :: "nat \<Rightarrow> string" where
  "decimal n = (if n < 10 then [digit n] else decimal (n div 10) @ [digit (n mod 10)])"

declare decimal.simps [simp del]

definition starts_digit :: "nat \<Rightarrow> string \<Rightarrow> bool" where
  "starts_digit radix s = (case s of [] \<Rightarrow> False | c # _ \<Rightarrow> digit_value radix c \<noteq> None)"

lemma decimal_not_Nil [simp]: "decimal n \<noteq> []"
  by (subst decimal.simps) simp

lemma hd_decimal: "\<exists>k < 10. hd (decimal n) = digit k"
proof (induction n rule: decimal.induct)
  case (1 n)
  show ?case
  proof (cases "n < 10")
    case True
    then show ?thesis by (subst decimal.simps) auto
  next
    case False
    then obtain k where "k < 10" "hd (decimal (n div 10)) = digit k" using 1 by blast
    with False show ?thesis by (subst decimal.simps) (auto simp: hd_append)
  qed
qed

lemma scan_decimal: "\<not> starts_digit 10 rest \<Longrightarrow> scan_digits 10 0 (decimal n @ rest) = (n, rest)"
proof -
  assume stop: "\<not> starts_digit 10 rest"
  have end_scan: "scan_digits 10 acc rest = (acc, rest)" for acc
    using stop by (cases rest) (auto simp: starts_digit_def split: option.splits)
  have "scan_digits 10 0 (decimal n @ ds) = scan_digits 10 n ds" for ds
  proof (induction n arbitrary: ds rule: decimal.induct)
    case (1 n)
    show ?case
    proof (cases "n < 10")
      case False
      have "scan_digits 10 0 (decimal n @ ds) = scan_digits 10 0 (decimal (n div 10) @ digit (n mod 10) # ds)"
        using False by (subst decimal.simps) simp
      also have "\<dots> = scan_digits 10 (n div 10) (digit (n mod 10) # ds)" using 1 False by blast
      finally show ?thesis by simp
    qed (subst decimal.simps, simp)
  qed
  with end_scan show ?thesis by simp
qed

section \<open>Scanning\<close>

text \<open>\<open>%u\<close>: white space, a sign, digits. A number that does not fit is undefined; without digits there
  is no match.\<close>

definition scan_u :: "string \<Rightarrow> (u32 \<times> string) option res" where
  "scan_u s =
     (let s1 = dropWhile is_space s;
          neg = (s1 \<noteq> [] \<and> hd s1 = CHR ''-'');
          s2 = (if s1 \<noteq> [] \<and> (hd s1 = CHR ''-'' \<or> hd s1 = CHR ''+'') then tl s1 else s1);
          (n, rest) = scan_digits 10 0 s2
      in if \<not> starts_digit 10 s2 then Inr None
         else require Undefined (int n < 2 ^ 32)
           (Inr (Some (if neg then - of_nat n else of_nat n, rest))))"

text \<open>\<open>%02x\<close>: white space, then at most two characters, a sign and a digit or one or two digits. The
  prefix \<open>0x\<close> fills the two characters and leaves no digit, which is no match.\<close>

definition scan_x2 :: "string \<Rightarrow> (u32 \<times> string) option" where
  "scan_x2 s =
     (let s1 = dropWhile is_space s
      in case s1 of
           [] \<Rightarrow> None
         | c # cs \<Rightarrow>
             if c = CHR ''-'' \<or> c = CHR ''+'' then
               case cs of
                 [] \<Rightarrow> None
               | c' # cs' \<Rightarrow> (case digit_value 16 c' of
                     None \<Rightarrow> None
                   | Some n \<Rightarrow> Some (if c = CHR ''-'' then - of_nat n else of_nat n, cs'))
             else if c = CHR ''0'' \<and> cs \<noteq> [] \<and> (hd cs = CHR ''x'' \<or> hd cs = CHR ''X'') then None
             else case digit_value 16 c of
                 None \<Rightarrow> None
               | Some n \<Rightarrow>
                   (case cs of
                      [] \<Rightarrow> Some (of_nat n, [])
                    | c' # cs' \<Rightarrow> (case digit_value 16 c' of
                          None \<Rightarrow> Some (of_nat n, cs)
                        | Some n' \<Rightarrow> Some (of_nat (16 * n + n'), cs'))))"

text \<open>\<open>sscanf\<close> with \<open>k\<close> conversions and the character \<open>sep\<close> between them: the values of the
  conversions that were made before the first mismatch.\<close>

fun scan_list :: "(string \<Rightarrow> (u32 \<times> string) option res) \<Rightarrow> char \<Rightarrow> nat \<Rightarrow> string \<Rightarrow> u32 list res" where
  "scan_list conv sep 0 s = Inr []"
| "scan_list conv sep (Suc k) s =
     bindr (conv s) (\<lambda>m.
     case m of
       None \<Rightarrow> Inr []
     | Some (v, rest) \<Rightarrow>
         if k = 0 then Inr [v]
         else case rest of
           [] \<Rightarrow> Inr [v]
         | c # cs \<Rightarrow> if c = sep then bindr (scan_list conv sep k cs) (\<lambda>vs. Inr (v # vs)) else Inr [v])"

section \<open>IP addresses\<close>

definition ip_byte :: "nat \<Rightarrow> u32 \<Rightarrow> u32" where
  "ip_byte k ip = drop_bit k ip AND 255"

definition ip_toString :: "ipAddress \<Rightarrow> string" where
  "ip_toString address =
     (let ip = ip_addr address
      in decimal (unat (ip_byte 24 ip)) @ ''.'' @ decimal (unat (ip_byte 16 ip)) @ ''.'' @
         decimal (unat (ip_byte 8 ip)) @ ''.'' @ decimal (unat (ip_byte 0 ip)))"

text \<open>A variable that \<open>sscanf\<close> did not set has no value.\<close>

definition ip_fromString :: "string \<Rightarrow> ipAddress res" where
  "ip_fromString addressStr =
     bindr (scan_list scan_u (CHR ''.'') 4 addressStr) (\<lambda>b.
     require Undefined (length b = 4)
       (Inr \<lparr>ip_addr = push_bit 24 (b ! 0) OR push_bit 16 (b ! 1) OR push_bit 8 (b ! 2) OR b ! 3\<rparr>))"

lemma scan_u_decimal:
  assumes "n < 2 ^ 32" "\<not> starts_digit 10 rest"
  shows "scan_u (decimal n @ rest) = Inr (Some (of_nat n, rest))"
proof -
  obtain k where k: "k < 10" "hd (decimal n) = digit k" using hd_decimal by blast
  then obtain cs where d: "decimal n @ rest = digit k # cs" by (cases "decimal n") auto
  have c: "code (digit k) \<noteq> 45" "code (digit k) \<noteq> 43" "\<not> is_space (digit k)" using k(1) by (simp_all add: code_digit)
  then have s: "digit k \<noteq> CHR ''-''" "digit k \<noteq> CHR ''+''" by (auto simp: code_def)
  have "int n < 2 ^ 32" using assms(1) by simp
  moreover have "starts_digit 10 (decimal n @ rest)" using k(1) d by (simp add: starts_digit_def)
  ultimately show ?thesis
    using scan_decimal [OF assms(2), of n] c(3) s unfolding scan_u_def d by (simp add: Let_def)
qed

lemma dot_stops: "\<not> starts_digit 10 (CHR ''.'' # s)" "\<not> starts_digit 10 []"
  by (simp_all add: starts_digit_def digit_value_def code_def)

lemma ip_byte_small: "unat (ip_byte k ip) < 2 ^ 32" "of_nat (unat (ip_byte k ip)) = ip_byte k ip"
  using unsigned_less [of "ip_byte k ip", where 'a = nat] by simp_all

lemma ip_bytes: "push_bit 24 (ip_byte 24 w) OR push_bit 16 (ip_byte 16 w) OR push_bit 8 (ip_byte 8 w) OR ip_byte 0 w = w"
proof (rule bit_word_eqI)
  fix n assume "n < LENGTH(32)"
  have mask: "(255 :: u32) = mask 8" by (simp add: mask_eq_exp_minus_1)
  consider "n < 8" | "8 \<le> n" "n < 16" | "16 \<le> n" "n < 24" | "24 \<le> n" by linarith
  then show "bit (push_bit 24 (ip_byte 24 w) OR push_bit 16 (ip_byte 16 w) OR push_bit 8 (ip_byte 8 w) OR ip_byte 0 w) n = bit w n"
    unfolding ip_byte_def mask by cases (use \<open>n < LENGTH(32)\<close> in \<open>auto simp: bit_simps\<close>)
qed

lemma ip_round_trip: "ip_fromString (ip_toString a) = Inr a"
proof -
  let ?b = "\<lambda>k. ip_byte k (ip_addr a)"
  have last: "scan_u (decimal (unat (?b 0))) = Inr (Some (?b 0, []))"
    using scan_u_decimal [OF ip_byte_small(1) dot_stops(2)] ip_byte_small(2) by simp
  have step: "scan_u (decimal (unat (?b k)) @ CHR ''.'' # s) = Inr (Some (?b k, CHR ''.'' # s))" for k s
    using scan_u_decimal [OF ip_byte_small(1) dot_stops(1)] ip_byte_small(2) by simp
  have "scan_list scan_u (CHR ''.'') 4 (ip_toString a) = Inr [?b 24, ?b 16, ?b 8, ?b 0]"
    by (simp add: ip_toString_def Let_def numeral_eq_Suc last step)
  then show ?thesis by (simp add: ip_fromString_def ip_bytes)
qed

section \<open>Ethernet addresses\<close>

record macAddress =
  address :: "u8 list"

definition MacAddress :: "u8 list \<Rightarrow> macAddress res" where
  "MacAddress raw = require OutOfRange (6 \<le> length raw) (Inr \<lparr>address = take 6 raw\<rparr>)"

definition downCast_u8 :: "u32 \<Rightarrow> u8 res" where
  "downCast_u8 large = (let small = ucast large in require AssertionFailed (large - ucast small = 0) (Inr small))"

fun downCast_list :: "u32 list \<Rightarrow> u8 list res" where
  "downCast_list [] = Inr []"
| "downCast_list (b # bs) = bindr (downCast_u8 b) (\<lambda>x. bindr (downCast_list bs) (\<lambda>xs. Inr (x # xs)))"

text \<open>After six conversions the character behind the seventeenth is read, whether the string is that
  long or not.\<close>

definition mac_fromString :: "string \<Rightarrow> macAddress res" where
  "mac_fromString macStr =
     bindr (scan_list (\<lambda>s. Inr (scan_x2 s)) (CHR '':'') 6 macStr) (\<lambda>bytes.
       if length bytes \<noteq> 6 then Inl BadAddress
       else require Undefined (17 \<le> length macStr)
         (if length macStr \<noteq> 17 then Inl BadAddress
          else bindr (downCast_list bytes) (\<lambda>bs. Inr \<lparr>address = bs\<rparr>)))"

definition hex2 :: "u8 \<Rightarrow> string" where
  "hex2 b = [digit (unat b div 16), digit (unat b mod 16)]"

fun colons :: "string list \<Rightarrow> string" where
  "colons [] = []"
| "colons [s] = s"
| "colons (s # t # ss) = s @ '':'' @ colons (t # ss)"

definition mac_toString :: "macAddress \<Rightarrow> string" where
  "mac_toString m = colons (map hex2 (address m))"

definition mac_isNull :: "macAddress \<Rightarrow> bool" where
  "mac_isNull m \<longleftrightarrow>
     address m ! 0 = 0 \<and> address m ! 1 = 0 \<and> address m ! 2 = 0 \<and>
     address m ! 3 = 0 \<and> address m ! 4 = 0 \<and> address m ! 5 = 0"

text \<open>Two words are compared, one of four bytes and one of two.\<close>

definition mac_eq :: "macAddress \<Rightarrow> macAddress \<Rightarrow> bool" where
  "mac_eq m other \<longleftrightarrow>
     take 4 (address m) = take 4 (address other) \<and> take 2 (drop 4 (address m)) = take 2 (drop 4 (address other))"

lemma mac_eq_iff:
  assumes "length (address m) = 6" "length (address m') = 6"
  shows "mac_eq m m' \<longleftrightarrow> m = m'"
proof -
  have "take 2 (drop 4 (address m)) = drop 4 (address m)" "take 2 (drop 4 (address m')) = drop 4 (address m')"
    using assms by simp_all
  then show ?thesis unfolding mac_eq_def by (metis append_take_drop_id macAddress.equality unit.exhaust)
qed

lemma scan_x2_hex2: "scan_x2 (hex2 b @ rest) = Some (ucast b, rest)"
proof -
  let ?h = "unat b div 16" and ?l = "unat b mod 16"
  have "unat b < 256" using unsigned_less [of b, where 'a = nat] by simp
  then have h: "?h < 16" by simp
  have l: "?l < 16" by simp
  have c: "code (digit ?h) \<noteq> 45" "code (digit ?h) \<noteq> 43" "code (digit ?l) \<noteq> 120" "code (digit ?l) \<noteq> 88"
    using h l code_digit [OF h] code_digit [OF l] by (auto simp del: mod_less)
  then have s: "digit ?h \<noteq> CHR ''-''" "digit ?h \<noteq> CHR ''+''" "digit ?l \<noteq> CHR ''x''" "digit ?l \<noteq> CHR ''X''"
    by (auto simp: code_def)
  have "of_nat (16 * ?h + ?l) = (ucast b :: u32)" by (simp add: unsigned_of_nat [symmetric] del: unsigned_of_nat)
  with h s show ?thesis by (simp add: scan_x2_def hex2_def Let_def)
qed

lemma ucast_back: "(ucast (ucast (b :: u8) :: u32) :: u8) = b"
  by (rule bit_word_eqI) (simp add: bit_simps)

lemma downCast_list_ucast: "downCast_list (map ucast bs) = Inr bs"
  by (induction bs) (simp_all add: downCast_u8_def Let_def ucast_back)

lemma scan_colons:
  "bs \<noteq> [] \<Longrightarrow> scan_list (\<lambda>s. Inr (scan_x2 s)) (CHR '':'') (length bs) (colons (map hex2 bs)) = Inr (map ucast bs)"
proof (induction bs)
  case (Cons b bs)
  show ?case
  proof (cases bs)
    case Nil
    then show ?thesis using scan_x2_hex2 [of b "[]"] by simp
  next
    case (Cons c cs)
    then have "scan_x2 (colons (map hex2 (b # bs))) = Some (ucast b, CHR '':'' # colons (map hex2 bs))"
      using scan_x2_hex2 [of b "CHR '':'' # colons (map hex2 bs)"] by simp
    with Cons Cons.IH show ?thesis by simp
  qed
qed simp

lemma length_colons: "length (colons (map hex2 bs)) = 3 * length bs - 1"
proof (induction bs)
  case (Cons b bs)
  then show ?case by (cases bs) (simp_all add: hex2_def)
qed simp

lemma mac_round_trip:
  assumes "length (address m) = 6"
  shows "mac_fromString (mac_toString m) = Inr m"
proof -
  have "address m \<noteq> []" using assms by auto
  with scan_colons [OF this] assms show ?thesis
    by (simp add: mac_fromString_def mac_toString_def downCast_list_ucast length_colons)
qed

text \<open>Six numbers of one digit are accepted by \<open>sscanf\<close>, in a string that is too short for the test of
  its end.\<close>

lemma mac_short_string: "mac_fromString ''1:2:3:4:5:6'' = Inl Undefined"
  by code_simp

end
