(* ===== verification/DpdkDriver.thy ===== *)
theory DpdkDriver
  imports QueueEstimator Addresses ObjectPool
begin

text \<open>
  The data path of the driver for DPDK (src/Drivers/DPDK/DpdkDriverImpl.h and DpdkDriverImpl.cc): allocation,
  sending, reception and release of packets, the Ethernet frame around a packet, corking and the
  bytes that wait to be sent. The library is a parameter: \<open>'e\<close> is its state, which holds the
  buffers, the ring and the queues of the card, and a value of \<open>'e rte\<close> consists of the functions
  that the driver calls. Locks and log output are left out. Initialisation is not modelled: the
  driver starts with a table of addresses, an address of its own and a bandwidth.
\<close>

section \<open>Constants\<close>

definition NB_MBUF :: int where "NB_MBUF = 16383"
definition NB_MBUF_RESERVED :: int where "NB_MBUF_RESERVED = 4096"

text \<open>Sizes and types of Ethernet frames.\<close>

definition ETHER_HDR_LEN :: nat where "ETHER_HDR_LEN = 14"
definition ETHER_MTU :: nat where "ETHER_MTU = 1500"
definition ETHER_TYPE_VLAN :: u16 where "ETHER_TYPE_VLAN = 0x8100"

definition VLAN_TAG_LEN :: nat where "VLAN_TAG_LEN = 4"
definition IP_HDR_LEN :: nat where "IP_HDR_LEN = 4"
definition PACKET_HDR_LEN :: nat where "PACKET_HDR_LEN = ETHER_HDR_LEN + VLAN_TAG_LEN + IP_HDR_LEN"
definition DPDK_MAX_PAYLOAD_SIZE :: nat where "DPDK_MAX_PAYLOAD_SIZE = ETHER_MTU"
definition HOMA_TYPE :: u16 where "HOMA_TYPE = 0x88b5"

definition PRIORITY_TO_PCP :: "u16 list" where
  "PRIORITY_TO_PCP = map (push_bit 13) [1, 0, 2, 3, 4, 5, 6, 7]"

definition MBUF_ALLOC_LIMIT :: int where "MBUF_ALLOC_LIMIT = NB_MBUF - NB_MBUF_RESERVED"
definition MAX_PACKETS_AT_ONCE :: nat where "MAX_PACKETS_AT_ONCE = 32"

lemmas frame_sizes =
  ETHER_HDR_LEN_def ETHER_MTU_def VLAN_TAG_LEN_def IP_HDR_LEN_def PACKET_HDR_LEN_def DPDK_MAX_PAYLOAD_SIZE_def

section \<open>Frames\<close>

text \<open>What is stored in front of the payload: both Ethernet addresses, the tag with the priority, the type
  of the frame and the address of the sender in the order of the host.\<close>

definition frame_header :: "macAddress \<Rightarrow> macAddress \<Rightarrow> int \<Rightarrow> ipAddress \<Rightarrow> bytes" where
  "frame_header destMac localMac prio localIp =
     address destMac @ address localMac @ to_le 2 (htobe16 ETHER_TYPE_VLAN) @
     to_le 2 (htobe16 (PRIORITY_TO_PCP ! nat prio)) @ to_le 2 (htobe16 HOMA_TYPE) @ to_le 4 (ip_addr localIp)"

text \<open>The sender and the length of the headers of a received frame, or nothing when the frame is
  filtered. Without a tag the type stands at its place and the headers are shorter.\<close>

definition parse_frame :: "bool \<Rightarrow> bytes \<Rightarrow> (ipAddress \<times> nat) option res" where
  "parse_frame hasHardwareFilter frame =
     require OutOfRange (ETHER_HDR_LEN \<le> length frame)
     (let outer = (field 12 2 frame :: u16); tagged = (outer = htobe16 ETHER_TYPE_VLAN)
      in require OutOfRange (tagged \<longrightarrow> ETHER_HDR_LEN + VLAN_TAG_LEN \<le> length frame)
         (let ether_type = (if tagged then field 16 2 frame else outer);
              headerLength = (if tagged then ETHER_HDR_LEN + VLAN_TAG_LEN else ETHER_HDR_LEN)
          in if \<not> hasHardwareFilter \<and> ether_type \<noteq> htobe16 HOMA_TYPE then Inr None
             else require AssertionFailed (length frame \<ge> headerLength + 4)
                  (require AssertionFailed (length frame - (headerLength + 4) \<le> DPDK_MAX_PAYLOAD_SIZE)
                    (Inr (Some (\<lparr>ip_addr = field headerLength 4 frame\<rparr>, headerLength + 4))))))"

lemma length_frame_header:
  "length (address m) = 6 \<Longrightarrow> length (address m') = 6 \<Longrightarrow> length (frame_header m m' prio ip) = PACKET_HDR_LEN"
  by (simp add: frame_header_def frame_sizes)

text \<open>A frame is read back as it was built, whether the card filters or the driver does.\<close>

lemma frame_round_trip:
  assumes "length (address m) = 6" "length (address m') = 6" "length data \<le> DPDK_MAX_PAYLOAD_SIZE"
  shows "parse_frame hw (frame_header m m' prio ip @ data) = Inr (Some (ip, PACKET_HDR_LEN))"
proof -
  let ?f = "frame_header m m' prio ip @ data"
  let ?pcp = "to_le 2 (htobe16 (PRIORITY_TO_PCP ! nat prio))"
  let ?ip = "to_le 4 (ip_addr ip) @ data" and ?homa = "to_le 2 (htobe16 HOMA_TYPE)"
  have f: "?f = (address m @ address m') @ to_le 2 (htobe16 ETHER_TYPE_VLAN) @ ?pcp @ ?homa @ ?ip"
    "?f = (address m @ address m' @ to_le 2 (htobe16 ETHER_TYPE_VLAN) @ ?pcp) @ ?homa @ ?ip"
    "?f = (address m @ address m' @ to_le 2 (htobe16 ETHER_TYPE_VLAN) @ ?pcp @ ?homa) @ ?ip"
    by (simp_all add: frame_header_def)
  have 1: "field 12 2 ?f = htobe16 ETHER_TYPE_VLAN"
    unfolding f(1) using assms(1,2) by (subst field_skip [where k = 0]) (simp_all add: field_here)
  have 2: "field 16 2 ?f = htobe16 HOMA_TYPE"
    unfolding f(2) using assms(1,2) by (subst field_skip [where k = 0]) (simp_all add: field_here)
  have 3: "field 18 4 ?f = ip_addr ip"
    unfolding f(3) using assms(1,2) by (subst field_skip [where k = 0]) (simp_all add: field_here)
  have "length ?f = PACKET_HDR_LEN + length data" using length_frame_header [OF assms(1,2)] by simp
  with 1 2 3 assms(3) show ?thesis by (simp add: parse_frame_def frame_sizes Let_def)
qed

section \<open>The library\<close>

text \<open>\<open>mbuf_data\<close> is the data of a buffer, from its start and as long as the library says; \<open>mbuf_store\<close>
  writes into it. \<open>rte_pktmbuf_append\<close> returns where the room it adds begins. The two functions that
  transmit return the packets that go to the card, for which the library runs the callback of the
  driver first.\<close>

record 'e rte =
  rte_pktmbuf_alloc :: "'e \<Rightarrow> addr option \<times> 'e"
  rte_pktmbuf_append :: "addr \<Rightarrow> u16 \<Rightarrow> 'e \<Rightarrow> nat option \<times> 'e"
  rte_pktmbuf_free :: "addr \<Rightarrow> 'e \<Rightarrow> 'e"
  rte_mbuf_refcnt_read :: "addr \<Rightarrow> 'e \<Rightarrow> u16"
  rte_pktmbuf_refcnt_update :: "addr \<Rightarrow> int \<Rightarrow> 'e \<Rightarrow> 'e"
  mbuf_data :: "addr \<Rightarrow> 'e \<Rightarrow> bytes"
  mbuf_store :: "addr \<Rightarrow> nat \<Rightarrow> bytes \<Rightarrow> 'e \<Rightarrow> 'e"
  nb_segs :: "addr \<Rightarrow> 'e \<Rightarrow> nat"
  rte_pktmbuf_trim :: "addr \<Rightarrow> u16 \<Rightarrow> 'e \<Rightarrow> int \<times> 'e"
  rte_pktmbuf_clone :: "addr \<Rightarrow> 'e \<Rightarrow> addr option \<times> 'e"
  rte_ring_enqueue :: "addr \<Rightarrow> 'e \<Rightarrow> int \<times> 'e"
  rte_ring_count :: "'e \<Rightarrow> nat"
  rte_ring_dequeue :: "'e \<Rightarrow> addr option \<times> 'e"
  rte_eth_rx_burst :: "nat \<Rightarrow> 'e \<Rightarrow> addr list \<times> 'e"
  rte_eth_tx_buffer :: "addr \<Rightarrow> 'e \<Rightarrow> addr list \<times> 'e"
  rte_eth_tx_buffer_flush :: "'e \<Rightarrow> addr list \<times> 'e"

section \<open>State\<close>

text \<open>A packet lies in a buffer of the library, its payload at an offset, or in an overflow buffer.\<close>

datatype bufRef = MBUF addr nat | OVERFLOW_BUF addr

record dpdkPacket =
  dp_length :: int
  dp_buf :: bufRef

record dpdk =
  arpTable :: "ipAddress \<rightharpoonup> macAddress"
  localIp :: ipAddress
  localMac :: macAddress
  HIGHEST_PACKET_PRIORITY :: int
  packetPool :: object_pool
  overflowBufferPool :: object_pool
  mbufsOutstanding :: u32
  hasHardwareFilter :: bool
  corked :: int
  bandwidthMbps :: u32
  bufferedBytes :: u64
  tx_estimator :: estimator
  dd_packets :: "addr \<rightharpoonup> dpdkPacket"
  dd_overflow :: "addr \<Rightarrow> bytes"

text \<open>The priority levels: an override that is not negative, or the length of the table.\<close>

definition dd_highest_priority :: "int option \<Rightarrow> int" where
  "dd_highest_priority override =
     (case override of
        None \<Rightarrow> int (length PRIORITY_TO_PCP) - 1
      | Some p \<Rightarrow> if p < 0 then int (length PRIORITY_TO_PCP) - 1 else p)"

definition Packet_mbuf :: "addr \<Rightarrow> nat \<Rightarrow> dpdkPacket" where
  "Packet_mbuf mbuf data = \<lparr>dp_length = 0, dp_buf = MBUF mbuf data\<rparr>"

definition Packet_overflow :: "addr \<Rightarrow> dpdkPacket" where
  "Packet_overflow buf = \<lparr>dp_length = 0, dp_buf = OVERFLOW_BUF buf\<rparr>"

section \<open>Allocation\<close>

definition construct_mbuf :: "addr \<Rightarrow> nat \<Rightarrow> dpdk \<Rightarrow> (addr \<times> dpdk) res" where
  "construct_mbuf mbuf data d =
     bindr (pool_construct (packetPool d)) (\<lambda>(a, pool).
       Inr (a, d\<lparr>packetPool := pool, dd_packets := (dd_packets d)(a \<mapsto> Packet_mbuf mbuf data),
                 mbufsOutstanding := mbufsOutstanding d + 1\<rparr>))"

definition construct_overflow :: "dpdk \<Rightarrow> (addr \<times> addr \<times> dpdk) res" where
  "construct_overflow d =
     bindr (pool_construct (overflowBufferPool d)) (\<lambda>(buf, opool).
     bindr (pool_construct (packetPool d)) (\<lambda>(a, pool).
       Inr (buf, a, d\<lparr>overflowBufferPool := opool, packetPool := pool,
                      dd_packets := (dd_packets d)(a \<mapsto> Packet_overflow buf)\<rparr>)))"

text \<open>A buffer of the library with room for the headers and the largest payload.\<close>

definition alloc_mbuf :: "'e rte \<Rightarrow> 'e \<Rightarrow> (addr \<times> nat) option \<times> 'e" where
  "alloc_mbuf rte e =
     (case rte_pktmbuf_alloc rte e of
        (None, e1) \<Rightarrow> (None, e1)
      | (Some mbuf, e1) \<Rightarrow>
          (case rte_pktmbuf_append rte mbuf (of_nat (PACKET_HDR_LEN + DPDK_MAX_PAYLOAD_SIZE)) e1 of
             (None, e2) \<Rightarrow> (None, rte_pktmbuf_free rte mbuf e2)
           | (Some buf, e2) \<Rightarrow> (Some (mbuf, buf + PACKET_HDR_LEN), e2)))"

definition dd_allocPacket :: "'e rte \<Rightarrow> dpdk \<Rightarrow> 'e \<Rightarrow> (addr \<times> dpdk \<times> 'e) res" where
  "dd_allocPacket rte d e =
     (let (mbuf, e') = (if uint (mbufsOutstanding d) < MBUF_ALLOC_LIMIT then alloc_mbuf rte e else (None, e))
      in case mbuf of
           Some (m, data) \<Rightarrow> bindr (construct_mbuf m data d) (\<lambda>(a, d'). Inr (a, d', e'))
         | None \<Rightarrow> bindr (construct_overflow d) (\<lambda>(_, a, d'). Inr (a, d', e')))"

section \<open>Sending\<close>

text \<open>\<open>lens\<close> are the lengths of the packets that are about to be transmitted.\<close>

definition txBurstCallback ::
  "(real \<Rightarrow> real) \<Rightarrow> (int \<Rightarrow> real) \<Rightarrow> int \<Rightarrow> nat list \<Rightarrow> dpdk \<Rightarrow> dpdk res" where
  "txBurstCallback rnd seconds now lens d =
     (let bytesToSend = (sum_list (map of_nat lens) :: u64)
      in require AssertionFailed (bytesToSend \<le> bufferedBytes d)
         (bindr (signalBytesSent rnd seconds now (ucast bytesToSend) (tx_estimator d)) (\<lambda>q.
           Inr (d\<lparr>bufferedBytes := bufferedBytes d - bytesToSend, tx_estimator := q\<rparr>))))"

text \<open>The library runs the callback before it transmits packets, if there are any.\<close>

definition transmit ::
  "(real \<Rightarrow> real) \<Rightarrow> (int \<Rightarrow> real) \<Rightarrow> int \<Rightarrow> 'e rte \<Rightarrow> addr list \<Rightarrow> 'e \<Rightarrow> dpdk \<Rightarrow> dpdk res" where
  "transmit rnd seconds now rte burst e d =
     (if burst = [] then Inr d
      else txBurstCallback rnd seconds now (map (\<lambda>m. length (mbuf_data rte m e)) burst) d)"

text \<open>The buffer of a packet that is to be sent: a packet in an overflow buffer is copied into a new one;
  a packet that is still being sent is not sent again.\<close>

definition send_mbuf :: "'e rte \<Rightarrow> dpdkPacket \<Rightarrow> dpdk \<Rightarrow> 'e \<Rightarrow> (addr option \<times> 'e) res" where
  "send_mbuf rte pkt d e =
     (case dp_buf pkt of
        OVERFLOW_BUF buf \<Rightarrow>
          (case rte_pktmbuf_alloc rte e of
             (None, e1) \<Rightarrow> Inr (None, e1)
           | (Some mbuf, e1) \<Rightarrow>
               bindr (downCast_u16 (uint (of_nat PACKET_HDR_LEN + word_of_int (dp_length pkt) :: u32))) (\<lambda>n.
               case rte_pktmbuf_append rte mbuf n e1 of
                 (None, e2) \<Rightarrow> Inr (None, rte_pktmbuf_free rte mbuf e2)
               | (Some b, e2) \<Rightarrow>
                   Inr (Some mbuf,
                        mbuf_store rte mbuf (b + PACKET_HDR_LEN) (take (nat (dp_length pkt)) (dd_overflow d buf)) e2)))
      | MBUF mbuf _ \<Rightarrow> Inr (if rte_mbuf_refcnt_read rte mbuf e > 1 then None else Some mbuf, e))"

definition trim_mbuf :: "'e rte \<Rightarrow> addr \<Rightarrow> dpdkPacket \<Rightarrow> 'e \<Rightarrow> 'e" where
  "trim_mbuf rte mbuf pkt e =
     (let actualLength = unat (of_nat PACKET_HDR_LEN + word_of_int (dp_length pkt) :: u32);
          mbufDataLength = length (mbuf_data rte mbuf e)
      in if actualLength < mbufDataLength
         then snd (rte_pktmbuf_trim rte mbuf (of_nat (mbufDataLength - actualLength)) e) else e)"

definition loopback :: "'e rte \<Rightarrow> addr \<Rightarrow> 'e \<Rightarrow> 'e" where
  "loopback rte mbuf e =
     (case rte_pktmbuf_clone rte mbuf e of
        (None, e1) \<Rightarrow> e1
      | (Some clone, e1) \<Rightarrow>
          (let (ret, e2) = rte_ring_enqueue rte clone e1 in if ret \<noteq> 0 then rte_pktmbuf_free rte clone e2 else e2))"

text \<open>A packet for another host joins the burst, which is flushed at once unless the driver is corked.
  The clock is read by the callback, at most twice.\<close>

definition buffer_mbuf ::
  "(real \<Rightarrow> real) \<Rightarrow> (int \<Rightarrow> real) \<Rightarrow> (nat \<Rightarrow> int) \<Rightarrow> 'e rte \<Rightarrow> addr \<Rightarrow> dpdk \<Rightarrow> 'e \<Rightarrow> (dpdk \<times> 'e) res" where
  "buffer_mbuf rnd seconds now rte mbuf d e =
     (let d1 = d\<lparr>bufferedBytes := bufferedBytes d + of_nat (length (mbuf_data rte mbuf e))\<rparr>;
          (burst, e1) = rte_eth_tx_buffer rte mbuf e
      in bindr (transmit rnd seconds (now 0) rte burst e d1) (\<lambda>d2.
         if corked d2 < 1 then
           let (burst', e2) = rte_eth_tx_buffer_flush rte e1
           in bindr (transmit rnd seconds (now 1) rte burst' e1 d2) (\<lambda>d3. Inr (d3, e2))
         else Inr (d2, e1)))"

definition dd_sendPacket ::
  "(real \<Rightarrow> real) \<Rightarrow> (int \<Rightarrow> real) \<Rightarrow> (nat \<Rightarrow> int) \<Rightarrow> 'e rte \<Rightarrow> addr \<Rightarrow> ipAddress \<Rightarrow> int \<Rightarrow> dpdk \<Rightarrow> 'e \<Rightarrow>
     (dpdk \<times> 'e) res" where
  "dd_sendPacket rnd seconds now rte packet destination prio d e =
     (case dd_packets d packet of
        None \<Rightarrow> Inl Undefined
      | Some pkt \<Rightarrow>
          bindr (send_mbuf rte pkt d e) (\<lambda>(m, e1).
          case m of
            None \<Rightarrow> Inr (d, e1)
          | Some mbuf \<Rightarrow>
              (case arpTable d destination of
                 None \<Rightarrow> Inr (d, e1)
               | Some destMac \<Rightarrow>
                   require OutOfRange (0 \<le> prio \<and> nat prio < length PRIORITY_TO_PCP)
                   (let e2 = mbuf_store rte mbuf 0 (frame_header destMac (localMac d) prio (localIp d)) e1;
                        e3 = trim_mbuf rte mbuf pkt e2
                    in if mac_eq (localMac d) destMac then Inr (d, loopback rte mbuf e3)
                       else buffer_mbuf rnd seconds now rte mbuf d
                              (case dp_buf pkt of
                                 MBUF _ _ \<Rightarrow> rte_pktmbuf_refcnt_update rte mbuf 1 e3
                               | OVERFLOW_BUF _ \<Rightarrow> e3)))))"

definition dd_cork :: "dpdk \<Rightarrow> dpdk" where
  "dd_cork d = d\<lparr>corked := corked d + 1\<rparr>"

definition dd_uncork ::
  "(real \<Rightarrow> real) \<Rightarrow> (int \<Rightarrow> real) \<Rightarrow> int \<Rightarrow> 'e rte \<Rightarrow> dpdk \<Rightarrow> 'e \<Rightarrow> (dpdk \<times> 'e) res" where
  "dd_uncork rnd seconds now rte d e =
     (let d1 = d\<lparr>corked := corked d - 1\<rparr>
      in if corked d = 1 then
           let (burst, e1) = rte_eth_tx_buffer_flush rte e
           in bindr (transmit rnd seconds now rte burst e d1) (\<lambda>d2. Inr (d2, e1))
         else Inr (d1, e))"

section \<open>Reception\<close>

text \<open>A received frame stays in its buffer as long as enough buffers are left. Otherwise the packet gets
  an overflow buffer; the copy goes from that buffer to the received data.\<close>

definition receive_packet :: "'e rte \<Rightarrow> addr \<Rightarrow> nat \<Rightarrow> dpdk \<Rightarrow> 'e \<Rightarrow> (addr \<times> dpdk \<times> 'e) res" where
  "receive_packet rte mbuf headerLength d e =
     (let len = length (mbuf_data rte mbuf e) - headerLength;
          set_length = (\<lambda>a d. d\<lparr>dd_packets := (dd_packets d)(a := map_option (\<lambda>p. p\<lparr>dp_length := int len\<rparr>) (dd_packets d a))\<rparr>)
      in if uint (mbufsOutstanding d) < MBUF_ALLOC_LIMIT then
           bindr (construct_mbuf mbuf headerLength d) (\<lambda>(a, d'). Inr (a, set_length a d', e))
         else
           bindr (construct_overflow d) (\<lambda>(buf, a, d').
             Inr (a, set_length a d', mbuf_store rte mbuf headerLength (take len (dd_overflow d buf)) e)))"

fun receive_mbufs :: "'e rte \<Rightarrow> addr list \<Rightarrow> dpdk \<Rightarrow> 'e \<Rightarrow> ((addr \<times> ipAddress) list \<times> dpdk \<times> 'e) res" where
  "receive_mbufs rte [] d e = Inr ([], d, e)"
| "receive_mbufs rte (m # ms) d e =
     (if nb_segs rte m e > 1 then receive_mbufs rte ms d (rte_pktmbuf_free rte m e)
      else bindr (parse_frame (hasHardwareFilter d) (mbuf_data rte m e)) (\<lambda>frame.
        case frame of
          None \<Rightarrow> receive_mbufs rte ms d (rte_pktmbuf_free rte m e)
        | Some (srcIp, headerLength) \<Rightarrow>
            bindr (receive_packet rte m headerLength d e) (\<lambda>(a, d', e').
            bindr (receive_mbufs rte ms d' e') (\<lambda>(ps, d'', e'').
            Inr ((a, srcIp) # ps, d'', e'')))))"

text \<open>The packets that loop back; a buffer that the ring does not return has no value.\<close>

fun dequeue_loopback :: "'e rte \<Rightarrow> nat \<Rightarrow> 'e \<Rightarrow> (addr list \<times> 'e) res" where
  "dequeue_loopback rte 0 e = Inr ([], e)"
| "dequeue_loopback rte (Suc n) e =
     (case rte_ring_dequeue rte e of
        (None, e1) \<Rightarrow> Inl Undefined
      | (Some m, e1) \<Rightarrow> bindr (dequeue_loopback rte n e1) (\<lambda>(ms, e2). Inr (m # ms, e2)))"

definition dd_receivePackets ::
  "'e rte \<Rightarrow> nat \<Rightarrow> dpdk \<Rightarrow> 'e \<Rightarrow> ((addr \<times> ipAddress) list \<times> dpdk \<times> 'e) res" where
  "dd_receivePackets rte maxPackets d e =
     (let maxPackets' = (if maxPackets > MAX_PACKETS_AT_ONCE then MAX_PACKETS_AT_ONCE else maxPackets);
          loopbackPkts = min (rte_ring_count rte e) (maxPackets' div 2)
      in bindr (dequeue_loopback rte loopbackPkts e) (\<lambda>(looped, e1).
         let (incoming, e2) = rte_eth_rx_burst rte (maxPackets' - loopbackPkts) e1
         in receive_mbufs rte (looped @ incoming) d e2))"

section \<open>Release\<close>

definition release_one :: "'e rte \<Rightarrow> addr \<Rightarrow> dpdk \<Rightarrow> 'e \<Rightarrow> (dpdk \<times> 'e) res" where
  "release_one rte a d e =
     (case dd_packets d a of
        None \<Rightarrow> Inl Undefined
      | Some p \<Rightarrow>
          bindr (case dp_buf p of
              MBUF mbuf _ \<Rightarrow> Inr (d\<lparr>mbufsOutstanding := mbufsOutstanding d - 1\<rparr>, rte_pktmbuf_free rte mbuf e)
            | OVERFLOW_BUF buf \<Rightarrow>
                bindr (pool_destroy buf (overflowBufferPool d)) (\<lambda>opool. Inr (d\<lparr>overflowBufferPool := opool\<rparr>, e)))
          (\<lambda>(d1, e1).
          bindr (pool_destroy a (packetPool d1)) (\<lambda>pool.
            Inr (d1\<lparr>packetPool := pool, dd_packets := (dd_packets d1)(a := None)\<rparr>, e1))))"

fun dd_releasePackets :: "'e rte \<Rightarrow> addr list \<Rightarrow> dpdk \<Rightarrow> 'e \<Rightarrow> (dpdk \<times> 'e) res" where
  "dd_releasePackets rte [] d e = Inr (d, e)"
| "dd_releasePackets rte (a # as) d e = bindr (release_one rte a d e) (\<lambda>(d', e'). dd_releasePackets rte as d' e')"

section \<open>Values\<close>

definition dd_getHighestPacketPriority :: "dpdk \<Rightarrow> int" where
  "dd_getHighestPacketPriority d = HIGHEST_PACKET_PRIORITY d"

definition dd_getMaxPayloadSize :: u32 where
  "dd_getMaxPayloadSize = of_nat DPDK_MAX_PAYLOAD_SIZE"

definition dd_getBandwidth :: "dpdk \<Rightarrow> u32" where
  "dd_getBandwidth d = bandwidthMbps d"

definition dd_getLocalAddress :: "dpdk \<Rightarrow> ipAddress" where
  "dd_getLocalAddress d = localIp d"

definition dd_getQueuedBytes ::
  "(real \<Rightarrow> real) \<Rightarrow> (int \<Rightarrow> real) \<Rightarrow> int \<Rightarrow> dpdk \<Rightarrow> (u32 \<times> dpdk) res" where
  "dd_getQueuedBytes rnd seconds now d =
     bindr (qe_getQueuedBytes rnd seconds now (tx_estimator d)) (\<lambda>(b, q).
       Inr (ucast (bufferedBytes d + ucast b), d\<lparr>tx_estimator := q\<rparr>))"

end
