(* ===== verification/Dpdk_Correct.thy ===== *)
theory Dpdk_Correct
  imports DpdkDriver
begin

text \<open>
  What the driver for DPDK keeps: the number of buffers it holds, with a reserve for reception, and the
  number of bytes that wait to be transmitted. The laws of the library that the second part relies
  on are collected in \<open>rte_ok\<close>.
\<close>

section \<open>Packets and buffers\<close>

definition in_mbuf :: "dpdkPacket \<Rightarrow> bool" where
  "in_mbuf p = (case dp_buf p of MBUF _ _ \<Rightarrow> True | OVERFLOW_BUF _ \<Rightarrow> False)"

definition mbuf_packets :: "(addr \<rightharpoonup> dpdkPacket) \<Rightarrow> addr set" where
  "mbuf_packets ps = {a. \<exists>p. ps a = Some p \<and> in_mbuf p}"

definition overflow_used :: "(addr \<rightharpoonup> dpdkPacket) \<Rightarrow> addr set" where
  "overflow_used ps = {b. \<exists>a p. ps a = Some p \<and> dp_buf p = OVERFLOW_BUF b}"

definition dd_inv :: "dpdk \<Rightarrow> bool" where
  "dd_inv d \<longleftrightarrow>
     finite (dom (dd_packets d)) \<and> pool_ok (dom (dd_packets d)) (packetPool d) \<and>
     pool_ok (overflow_used (dd_packets d)) (overflowBufferPool d) \<and>
     (\<forall>a a' p p' b. dd_packets d a = Some p \<longrightarrow> dd_packets d a' = Some p' \<longrightarrow>
        dp_buf p = OVERFLOW_BUF b \<longrightarrow> dp_buf p' = OVERFLOW_BUF b \<longrightarrow> a = a') \<and>
     unat (mbufsOutstanding d) = card (mbuf_packets (dd_packets d)) \<and> uint (mbufsOutstanding d) \<le> MBUF_ALLOC_LIMIT"

lemma mbuf_packets_upd [simp]:
  "mbuf_packets (ps(a \<mapsto> p)) = (if in_mbuf p then insert a (mbuf_packets ps) else mbuf_packets ps - {a})"
  "mbuf_packets (ps(a := None)) = mbuf_packets ps - {a}"
  by (auto simp: mbuf_packets_def)

lemma finite_mbuf_packets: "finite (dom ps) \<Longrightarrow> finite (mbuf_packets ps)"
  by (rule finite_subset [of _ "dom ps"]) (auto simp: mbuf_packets_def)

lemma overflow_used_new:
  assumes "ps a = None"
  shows "overflow_used (ps(a \<mapsto> p)) = {b. dp_buf p = OVERFLOW_BUF b} \<union> overflow_used ps"
proof -
  have "(\<exists>x q. (ps(a \<mapsto> p)) x = Some q \<and> dp_buf q = r) \<longleftrightarrow> dp_buf p = r \<or> (\<exists>x q. ps x = Some q \<and> dp_buf q = r)" for r
    using assms by (metis fun_upd_other fun_upd_same option.distinct(1) option.inject)
  then show ?thesis unfolding overflow_used_def by blast
qed

text \<open>The length of a packet plays no part.\<close>

lemma dd_inv_length:
  "dd_packets d a = Some p \<Longrightarrow> dd_inv (d\<lparr>dd_packets := (dd_packets d)(a \<mapsto> p\<lparr>dp_length := n\<rparr>)\<rparr>) \<longleftrightarrow> dd_inv d"
proof -
  assume a: "dd_packets d a = Some p"
  let ?ps = "(dd_packets d)(a \<mapsto> p\<lparr>dp_length := n\<rparr>)"
  have b: "(\<exists>q. ?ps x = Some q \<and> dp_buf q = r) \<longleftrightarrow> (\<exists>q. dd_packets d x = Some q \<and> dp_buf q = r)" for x r
    using a by auto
  have "dom ?ps = dom (dd_packets d)" using a by auto
  moreover have "mbuf_packets ?ps = mbuf_packets (dd_packets d)"
    unfolding mbuf_packets_def in_mbuf_def using a by auto
  moreover have "overflow_used ?ps = overflow_used (dd_packets d)" unfolding overflow_used_def using b by blast
  moreover have "(\<forall>x x' q q' r. ?ps x = Some q \<longrightarrow> ?ps x' = Some q' \<longrightarrow> dp_buf q = OVERFLOW_BUF r \<longrightarrow> dp_buf q' = OVERFLOW_BUF r \<longrightarrow> x = x') \<longleftrightarrow>
      (\<forall>x x' q q' r. dd_packets d x = Some q \<longrightarrow> dd_packets d x' = Some q' \<longrightarrow> dp_buf q = OVERFLOW_BUF r \<longrightarrow>
         dp_buf q' = OVERFLOW_BUF r \<longrightarrow> x = x')"
    using b by blast
  ultimately show ?thesis by (simp add: dd_inv_def)
qed

lemma below_limit:
  assumes "uint (w :: u32) < MBUF_ALLOC_LIMIT"
  shows "unat (w + 1) = unat w + 1" "uint (w + 1) \<le> MBUF_ALLOC_LIMIT"
proof -
  have "int (unat w) < 12287" using assms by (simp add: MBUF_ALLOC_LIMIT_def NB_MBUF_def NB_MBUF_RESERVED_def)
  then have "unat w < 12287" by linarith
  then have "unat w + unat (1 :: u32) < 2 ^ LENGTH(32)" by simp
  then show 1: "unat (w + 1) = unat w + 1" using unat_add_lem [of w 1] by simp
  have "uint (w + 1) = int (unat (w + 1))" by simp
  also have "\<dots> = uint w + 1" unfolding 1 by simp
  finally show "uint (w + 1) \<le> MBUF_ALLOC_LIMIT" using assms by linarith
qed

lemma construct_mbuf_ok:
  assumes "dd_inv d" "uint (mbufsOutstanding d) < MBUF_ALLOC_LIMIT"
  shows "construct_mbuf m k d = Inl BadAlloc \<or>
    (\<exists>a d'. construct_mbuf m k d = Inr (a, d') \<and> dd_inv d' \<and> dd_packets d a = None \<and>
       dd_packets d' = (dd_packets d)(a \<mapsto> Packet_mbuf m k) \<and> dd_overflow d' = dd_overflow d)"
proof (cases "pool_construct (packetPool d)")
  case (Inl e)
  then have "e = BadAlloc" using opool.alloc_fails assms(1) unfolding dd_inv_def by blast
  then show ?thesis using Inl by (simp add: construct_mbuf_def)
next
  case (Inr r)
  obtain a pool where r: "r = (a, pool)" by (cases r)
  note inv = assms(1) [unfolded dd_inv_def]
  from opool.alloc_fresh [OF _ Inr [unfolded r]] inv
  have a: "a \<notin> dom (dd_packets d)" "pool_ok (insert a (dom (dd_packets d))) pool" by blast+
  then have n: "dd_packets d a = None" by blast
  have "a \<notin> mbuf_packets (dd_packets d)" using n by (simp add: mbuf_packets_def)
  moreover have "finite (mbuf_packets (dd_packets d))" using inv finite_mbuf_packets by blast
  ultimately have "dd_inv (d\<lparr>packetPool := pool, dd_packets := (dd_packets d)(a \<mapsto> Packet_mbuf m k), mbufsOutstanding := mbufsOutstanding d + 1\<rparr>)"
    using inv a below_limit [OF assms(2)] overflow_used_new [of "dd_packets d" a "Packet_mbuf m k"] n
    by (auto simp: dd_inv_def Packet_mbuf_def in_mbuf_def)
  then show ?thesis using Inr r n by (simp add: construct_mbuf_def)
qed

lemma construct_overflow_ok:
  assumes "dd_inv d"
  shows "construct_overflow d = Inl BadAlloc \<or>
    (\<exists>b a d'. construct_overflow d = Inr (b, a, d') \<and> dd_inv d' \<and> dd_packets d a = None \<and>
       b \<notin> overflow_used (dd_packets d) \<and> dd_packets d' = (dd_packets d)(a \<mapsto> Packet_overflow b) \<and>
       dd_overflow d' = dd_overflow d)"
proof (cases "pool_construct (overflowBufferPool d)")
  case (Inl e)
  then have "e = BadAlloc" using opool.alloc_fails assms unfolding dd_inv_def by blast
  then show ?thesis using Inl by (simp add: construct_overflow_def)
next
  case b: (Inr r)
  obtain b op where r: "r = (b, op)" by (cases r)
  note inv = assms [unfolded dd_inv_def]
  from opool.alloc_fresh [OF _ b [unfolded r]] inv
  have fresh: "b \<notin> overflow_used (dd_packets d)" "pool_ok (insert b (overflow_used (dd_packets d))) op" by blast+
  show ?thesis
  proof (cases "pool_construct (packetPool d)")
    case (Inl e)
    then have "e = BadAlloc" using opool.alloc_fails inv by blast
    then show ?thesis using Inl b r by (simp add: construct_overflow_def)
  next
    case (Inr q)
    obtain a pool where q: "q = (a, pool)" by (cases q)
    from opool.alloc_fresh [OF _ Inr [unfolded q]] inv
    have a: "a \<notin> dom (dd_packets d)" "pool_ok (insert a (dom (dd_packets d))) pool" by blast+
    then have n: "dd_packets d a = None" by blast
    have "a \<notin> mbuf_packets (dd_packets d)" using n by (simp add: mbuf_packets_def)
    moreover have "dp_buf p \<noteq> OVERFLOW_BUF b" if "dd_packets d x = Some p" for x p
      using fresh(1) that by (auto simp: overflow_used_def)
    ultimately have "dd_inv (d\<lparr>overflowBufferPool := op, packetPool := pool, dd_packets := (dd_packets d)(a \<mapsto> Packet_overflow b)\<rparr>)"
      using inv a fresh overflow_used_new [of "dd_packets d" a "Packet_overflow b"] n
      by (auto simp: dd_inv_def Packet_overflow_def in_mbuf_def)
    then show ?thesis using Inr q b r n fresh(1) by (simp add: construct_overflow_def)
  qed
qed

lemma alloc_ok:
  assumes "dd_inv d"
  shows "dd_allocPacket rte d e = Inl BadAlloc \<or>
    (\<exists>a d' e' p. dd_allocPacket rte d e = Inr (a, d', e') \<and> dd_inv d' \<and> dd_packets d a = None \<and>
       dd_packets d' = (dd_packets d)(a \<mapsto> p) \<and> dp_length p = 0)"
proof -
  obtain mb e' where mb: "(if uint (mbufsOutstanding d) < MBUF_ALLOC_LIMIT then alloc_mbuf rte e else (None, e)) = (mb, e')" by fastforce
  show ?thesis
  proof (cases mb)
    case None
    have "dp_length (Packet_overflow b) = 0" for b by (simp add: Packet_overflow_def)
    with None show ?thesis
      using construct_overflow_ok [OF assms] mb by (fastforce simp: dd_allocPacket_def)
  next
    case (Some mk)
    obtain m k where mk: "mk = (m, k)" by (cases mk)
    have "uint (mbufsOutstanding d) < MBUF_ALLOC_LIMIT" using mb Some by (auto split: if_splits)
    moreover have "dp_length (Packet_mbuf m k) = 0" by (simp add: Packet_mbuf_def)
    ultimately show ?thesis
      using construct_mbuf_ok [OF assms, of m k] mb Some mk by (fastforce simp: dd_allocPacket_def)
  qed
qed

lemma receive_packet_ok:
  assumes "dd_inv d"
  shows "receive_packet rte m k d e = Inl BadAlloc \<or>
    (\<exists>a d' e' p. receive_packet rte m k d e = Inr (a, d', e') \<and> dd_inv d' \<and> dd_packets d a = None \<and>
       dd_packets d' = (dd_packets d)(a \<mapsto> p) \<and> dp_length p = int (length (mbuf_data rte m e) - k))"
proof (cases "uint (mbufsOutstanding d) < MBUF_ALLOC_LIMIT")
  case True
  from construct_mbuf_ok [OF assms True, of m k] show ?thesis
  proof
    assume "construct_mbuf m k d = Inl BadAlloc"
    then show ?thesis using True by (simp add: receive_packet_def Let_def)
  next
    assume "\<exists>a d'. construct_mbuf m k d = Inr (a, d') \<and> dd_inv d' \<and> dd_packets d a = None \<and>
      dd_packets d' = (dd_packets d)(a \<mapsto> Packet_mbuf m k) \<and> dd_overflow d' = dd_overflow d"
    then obtain a d' where c: "construct_mbuf m k d = Inr (a, d')" "dd_inv d'" "dd_packets d a = None"
      "dd_packets d' = (dd_packets d)(a \<mapsto> Packet_mbuf m k)" by blast
    have "dd_packets d' a = Some (Packet_mbuf m k)" using c(4) by simp
    from dd_inv_length [OF this] c True show ?thesis
      by (simp add: receive_packet_def Let_def)
        (rule exI [of _ "(Packet_mbuf m k)\<lparr>dp_length := int (length (mbuf_data rte m e) - k)\<rparr>"], simp)
  qed
next
  case False
  from construct_overflow_ok [OF assms] show ?thesis
  proof
    assume "construct_overflow d = Inl BadAlloc"
    then show ?thesis using False by (simp add: receive_packet_def Let_def)
  next
    assume "\<exists>b a d'. construct_overflow d = Inr (b, a, d') \<and> dd_inv d' \<and> dd_packets d a = None \<and>
      b \<notin> overflow_used (dd_packets d) \<and> dd_packets d' = (dd_packets d)(a \<mapsto> Packet_overflow b) \<and> dd_overflow d' = dd_overflow d"
    then obtain b a d' where c: "construct_overflow d = Inr (b, a, d')" "dd_inv d'" "dd_packets d a = None"
      "dd_packets d' = (dd_packets d)(a \<mapsto> Packet_overflow b)" by blast
    have "dd_packets d' a = Some (Packet_overflow b)" using c(4) by simp
    from dd_inv_length [OF this] c False show ?thesis
      by (simp add: receive_packet_def Let_def)
        (rule exI [of _ "(Packet_overflow b)\<lparr>dp_length := int (length (mbuf_data rte m e) - k)\<rparr>"], simp)
  qed
qed

lemma overflow_used_old:
  assumes "ps a = Some p"
    "\<forall>a a' p p' b. ps a = Some p \<longrightarrow> ps a' = Some p' \<longrightarrow> dp_buf p = OVERFLOW_BUF b \<longrightarrow> dp_buf p' = OVERFLOW_BUF b \<longrightarrow> a = a'"
  shows "overflow_used (ps(a := None)) = overflow_used ps - {b. dp_buf p = OVERFLOW_BUF b}"
proof -
  have "(\<exists>x q. (ps(a := None)) x = Some q \<and> dp_buf q = OVERFLOW_BUF b) \<longleftrightarrow>
      (\<exists>x q. ps x = Some q \<and> dp_buf q = OVERFLOW_BUF b) \<and> dp_buf p \<noteq> OVERFLOW_BUF b" for b
    using assms by (metis fun_upd_apply option.distinct(1) option.inject)
  then show ?thesis unfolding overflow_used_def by blast
qed

lemma release_one_ok:
  assumes "dd_inv d" "dd_packets d a = Some p"
  shows "\<exists>d' e'. release_one rte a d e = Inr (d', e') \<and> dd_inv d' \<and> dd_packets d' = (dd_packets d)(a := None)"
proof -
  note inv = assms(1) [unfolded dd_inv_def]
  have fin: "finite (mbuf_packets (dd_packets d))" using inv finite_mbuf_packets by blast
  have "a \<in> dom (dd_packets d)" using assms(2) by blast
  then obtain pool where pool: "pool_destroy a (packetPool d) = Inr pool" "pool_ok (dom (dd_packets d) - {a}) pool"
    using inv opool.dealloc_ok by blast
  have uniq: "\<forall>a a' p p' b. dd_packets d a = Some p \<longrightarrow> dd_packets d a' = Some p' \<longrightarrow> dp_buf p = OVERFLOW_BUF b \<longrightarrow>
      dp_buf p' = OVERFLOW_BUF b \<longrightarrow> a = a'" using inv by blast
  note old = overflow_used_old [of "dd_packets d", OF assms(2) uniq]
  show ?thesis
  proof (cases "dp_buf p")
    case (MBUF m k)
    have mem: "a \<in> mbuf_packets (dd_packets d)" using assms(2) MBUF by (auto simp: mbuf_packets_def in_mbuf_def)
    then have pos: "0 < unat (mbufsOutstanding d)" using inv fin card_gt_0_iff by (metis empty_iff)
    then have "1 \<le> mbufsOutstanding d" by (simp add: word_le_nat_alt)
    then have w: "unat (mbufsOutstanding d - 1) = unat (mbufsOutstanding d) - 1" by (simp add: unat_sub)
    have "int (unat (mbufsOutstanding d - 1)) \<le> int (unat (mbufsOutstanding d))" unfolding w by linarith
    then have "uint (mbufsOutstanding d - 1) \<le> uint (mbufsOutstanding d)" by simp
    then have l: "uint (mbufsOutstanding d - 1) \<le> MBUF_ALLOC_LIMIT" using inv by linarith
    have o: "overflow_used ((dd_packets d)(a := None)) = overflow_used (dd_packets d)" using old MBUF by simp
    have "dd_inv (d\<lparr>mbufsOutstanding := mbufsOutstanding d - 1, packetPool := pool, dd_packets := (dd_packets d)(a := None)\<rparr>)"
      using inv pool(2) w l o mem uniq by (auto simp: dd_inv_def card_Diff_singleton)
    then show ?thesis using assms(2) MBUF pool(1) by (simp add: release_one_def)
  next
    case (OVERFLOW_BUF b)
    have "b \<in> overflow_used (dd_packets d)" using assms(2) OVERFLOW_BUF by (auto simp: overflow_used_def)
    then obtain op where op: "pool_destroy b (overflowBufferPool d) = Inr op" "pool_ok (overflow_used (dd_packets d) - {b}) op"
      using inv opool.dealloc_ok by blast
    have "a \<notin> mbuf_packets (dd_packets d)" using assms(2) OVERFLOW_BUF by (simp add: mbuf_packets_def in_mbuf_def)
    moreover have "{c. b = c} = {b}" by blast
    ultimately have "dd_inv (d\<lparr>overflowBufferPool := op, packetPool := pool, dd_packets := (dd_packets d)(a := None)\<rparr>)"
      using inv pool(2) op(2) old uniq OVERFLOW_BUF by (auto simp: dd_inv_def)
    then show ?thesis using assms(2) OVERFLOW_BUF pool(1) op(1) by (simp add: release_one_def)
  qed
qed

lemma release_ok:
  "dd_inv d \<Longrightarrow> distinct as \<Longrightarrow> set as \<subseteq> dom (dd_packets d) \<Longrightarrow>
   \<exists>d' e'. dd_releasePackets rte as d e = Inr (d', e') \<and> dd_inv d' \<and> dom (dd_packets d') = dom (dd_packets d) - set as"
proof (induction as arbitrary: d e)
  case (Cons a as)
  then obtain p where "dd_packets d a = Some p" by auto
  then obtain d1 e1 where 1: "release_one rte a d e = Inr (d1, e1)" "dd_inv d1" "dd_packets d1 = (dd_packets d)(a := None)"
    using release_one_ok [OF Cons.prems(1), of a p rte e] by blast
  have dom1: "dom (dd_packets d1) = dom (dd_packets d) - {a}" using 1(3) by simp
  have as: "distinct as" "set as \<subseteq> dom (dd_packets d1)" using Cons.prems(2,3) unfolding dom1 by simp_all blast
  obtain d' e' where
    2: "dd_releasePackets rte as d1 e1 = Inr (d', e')" "dd_inv d'" "dom (dd_packets d') = dom (dd_packets d1) - set as"
    using Cons.IH [OF 1(2) as, of e1] by blast
  have "dom (dd_packets d') = dom (dd_packets d) - set (a # as)" unfolding 2(3) dom1 by auto
  moreover have "dd_releasePackets rte (a # as) d e = Inr (d', e')" using 1(1) 2(1) by simp
  ultimately show ?case using 2(2) by blast
qed simp

text \<open>A burst of received frames: every packet is new, unless memory runs out or a frame is malformed.\<close>

lemma receive_mbufs_ok:
  "dd_inv d \<Longrightarrow> receive_mbufs rte ms d e = Inr (ps, d', e') \<Longrightarrow>
   dd_inv d' \<and> distinct (map fst ps) \<and> length ps \<le> length ms \<and>
   dom (dd_packets d') = dom (dd_packets d) \<union> fst ` set ps \<and> fst ` set ps \<inter> dom (dd_packets d) = {}"
proof (induction rte ms d e arbitrary: ps rule: receive_mbufs.induct)
  case (2 rte m ms d e)
  show ?case
  proof (cases "nb_segs rte m e > 1")
    case True
    then have "receive_mbufs rte ms d (rte_pktmbuf_free rte m e) = Inr (ps, d', e')" using 2(5) by simp
    from 2(1) [OF True 2(4) this] show ?thesis by auto
  next
    case False
    then obtain f where f: "parse_frame (hasHardwareFilter d) (mbuf_data rte m e) = Inr f" using 2(5) by (auto simp: res_simps)
    show ?thesis
    proof (cases f)
      case None
      then have "receive_mbufs rte ms d (rte_pktmbuf_free rte m e) = Inr (ps, d', e')" using 2(5) False f by simp
      from 2(2) [OF False f None 2(4) this] show ?thesis by auto
    next
      case (Some ik)
      obtain ip k where ik: "ik = (ip, k)" by (cases ik)
      then obtain a d1 e1 qs where r: "receive_packet rte m k d e = Inr (a, d1, e1)"
        "receive_mbufs rte ms d1 e1 = Inr (qs, d', e')" "ps = (a, ip) # qs"
        using 2(5) False f Some by (auto simp: res_simps)
      then obtain p where p: "dd_inv d1" "dd_packets d a = None" "dd_packets d1 = (dd_packets d)(a \<mapsto> p)"
        using receive_packet_ok [OF 2(4), of rte m k e] by auto
      have dom1: "dom (dd_packets d1) = insert a (dom (dd_packets d))" using p(3) by simp
      note 2(3) [OF False f Some ik [symmetric] r(1) refl refl p(1) r(2), unfolded dom1]
      then have IH: "dd_inv d'" "distinct (map fst qs)" "length qs \<le> length ms"
        "dom (dd_packets d') = insert a (dom (dd_packets d)) \<union> fst ` set qs" "fst ` set qs \<inter> insert a (dom (dd_packets d)) = {}"
        by blast+
      have "a \<notin> dom (dd_packets d)" using p(2) by blast
      then show ?thesis unfolding r(3) using IH by auto
    qed
  qed
qed simp

lemma receive_ok:
  assumes "dd_inv d" "dd_receivePackets rte n d e = Inr (ps, d', e')"
  shows "dd_inv d' \<and> distinct (map fst ps) \<and> dom (dd_packets d') = dom (dd_packets d) \<union> fst ` set ps \<and>
    fst ` set ps \<inter> dom (dd_packets d) = {}"
proof -
  obtain ms e1 where "receive_mbufs rte ms d e1 = Inr (ps, d', e')"
    using assms(2) unfolding dd_receivePackets_def Let_def case_prod_beta res_simps by blast
  from receive_mbufs_ok [OF assms(1) this] show ?thesis by blast
qed

end
