(* ===== verification/Dpdk_Transmit.thy ===== *)
theory Dpdk_Transmit
  imports Dpdk_Correct
begin

text \<open>
  The bytes that wait to be transmitted and the frames that are handed to the card. \<open>buffered\<close> is the
  list of the buffers that the library keeps for the next burst; \<open>rte_ok\<close> collects the documented
  behaviour of the functions on it and \<open>data_ok\<close> that of the functions on the data of a buffer.
\<close>

section \<open>What the library promises\<close>

definition keeps :: "'e rte \<Rightarrow> ('e \<Rightarrow> addr list) \<Rightarrow> 'e \<Rightarrow> 'e \<Rightarrow> bool" where
  "keeps rte buffered e e' \<longleftrightarrow>
     buffered e' = buffered e \<and> (\<forall>m\<in>set (buffered e). mbuf_data rte m e' = mbuf_data rte m e)"

text \<open>Only writing to a buffer changes its data, a new buffer is not one that waits, and a burst consists
  of all buffers that wait.\<close>

definition rte_ok :: "'e rte \<Rightarrow> ('e \<Rightarrow> addr list) \<Rightarrow> bool" where
  "rte_ok rte buffered \<longleftrightarrow>
     (\<forall>m e. length (mbuf_data rte m e) < 2 ^ 32) \<and> (\<forall>e. length (buffered e) \<le> 32) \<and>
     (\<forall>e. keeps rte buffered e (snd (rte_pktmbuf_alloc rte e))) \<and>
     (\<forall>e m. fst (rte_pktmbuf_alloc rte e) = Some m \<longrightarrow> m \<notin> set (buffered e)) \<and>
     (\<forall>m n e. m \<notin> set (buffered e) \<longrightarrow> keeps rte buffered e (snd (rte_pktmbuf_append rte m n e))) \<and>
     (\<forall>m off bs e. m \<notin> set (buffered e) \<longrightarrow> keeps rte buffered e (mbuf_store rte m off bs e)) \<and>
     (\<forall>m n e. m \<notin> set (buffered e) \<longrightarrow> keeps rte buffered e (snd (rte_pktmbuf_trim rte m n e))) \<and>
     (\<forall>m e. keeps rte buffered e (rte_pktmbuf_free rte m e)) \<and>
     (\<forall>m i e. keeps rte buffered e (rte_pktmbuf_refcnt_update rte m i e)) \<and>
     (\<forall>m e. keeps rte buffered e (snd (rte_pktmbuf_clone rte m e))) \<and>
     (\<forall>m e. keeps rte buffered e (snd (rte_ring_enqueue rte m e))) \<and>
     (\<forall>m e burst e'. rte_eth_tx_buffer rte m e = (burst, e') \<longrightarrow>
        burst = [] \<and> buffered e' = buffered e @ [m] \<and>
          (\<forall>x\<in>set (buffered e @ [m]). mbuf_data rte x e' = mbuf_data rte x e) \<or>
        burst = buffered e @ [m] \<and> buffered e' = []) \<and>
     (\<forall>e burst e'. rte_eth_tx_buffer_flush rte e = (burst, e') \<longrightarrow> burst = buffered e \<and> buffered e' = [])"

definition data_ok :: "'e rte \<Rightarrow> bool" where
  "data_ok rte \<longleftrightarrow>
     (\<forall>m off bs e. off + length bs \<le> length (mbuf_data rte m e) \<longrightarrow>
        mbuf_data rte m (mbuf_store rte m off bs e) = memcpy (mbuf_data rte m e) off bs) \<and>
     (\<forall>m n e. unat n \<le> length (mbuf_data rte m e) \<longrightarrow>
        mbuf_data rte m (snd (rte_pktmbuf_trim rte m n e)) = take (length (mbuf_data rte m e) - unat n) (mbuf_data rte m e))"

lemma keeps_trans: "keeps rte buffered e e1 \<Longrightarrow> keeps rte buffered e1 e2 \<Longrightarrow> keeps rte buffered e e2"
  by (simp add: keeps_def)

lemma rte_keeps:
  assumes "rte_ok rte buffered"
  shows "rte_pktmbuf_alloc rte e = (r, e') \<Longrightarrow> keeps rte buffered e e'"
    "rte_pktmbuf_alloc rte e = (Some m, e') \<Longrightarrow> m \<notin> set (buffered e)"
    "m \<notin> set (buffered e) \<Longrightarrow> rte_pktmbuf_append rte m n e = (q, e') \<Longrightarrow> keeps rte buffered e e'"
    "m \<notin> set (buffered e) \<Longrightarrow> keeps rte buffered e (mbuf_store rte m off bs e)"
    "m \<notin> set (buffered e) \<Longrightarrow> keeps rte buffered e (snd (rte_pktmbuf_trim rte m n e))"
    "keeps rte buffered e (rte_pktmbuf_free rte m e)"
    "keeps rte buffered e (rte_pktmbuf_refcnt_update rte m i e)"
    "rte_pktmbuf_clone rte m e = (r, e') \<Longrightarrow> keeps rte buffered e e'"
    "rte_ring_enqueue rte m e = (ret, e') \<Longrightarrow> keeps rte buffered e e'"
    "length (mbuf_data rte m e) < 2 ^ 32" "length (buffered e) \<le> 32"
  using assms unfolding rte_ok_def by (metis fst_conv snd_conv)+

section \<open>Bytes that wait\<close>

definition bytes_of :: "'e rte \<Rightarrow> addr list \<Rightarrow> 'e \<Rightarrow> nat" where
  "bytes_of rte ms e = sum_list (map (\<lambda>m. length (mbuf_data rte m e)) ms)"

definition tx_inv :: "'e rte \<Rightarrow> ('e \<Rightarrow> addr list) \<Rightarrow> dpdk \<Rightarrow> 'e \<Rightarrow> bool" where
  "tx_inv rte buffered d e \<longleftrightarrow>
     unat (bufferedBytes d) = bytes_of rte (buffered e) e \<and> (corked d < 1 \<longrightarrow> buffered e = []) \<and> estimator_ok (tx_estimator d)"

lemma bytes_of_simps [simp]: "bytes_of rte [] e = 0" "bytes_of rte (xs @ ys) e = bytes_of rte xs e + bytes_of rte ys e"
  by (simp_all add: bytes_of_def)

lemma bytes_of_same: "\<forall>m\<in>set ms. mbuf_data rte m e' = mbuf_data rte m e \<Longrightarrow> bytes_of rte ms e' = bytes_of rte ms e"
  unfolding bytes_of_def by (rule arg_cong [of _ _ sum_list], rule map_cong) simp_all

lemma bytes_of_bound:
  assumes "rte_ok rte buffered" "length ms \<le> 33"
  shows "bytes_of rte ms e < 2 ^ 64"
proof -
  have "bytes_of rte ms e \<le> length ms * 2 ^ 32"
    unfolding bytes_of_def using rte_keeps(10) [OF assms(1)]
    by (induction ms) (simp_all add: add_mono less_imp_le)
  also have "\<dots> \<le> 33 * 2 ^ 32" using assms(2) by (rule mult_le_mono1)
  also have "\<dots> < 2 ^ 64" by simp
  finally show ?thesis .
qed

lemma tx_inv_keeps: "tx_inv rte buffered d e \<Longrightarrow> keeps rte buffered e e' \<Longrightarrow> tx_inv rte buffered d e'"
  using bytes_of_same [of "buffered e" rte e' e] by (simp add: tx_inv_def keeps_def)

text \<open>The callback finds at least the bytes of the burst.\<close>

lemma transmit_ok:
  assumes r: "rounding_ok rnd" "clock_ok seconds" and q: "estimator_ok (tx_estimator d)" "lastUpdateTime (tx_estimator d) \<le> now"
    and b: "unat (bufferedBytes d) = bytes_of rte burst e + rest"
  shows "\<exists>d'. transmit rnd seconds now rte burst e d = Inr d' \<and> unat (bufferedBytes d') = rest \<and> corked d' = corked d \<and>
    estimator_ok (tx_estimator d') \<and> lastUpdateTime (tx_estimator d') \<le> now"
proof (cases "burst = []")
  case True
  then show ?thesis using b q by (simp add: transmit_def)
next
  case False
  let ?n = "of_nat (bytes_of rte burst e) :: u64"
  have sum: "sum_list (map of_nat (map (\<lambda>m. length (mbuf_data rte m e)) burst)) = ?n"
    unfolding bytes_of_def by (induction burst) simp_all
  have "unat (bufferedBytes d) < 2 ^ 64" using unsigned_less [of "bufferedBytes d", where 'a = nat] by simp
  then have n: "unat ?n = bytes_of rte burst e" using b by (simp add: unat_of_nat take_bit_nat_eq_self)
  have le: "?n \<le> bufferedBytes d" unfolding word_le_nat_alt n using b by simp
  have sub: "unat (bufferedBytes d - ?n) = rest" using unat_sub [OF le] n b by simp
  obtain q' where "signalBytesSent rnd seconds now (ucast ?n) (tx_estimator d) = Inr q'" "estimator_ok q'" "lastUpdateTime q' = now"
    using signalBytesSent_ok [of rnd seconds now "tx_estimator d" "ucast ?n"] refresh_value [OF r q] by blast
  then show ?thesis using False le sub by (simp only: transmit_def txBurstCallback_def sum Let_def) simp
qed

lemma buffer_mbuf_ok:
  assumes ok: "rte_ok rte buffered" and r: "rounding_ok rnd" "clock_ok seconds"
    and inv: "tx_inv rte buffered d e" and t: "lastUpdateTime (tx_estimator d) \<le> now 0" "now 0 \<le> now 1"
  shows "\<exists>d' e'. buffer_mbuf rnd seconds now rte m d e = Inr (d', e') \<and> tx_inv rte buffered d' e' \<and>
    lastUpdateTime (tx_estimator d') \<le> now 1 \<and> corked d' = corked d"
proof -
  let ?d1 = "d\<lparr>bufferedBytes := bufferedBytes d + of_nat (length (mbuf_data rte m e))\<rparr>"
  obtain burst e1 where tx: "rte_eth_tx_buffer rte m e = (burst, e1)" by fastforce
  obtain burst' e2 where fl: "rte_eth_tx_buffer_flush rte e1 = (burst', e2)" by fastforce
  have all: "bytes_of rte (buffered e @ [m]) e < 2 ^ 64" using rte_keeps(11) [OF ok, of e] by (intro bytes_of_bound [OF ok]) simp
  have m: "bytes_of rte [m] e = length (mbuf_data rte m e)" by (simp add: bytes_of_def)
  have "unat (of_nat (length (mbuf_data rte m e)) :: u64) = length (mbuf_data rte m e)"
    using rte_keeps(10) [OF ok, of m e] by (simp add: unat_of_nat take_bit_nat_eq_self)
  then have d1: "unat (bufferedBytes ?d1) = bytes_of rte (buffered e @ [m]) e"
    using inv all m unat_add_lem [of "bufferedBytes d" "of_nat (length (mbuf_data rte m e)) :: u64"] by (simp add: tx_inv_def)
  have q: "estimator_ok (tx_estimator ?d1)" "lastUpdateTime (tx_estimator ?d1) \<le> now 0" using inv t by (simp_all add: tx_inv_def)
  have cases1: "burst = [] \<and> buffered e1 = buffered e @ [m] \<and> (\<forall>x\<in>set (buffered e @ [m]). mbuf_data rte x e1 = mbuf_data rte x e) \<or>
      burst = buffered e @ [m] \<and> buffered e1 = []" using ok tx unfolding rte_ok_def by blast
  then have rest: "bytes_of rte (buffered e @ [m]) e = bytes_of rte burst e + bytes_of rte (buffered e1) e1"
    using bytes_of_same [of "buffered e @ [m]" rte e1 e] by auto
  obtain d2 where d2: "transmit rnd seconds (now 0) rte burst e ?d1 = Inr d2" "unat (bufferedBytes d2) = bytes_of rte (buffered e1) e1"
    "corked d2 = corked d" "estimator_ok (tx_estimator d2)" "lastUpdateTime (tx_estimator d2) \<le> now 0"
    using transmit_ok [OF r q d1 [unfolded rest]] by auto
  have b': "burst' = buffered e1" "buffered e2 = []" using ok fl unfolding rte_ok_def by blast+
  have t2: "lastUpdateTime (tx_estimator d2) \<le> now 1" using d2(5) t(2) by simp
  have "unat (bufferedBytes d2) = bytes_of rte burst' e1 + 0" using d2(2) b' by simp
  from transmit_ok [OF r d2(4) t2 this] obtain d3 where
    d3: "transmit rnd seconds (now 1) rte burst' e1 d2 = Inr d3" "unat (bufferedBytes d3) = 0" "corked d3 = corked d2"
      "estimator_ok (tx_estimator d3)" "lastUpdateTime (tx_estimator d3) \<le> now 1" by auto
  show ?thesis
  proof (cases "corked d < 1")
    case True
    then have "buffer_mbuf rnd seconds now rte m d e = Inr (d3, e2)"
      using tx fl d2(1,3) d3(1) by (simp add: buffer_mbuf_def Let_def)
    then show ?thesis using d3 d2(3) b'(2) by (simp add: tx_inv_def)
  next
    case False
    then have "buffer_mbuf rnd seconds now rte m d e = Inr (d2, e1)" using tx d2(1,3) by (simp add: buffer_mbuf_def Let_def)
    then show ?thesis using False d2 t2 by (simp add: tx_inv_def)
  qed
qed

lemma send_mbuf_ok:
  assumes ok: "rte_ok rte buffered"
    and own: "\<forall>m k. dp_buf pkt = MBUF m k \<longrightarrow> m \<in> set (buffered e) \<longrightarrow> 1 < rte_mbuf_refcnt_read rte m e"
    and len: "0 \<le> dp_length pkt" "dp_length pkt \<le> int DPDK_MAX_PAYLOAD_SIZE"
  shows "\<exists>r e'. send_mbuf rte pkt d e = Inr (r, e') \<and> keeps rte buffered e e' \<and> (\<forall>m. r = Some m \<longrightarrow> m \<notin> set (buffered e'))"
proof (cases "dp_buf pkt")
  case (MBUF m k)
  then show ?thesis using own by (auto simp: send_mbuf_def keeps_def)
next
  case (OVERFLOW_BUF b)
  obtain r e1 where a: "rte_pktmbuf_alloc rte e = (r, e1)" by fastforce
  note k1 = rte_keeps(1) [OF ok a]
  show ?thesis
  proof (cases r)
    case None
    then show ?thesis using OVERFLOW_BUF a k1 by (simp add: send_mbuf_def)
  next
    case (Some m)
    have m1: "m \<notin> set (buffered e1)" using rte_keeps(2) [OF ok a [unfolded Some]] k1 by (simp add: keeps_def)
    let ?n = "uint (of_nat PACKET_HDR_LEN + word_of_int (dp_length pkt) :: u32)"
    have "of_nat PACKET_HDR_LEN + word_of_int (dp_length pkt) = (word_of_int (22 + dp_length pkt) :: u32)"
      by (simp add: frame_sizes)
    then have "?n = (22 + dp_length pkt) mod 2 ^ 32" by (simp only: uint_word_of_int) simp
    then have "?n = 22 + dp_length pkt" using len by (simp add: frame_sizes)
    then have n: "downCast_u16 ?n = Inr (word_of_int ?n)" using len by (simp add: downCast_u16_iff frame_sizes)
    obtain q e2 where q: "rte_pktmbuf_append rte m (word_of_int ?n) e1 = (q, e2)" by fastforce
    note k2 = keeps_trans [OF k1 rte_keeps(3) [OF ok m1 q]]
    have m2: "m \<notin> set (buffered e2)" using m1 rte_keeps(3) [OF ok m1 q] by (simp add: keeps_def)
    show ?thesis
    proof (cases q)
      case None
      then show ?thesis
        using OVERFLOW_BUF a Some n q keeps_trans [OF k2 rte_keeps(6) [OF ok]] by (simp add: send_mbuf_def)
    next
      case q': (Some off)
      let ?e3 = "mbuf_store rte m (off + PACKET_HDR_LEN) (take (nat (dp_length pkt)) (dd_overflow d b)) e2"
      have k3: "keeps rte buffered e2 ?e3" using rte_keeps(4) [OF ok m2] .
      have "send_mbuf rte pkt d e = Inr (Some m, ?e3)" using OVERFLOW_BUF a Some n q q' by (simp add: send_mbuf_def)
      then show ?thesis using keeps_trans [OF k2 k3] k3 m2 by (simp add: keeps_def)
    qed
  qed
qed

lemma loopback_keeps: "rte_ok rte buffered \<Longrightarrow> keeps rte buffered e (loopback rte m e)"
proof -
  assume ok: "rte_ok rte buffered"
  obtain c e1 where c: "rte_pktmbuf_clone rte m e = (c, e1)" by fastforce
  note k1 = rte_keeps(8) [OF ok c]
  show ?thesis
  proof (cases c)
    case None
    then show ?thesis using c k1 by (simp add: loopback_def)
  next
    case (Some x)
    obtain ret e2 where q: "rte_ring_enqueue rte x e1 = (ret, e2)" by fastforce
    note k2 = keeps_trans [OF k1 rte_keeps(9) [OF ok q]]
    show ?thesis using c Some q k2 keeps_trans [OF k2 rte_keeps(6) [OF ok]] by (simp add: loopback_def)
  qed
qed

lemma trim_keeps: "rte_ok rte buffered \<Longrightarrow> m \<notin> set (buffered e) \<Longrightarrow> keeps rte buffered e (trim_mbuf rte m pkt e)"
  unfolding trim_mbuf_def Let_def using rte_keeps(5) [of rte buffered m e] by (simp only: split: if_split) (simp add: keeps_def)

text \<open>Sending neither fails nor loses count, corked or not; a packet may be dropped.\<close>

lemma send_ok:
  assumes ok: "rte_ok rte buffered" and r: "rounding_ok rnd" "clock_ok seconds"
    and inv: "tx_inv rte buffered d e" and t: "lastUpdateTime (tx_estimator d) \<le> now 0" "now 0 \<le> now 1"
    and pkt: "dd_packets d a = Some pkt" "0 \<le> dp_length pkt" "dp_length pkt \<le> int DPDK_MAX_PAYLOAD_SIZE"
    and own: "\<forall>m k. dp_buf pkt = MBUF m k \<longrightarrow> m \<in> set (buffered e) \<longrightarrow> 1 < rte_mbuf_refcnt_read rte m e"
    and prio: "0 \<le> prio" "prio < 8"
  shows "\<exists>d' e'. dd_sendPacket rnd seconds now rte a dst prio d e = Inr (d', e') \<and> tx_inv rte buffered d' e' \<and>
    lastUpdateTime (tx_estimator d') \<le> now 1 \<and> corked d' = corked d"
proof -
  obtain q e1 where s: "send_mbuf rte pkt d e = Inr (q, e1)" "keeps rte buffered e e1" "\<forall>m. q = Some m \<longrightarrow> m \<notin> set (buffered e1)"
    using send_mbuf_ok [OF ok own pkt(2,3), of d] by blast
  note inv1 = tx_inv_keeps [OF inv s(2)]
  have p: "0 \<le> prio \<and> nat prio < length PRIORITY_TO_PCP" using prio by (simp add: PRIORITY_TO_PCP_def)
  have t': "lastUpdateTime (tx_estimator d) \<le> now 1" using t by simp
  show ?thesis
  proof (cases q)
    case None
    then show ?thesis using pkt(1) s(1) inv1 t' by (simp add: dd_sendPacket_def)
  next
    case (Some m)
    show ?thesis
    proof (cases "arpTable d dst")
      case None
      then show ?thesis using pkt(1) s(1) Some inv1 t' by (simp add: dd_sendPacket_def)
    next
      case mac: (Some destMac)
      let ?e2 = "mbuf_store rte m 0 (frame_header destMac (localMac d) prio (localIp d)) e1"
      let ?e3 = "trim_mbuf rte m pkt ?e2"
      let ?e4 = "case dp_buf pkt of MBUF _ _ \<Rightarrow> rte_pktmbuf_refcnt_update rte m 1 ?e3 | OVERFLOW_BUF _ \<Rightarrow> ?e3"
      have m1: "m \<notin> set (buffered e1)" using s(3) Some by blast
      note k2 = rte_keeps(4) [OF ok m1, of 0 "frame_header destMac (localMac d) prio (localIp d)"]
      have m2: "m \<notin> set (buffered ?e2)" using k2 m1 by (simp add: keeps_def)
      note k3 = keeps_trans [OF k2 trim_keeps [OF ok m2, of pkt]]
      have k4: "keeps rte buffered e1 ?e4" using k3 keeps_trans [OF k3 rte_keeps(7) [OF ok]] by (simp split: bufRef.split)
      have send: "dd_sendPacket rnd seconds now rte a dst prio d e =
          (if mac_eq (localMac d) destMac then Inr (d, loopback rte m ?e3) else buffer_mbuf rnd seconds now rte m d ?e4)"
        using pkt(1) s(1) Some mac p by (simp add: dd_sendPacket_def Let_def)
      show ?thesis
      proof (cases "mac_eq (localMac d) destMac")
        case True
        then show ?thesis
          using send t' tx_inv_keeps [OF inv1 keeps_trans [OF k3 loopback_keeps [OF ok]]] by simp
      next
        case False
        then show ?thesis using send buffer_mbuf_ok [OF ok r tx_inv_keeps [OF inv1 k4] t] by simp
      qed
    qed
  qed
qed

lemma cork_ok: "tx_inv rte buffered d e \<Longrightarrow> 0 \<le> corked d \<Longrightarrow> tx_inv rte buffered (dd_cork d) e"
  by (simp add: tx_inv_def dd_cork_def)

lemma uncork_ok:
  assumes ok: "rte_ok rte buffered" and r: "rounding_ok rnd" "clock_ok seconds"
    and inv: "tx_inv rte buffered d e" and t: "lastUpdateTime (tx_estimator d) \<le> now"
  shows "\<exists>d' e'. dd_uncork rnd seconds now rte d e = Inr (d', e') \<and> tx_inv rte buffered d' e' \<and> corked d' = corked d - 1 \<and>
    (corked d = 1 \<longrightarrow> buffered e' = [])"
proof (cases "corked d = 1")
  case True
  obtain burst e1 where fl: "rte_eth_tx_buffer_flush rte e = (burst, e1)" by fastforce
  have b: "burst = buffered e" "buffered e1 = []" using ok fl unfolding rte_ok_def by blast+
  let ?d1 = "d\<lparr>corked := corked d - 1\<rparr>"
  have "unat (bufferedBytes ?d1) = bytes_of rte burst e + 0" "estimator_ok (tx_estimator ?d1)"
    "lastUpdateTime (tx_estimator ?d1) \<le> now" using inv b t by (simp_all add: tx_inv_def)
  from transmit_ok [OF r this(2,3,1)] obtain d2 where
    "transmit rnd seconds now rte burst e ?d1 = Inr d2" "unat (bufferedBytes d2) = 0" "corked d2 = corked d - 1"
    "estimator_ok (tx_estimator d2)" by auto
  then show ?thesis using True fl b(2) by (simp add: dd_uncork_def tx_inv_def)
next
  case False
  then show ?thesis using inv by (simp add: dd_uncork_def tx_inv_def)
qed

section \<open>Frames that are sent\<close>

text \<open>The frame handed to the card has the header in front of the payload and ends with it.\<close>

lemma frame_sent:
  assumes data: "data_ok rte" and mac: "length (address destMac) = 6" "length (address srcMac) = 6"
    and len: "dp_length pkt = int n" "PACKET_HDR_LEN + n \<le> length (mbuf_data rte m e)" "length (mbuf_data rte m e) < 2 ^ 16"
  shows "mbuf_data rte m (trim_mbuf rte m pkt (mbuf_store rte m 0 (frame_header destMac srcMac prio ip) e)) =
    frame_header destMac srcMac prio ip @ take n (drop PACKET_HDR_LEN (mbuf_data rte m e))"
proof -
  let ?h = "frame_header destMac srcMac prio ip" and ?x = "mbuf_data rte m e"
  let ?e = "mbuf_store rte m 0 ?h e"
  have h: "length ?h = PACKET_HDR_LEN" using length_frame_header [OF mac] .
  have y: "mbuf_data rte m ?e = ?h @ drop PACKET_HDR_LEN ?x"
    using data h len(2) unfolding data_ok_def by (simp add: memcpy_def)
  then have l: "length (mbuf_data rte m ?e) = length ?x" using h len(2) by simp
  have "of_nat PACKET_HDR_LEN + word_of_int (int n) = (of_nat (PACKET_HDR_LEN + n) :: u32)" by simp
  then have a: "unat (of_nat PACKET_HDR_LEN + word_of_int (dp_length pkt) :: u32) = PACKET_HDR_LEN + n"
    unfolding len(1) using len(2,3) by (simp only: unat_of_nat) (simp add: take_bit_nat_eq_self)
  show ?thesis
  proof (cases "PACKET_HDR_LEN + n < length ?x")
    case True
    let ?k = "of_nat (length ?x - (PACKET_HDR_LEN + n)) :: u16"
    have k: "unat ?k = length ?x - (PACKET_HDR_LEN + n)" using len(3) by (simp add: unat_of_nat take_bit_nat_eq_self)
    have t: "trim_mbuf rte m pkt ?e = snd (rte_pktmbuf_trim rte m ?k ?e)"
      using True unfolding trim_mbuf_def a l Let_def by (rule if_P)
    have d: "mbuf_data rte m (snd (rte_pktmbuf_trim rte m ?k ?e)) = take (length ?x - unat ?k) (mbuf_data rte m ?e)"
      using data k l unfolding data_ok_def by (metis diff_le_self)
    have z: "length ?x - unat ?k = PACKET_HDR_LEN + n" unfolding k using len(2) by simp
    show ?thesis unfolding t d z y using h by simp
  next
    case False
    then have "trim_mbuf rte m pkt ?e = ?e" by (simp add: trim_mbuf_def a l)
    then show ?thesis using y False len(2) by simp
  qed
qed

text \<open>The host that receives it reads the address of the sender and the payload.\<close>

lemma frame_received:
  assumes "data_ok rte" "length (address destMac) = 6" "length (address srcMac) = 6"
    "dp_length pkt = int n" "n \<le> DPDK_MAX_PAYLOAD_SIZE"
    "PACKET_HDR_LEN + n \<le> length (mbuf_data rte m e)" "length (mbuf_data rte m e) < 2 ^ 16"
    "frame = mbuf_data rte m (trim_mbuf rte m pkt (mbuf_store rte m 0 (frame_header destMac srcMac prio ip) e))"
  shows "parse_frame hw frame = Inr (Some (ip, PACKET_HDR_LEN))" "drop PACKET_HDR_LEN frame = take n (drop PACKET_HDR_LEN (mbuf_data rte m e))"
proof -
  let ?p = "take n (drop PACKET_HDR_LEN (mbuf_data rte m e))"
  have f: "frame = frame_header destMac srcMac prio ip @ ?p" unfolding assms(8) by (rule frame_sent [OF assms(1-4,6,7)])
  have "length ?p \<le> DPDK_MAX_PAYLOAD_SIZE" using assms(5) by simp
  then show "parse_frame hw frame = Inr (Some (ip, PACKET_HDR_LEN))" unfolding f by (rule frame_round_trip [OF assms(2,3)])
  show "drop PACKET_HDR_LEN frame = ?p" unfolding f using length_frame_header [OF assms(2,3)] by simp
qed

end
