(* ===== verification/StringUtil.thy ===== *)
theory StringUtil
  imports Addresses
begin

text \<open>
  The functions on strings of src/StringUtil.h and src/StringUtil.cc, and \<open>ThreadId\<close> of src/ThreadId.h and
  src/ThreadId.cc, which uses them for names. \<open>replaceAll\<close> searches and replaces in place and need
  not end: it is a partial function, whose value is None when the loop runs forever.
\<close>

section \<open>Printable text\<close>

text \<open>\<open>char\<close> is signed: a code above 127 is negative.\<close>

definition display :: "char \<Rightarrow> bool" where
  "display c \<longleftrightarrow> 32 \<le> code c \<and> code c < 127"

definition isPrintable_data :: "string \<Rightarrow> bool" where
  "isPrintable_data data \<longleftrightarrow> length data \<ge> 1 \<and> code (last data) = 0 \<and> list_all display (butlast data)"

definition isPrintable :: "string \<Rightarrow> bool" where
  "isPrintable str = isPrintable_data (str @ [char_of (0 :: nat)])"

section \<open>Formatting\<close>

text \<open>\<open>c_str\<close> of a string ends at its first null for the functions of C.\<close>

definition c_str :: "string \<Rightarrow> string" where
  "c_str s = takeWhile (\<lambda>c. code c \<noteq> 0) s"

text \<open>\<open>vsnprintf\<close> writes as much of the formatted text as fits before a terminating null and returns the
  length of all of it, which has to be an \<open>int\<close>. \<open>out\<close> is the formatted text.\<close>

definition vsnprintf :: "nat \<Rightarrow> string \<Rightarrow> string \<times> int" where
  "vsnprintf bufSize out = (take (bufSize - 1) out, if int (length out) < 2 ^ 31 then int (length out) else - 1)"

function format_loop :: "nat \<Rightarrow> string \<Rightarrow> string res" where
  "format_loop bufSize out =
     (let (buf, r) = vsnprintf bufSize out
      in require AssertionFailed (r \<ge> 0)
         (if nat r < bufSize then Inr (c_str buf) else format_loop (nat r + 1) out))"
  by auto

termination
  by (relation "measure (\<lambda>(bufSize, out). length out + 1 - bufSize)") (auto simp: vsnprintf_def split: if_splits)

declare format_loop.simps [simp del]

definition format :: "string \<Rightarrow> string res" where
  "format out = format_loop 1024 out"

text \<open>However long the text is, all of it is returned.\<close>

lemma format_loop_ok:
  assumes "int (length out) < 2 ^ 31" "\<forall>c\<in>set out. code c \<noteq> 0"
  shows "format_loop bufSize out = Inr out"
proof -
  have all: "c_str out = out" using assms(2) by (simp add: c_str_def takeWhile_eq_all_conv)
  have fits: "format_loop n out = Inr out" if "length out < n" for n
    using that assms(1) all by (subst format_loop.simps) (simp add: vsnprintf_def)
  show ?thesis
  proof (cases "length out < bufSize")
    case False
    then have "format_loop bufSize out = format_loop (length out + 1) out"
      using assms(1) by (subst format_loop.simps) (simp add: vsnprintf_def)
    then show ?thesis using fits by simp
  qed (rule fits)
qed

lemma format_ok: "int (length out) < 2 ^ 31 \<Longrightarrow> \<forall>c\<in>set out. code c \<noteq> 0 \<Longrightarrow> format out = Inr out"
  unfolding format_def by (rule format_loop_ok)

section \<open>Joining and splitting\<close>

fun join :: "string list \<Rightarrow> string \<Rightarrow> string" where
  "join [] glue = []"
| "join [c] glue = c"
| "join (c # d # cs) glue = c @ glue @ join (d # cs) glue"

text \<open>\<open>std::getline\<close> reads up to the delimiter and drops it; it fails when there is nothing left to
  read.\<close>

function split_loop :: "string \<Rightarrow> char \<Rightarrow> string list" where
  "split_loop stream delimiter =
     (if stream = [] then []
      else takeWhile (\<lambda>c. c \<noteq> delimiter) stream # split_loop (tl (dropWhile (\<lambda>c. c \<noteq> delimiter) stream)) delimiter)"
  by auto

termination
proof (relation "measure (length \<circ> fst)")
  fix stream :: string and delimiter
  assume "stream \<noteq> []"
  let ?rest = "dropWhile (\<lambda>c. c \<noteq> delimiter) stream"
  have "length ?rest \<le> length stream" "0 < length stream" using \<open>stream \<noteq> []\<close> length_dropWhile_le by auto
  then have "length ?rest - 1 < length stream" by linarith
  then show "((tl ?rest, delimiter), stream, delimiter) \<in> measure (length \<circ> fst)" by (simp only: in_measure comp_apply fst_conv length_tl)
qed simp

declare split_loop.simps [simp del]

definition split :: "string \<Rightarrow> char \<Rightarrow> string list" where
  "split subject delimiter = split_loop subject delimiter"

lemma split_loop_Nil [simp]: "split_loop [] delimiter = []"
  by (subst split_loop.simps) simp

lemma split_loop_item:
  "s \<noteq> [] \<Longrightarrow> split_loop s delimiter =
     takeWhile (\<lambda>c. c \<noteq> delimiter) s # split_loop (tl (dropWhile (\<lambda>c. c \<noteq> delimiter) s)) delimiter"
  by (subst split_loop.simps) simp

lemma split_last: "delimiter \<notin> set item \<Longrightarrow> item \<noteq> [] \<Longrightarrow> split_loop item delimiter = [item]"
proof -
  assume i: "delimiter \<notin> set item" "item \<noteq> []"
  then have "takeWhile (\<lambda>c. c \<noteq> delimiter) item = item" "dropWhile (\<lambda>c. c \<noteq> delimiter) item = []" by auto
  then show ?thesis unfolding split_loop_item [OF i(2)] by (simp only: list.sel split_loop_Nil)
qed

lemma split_item:
  "delimiter \<notin> set item \<Longrightarrow> split_loop (item @ delimiter # rest) delimiter = item # split_loop rest delimiter"
proof -
  assume "delimiter \<notin> set item"
  then have "takeWhile (\<lambda>c. c \<noteq> delimiter) (item @ delimiter # rest) = item"
    "dropWhile (\<lambda>c. c \<noteq> delimiter) (item @ delimiter # rest) = delimiter # rest"
    by (induction item) auto
  then show ?thesis using split_loop_item [of "item @ delimiter # rest" delimiter] by simp
qed

lemma split_join:
  assumes "items \<noteq> []" "last items \<noteq> []" "\<forall>i\<in>set items. delimiter \<notin> set i"
  shows "split (join items [delimiter]) delimiter = items"
  using assms unfolding split_def
proof (induction items "[delimiter]" rule: join.induct)
  case (2 c)
  then show ?case using split_last [of delimiter c] by simp
next
  case (3 c d cs)
  then show ?case using split_item [of delimiter c "join (d # cs) [delimiter]"] by simp
qed simp

lemma join_split:
  assumes "s \<noteq> []" "last s \<noteq> delimiter"
  shows "join (split s delimiter) [delimiter] = s"
  using assms unfolding split_def
proof (induction s delimiter rule: split_loop.induct)
  case (1 s delimiter)
  let ?item = "takeWhile (\<lambda>c. c \<noteq> delimiter) s" and ?rest = "dropWhile (\<lambda>c. c \<noteq> delimiter) s"
  have s: "s = ?item @ ?rest" by simp
  show ?case
  proof (cases ?rest)
    case Nil
    then have "s = ?item" using s by (metis append_Nil2)
    moreover have "split_loop s delimiter = [?item]"
      unfolding split_loop_item [OF 1(2)] Nil by (simp only: list.sel split_loop_Nil)
    ultimately show ?thesis by (simp only: join.simps)
  next
    case (Cons c t)
    then have c: "c = delimiter" using hd_dropWhile [of "\<lambda>c. c \<noteq> delimiter" s] by simp
    have t: "t \<noteq> []" "last t \<noteq> delimiter" using 1(3) s Cons c by (metis last_appendR last.simps list.discI)+
    have IH: "join (split_loop t delimiter) [delimiter] = t" using 1(1) [OF 1(2)] Cons t by simp
    have ne: "split_loop t delimiter \<noteq> []" using split_loop_item [OF t(1)] by simp
    have "split_loop s delimiter = ?item # split_loop t delimiter" using split_loop_item [OF 1(2)] Cons by simp
    then have "join (split_loop s delimiter) [delimiter] = ?item @ [delimiter] @ join (split_loop t delimiter) [delimiter]"
      using ne by (cases "split_loop t delimiter") simp_all
    also have "\<dots> = s" using IH s Cons c by simp
    finally show ?thesis .
  qed
qed

section \<open>Searching\<close>

definition startsWith :: "string \<Rightarrow> string \<Rightarrow> bool" where
  "startsWith haystack needle \<longleftrightarrow> take (length needle) haystack = needle"

definition endsWith :: "string \<Rightarrow> string \<Rightarrow> bool" where
  "endsWith haystack needle \<longleftrightarrow>
     (if length haystack < length needle then False
      else take (length needle) (drop (length haystack - length needle) haystack) = needle)"

definition trim :: "string \<Rightarrow> string" where
  "trim original =
     (let s = rev (dropWhile is_space (rev original)) in dropWhile is_space s)"

text \<open>The first position of \<open>needle\<close> in a string, and \<open>std::string::find\<close> from a position on.\<close>

fun first_in :: "string \<Rightarrow> string \<Rightarrow> nat option" where
  "first_in [] needle = (if needle = [] then Some 0 else None)"
| "first_in (c # cs) needle =
     (if startsWith (c # cs) needle then Some 0 else map_option Suc (first_in cs needle))"

definition string_find :: "string \<Rightarrow> string \<Rightarrow> nat \<Rightarrow> nat option" where
  "string_find haystack needle startPos =
     (if length haystack < startPos then None
      else map_option ((+) startPos) (first_in (drop startPos haystack) needle))"

definition string_replace :: "string \<Rightarrow> nat \<Rightarrow> nat \<Rightarrow> string \<Rightarrow> string" where
  "string_replace s pos n replacement = take pos s @ replacement @ drop (pos + n) s"

partial_function (option) replaceAll_loop :: "string \<Rightarrow> string \<Rightarrow> nat \<Rightarrow> string \<Rightarrow> string option" where
  "replaceAll_loop needle replacement startPos haystack =
     (case string_find haystack needle startPos of
        None \<Rightarrow> Some haystack
      | Some replacePos \<Rightarrow>
          replaceAll_loop needle replacement (replacePos + length replacement)
            (string_replace haystack replacePos (length needle) replacement))"

definition replaceAll :: "string \<Rightarrow> string \<Rightarrow> string \<Rightarrow> string option" where
  "replaceAll haystack needle replacement = replaceAll_loop needle replacement 0 haystack"

text \<open>The meaning: every occurrence, from left to right and not overlapping, is replaced.\<close>

function replaced :: "string \<Rightarrow> string \<Rightarrow> string \<Rightarrow> string" where
  "replaced needle replacement s =
     (case s of
        [] \<Rightarrow> []
      | c # cs \<Rightarrow>
          if startsWith s needle \<and> needle \<noteq> [] then replacement @ replaced needle replacement (drop (length needle) s)
          else c # replaced needle replacement cs)"
  by auto

termination by (relation "measure (\<lambda>(_, _, s). length s)") auto

declare replaced.simps [simp del]

lemma replaced_first:
  assumes "needle \<noteq> []"
  shows "replaced needle replacement s =
    (case first_in s needle of
       None \<Rightarrow> s
     | Some i \<Rightarrow> take i s @ replacement @ replaced needle replacement (drop (i + length needle) s))"
proof (induction s)
  case Nil
  then show ?case using assms by (subst replaced.simps) simp
next
  case (Cons c cs)
  show ?case
  proof (cases "startsWith (c # cs) needle")
    case True
    then show ?thesis using assms by (subst replaced.simps) simp
  next
    case False
    then have "replaced needle replacement (c # cs) = c # replaced needle replacement cs" by (subst replaced.simps) simp
    with Cons.IH False show ?thesis by (cases "first_in cs needle") simp_all
  qed
qed

lemma first_in_bound: "first_in s needle = Some i \<Longrightarrow> i + length needle \<le> length s"
proof (induction s arbitrary: i)
  case (Cons c cs)
  show ?case
  proof (cases "startsWith (c # cs) needle")
    case True
    then have "length needle \<le> length (c # cs)" unfolding startsWith_def by (metis length_take min.cobounded1)
    with True Cons.prems show ?thesis by simp
  qed (use Cons in auto)
qed (simp split: if_splits)

lemma replaceAll_loop_ok:
  assumes "needle \<noteq> []"
  shows "replaceAll_loop needle replacement (length done) (done @ s) = Some (done @ replaced needle replacement s)"
proof (induction "length s" arbitrary: "done" s rule: less_induct)
  case less
  have find: "string_find (done @ s) needle (length done) = map_option ((+) (length done)) (first_in s needle)"
    by (simp add: string_find_def)
  show ?case
  proof (cases "first_in s needle")
    case None
    then show ?thesis
      using replaced_first [OF assms, of replacement s] find by (subst replaceAll_loop.simps) simp
  next
    case (Some i)
    let ?done = "done @ take i s @ replacement" and ?s = "drop (i + length needle) s"
    have i: "i + length needle \<le> length s" using first_in_bound [OF Some] .
    have d: "length ?done = length done + i + length replacement" using i by simp
    have "length ?s < length s" using i assms by (cases needle) auto
    then have "replaceAll_loop needle replacement (length ?done) (?done @ ?s) = Some (?done @ replaced needle replacement ?s)"
      by (rule less)
    moreover have "string_replace (done @ s) (length done + i) (length needle) replacement = ?done @ ?s"
      by (simp add: string_replace_def add.assoc)
    ultimately show ?thesis
      using replaced_first [OF assms, of replacement s] Some find
      by (subst replaceAll_loop.simps) (simp add: min_absorb2 [OF add_leD1 [OF i]] add.assoc)
  qed
qed

lemma replaceAll_ok: "needle \<noteq> [] \<Longrightarrow> replaceAll s needle replacement = Some (replaced needle replacement s)"
  using replaceAll_loop_ok [of needle replacement "[]" s] by (simp add: replaceAll_def)

text \<open>The empty string occurs everywhere, so that the search for it never ends.\<close>

lemma find_empty: "startPos \<le> length s \<Longrightarrow> string_find s [] startPos = Some startPos"
  by (cases "drop startPos s") (simp_all add: string_find_def startsWith_def)

lemma replaceAll_loop_empty:
  assumes "replaceAll_loop needle replacement startPos s = Some y"
  shows "needle = [] \<longrightarrow> startPos \<le> length s \<longrightarrow> False"
proof (rule replaceAll_loop.raw_induct
    [where P = "\<lambda>needle replacement startPos s y. needle = [] \<longrightarrow> startPos \<le> length s \<longrightarrow> False", OF _ assms], intro impI)
  fix loop :: "string \<Rightarrow> string \<Rightarrow> nat \<Rightarrow> string \<Rightarrow> string option" and needle replacement startPos s y
  assume IH: "\<And>needle replacement startPos s y. loop needle replacement startPos s = Some y \<Longrightarrow>
      needle = [] \<longrightarrow> startPos \<le> length s \<longrightarrow> False"
    and step: "(case string_find s needle startPos of None \<Rightarrow> Some s
      | Some replacePos \<Rightarrow> loop needle replacement (replacePos + length replacement)
          (string_replace s replacePos (length needle) replacement)) = Some y"
    and n: "needle = []" "startPos \<le> length s"
  let ?s = "string_replace s startPos 0 replacement"
  have "loop needle replacement (startPos + length replacement) ?s = Some y"
    using step n find_empty [of startPos s] by simp
  moreover have "startPos + length replacement \<le> length ?s" using n(2) by (simp add: string_replace_def)
  ultimately show False using IH n(1) by blast
qed

lemma replaceAll_empty: "replaceAll s [] replacement = None"
  using replaceAll_loop_empty [of "[]" replacement 0 s] by (cases "replaceAll s [] replacement") (auto simp: replaceAll_def)

section \<open>Flags\<close>

text \<open>\<open>%x\<close> of an unsigned number.\<close>

fun hexadecimal :: "nat \<Rightarrow> string" where
  "hexadecimal n = (if n < 16 then [digit n] else hexadecimal (n div 16) @ [digit (n mod 16)])"

declare hexadecimal.simps [simp del]

fun flag_names :: "u32 \<Rightarrow> (u32 \<times> string) list \<Rightarrow> u32 \<times> string list" where
  "flag_names val [] = (val, [])"
| "flag_names val ((flag, name) # fs) =
     (if val AND flag \<noteq> 0 then let (v, ns) = flag_names (val AND NOT flag) fs in (v, name # ns)
      else flag_names val fs)"

definition flags :: "u32 \<Rightarrow> (u32 \<times> string) list \<Rightarrow> string" where
  "flags val fs =
     (if val = 0 then ''0''
      else let (rest, strings) = flag_names val fs
           in join (if rest \<noteq> 0 then strings @ [''0x'' @ hexadecimal (unat rest)] else strings) ''|'')"

text \<open>What is left over when all names are taken is no bit of any flag.\<close>

lemma flag_names_rest: "fst (flag_names val fs) = val AND NOT (foldr (OR) (map fst fs) 0)"
proof (induction val fs rule: flag_names.induct)
  case (2 val flag name fs)
  show ?case
  proof (cases "val AND flag = 0")
    case True
    have "\<not> bit (val AND flag) n" for n unfolding True by simp
    then have "\<not> (bit val n \<and> bit flag n)" for n by (simp add: bit_simps)
    then have "val AND NOT flag = val" by (intro bit_word_eqI) (auto simp: bit_simps)
    then have "val AND NOT (flag OR x) = val AND NOT x" for x unfolding bit.de_Morgan_disj and.assoc [symmetric] by simp
    with 2(2) True show ?thesis by simp
  next
    case False
    then have "fst (flag_names val ((flag, name) # fs)) = fst (flag_names (val AND NOT flag) fs)" by (simp add: case_prod_beta Let_def)
    also have "\<dots> = (val AND NOT flag) AND NOT (foldr (OR) (map fst fs) 0)" using 2(1) False by blast
    finally show ?thesis unfolding and.assoc bit.de_Morgan_disj [symmetric] by simp
  qed
qed simp

section \<open>Threads\<close>

text \<open>The identifier of every thread, zero before it is first asked for, the next one that is not in
  use, and the names that were set.\<close>

record threads =
  thread_id :: "nat \<Rightarrow> u64"
  nextId :: u64
  threadNames :: "u64 \<rightharpoonup> string"

definition threads_start :: threads where
  "threads_start = \<lparr>thread_id = (\<lambda>_. 0), nextId = 1, threadNames = Map.empty\<rparr>"

definition assign :: "nat \<Rightarrow> threads \<Rightarrow> threads" where
  "assign t s = s\<lparr>thread_id := (thread_id s)(t := nextId s), nextId := nextId s + 1\<rparr>"

definition getId :: "nat \<Rightarrow> threads \<Rightarrow> u64 \<times> threads" where
  "getId t s = (let s' = (if thread_id s t = 0 then assign t s else s) in (thread_id s' t, s'))"

definition setName :: "nat \<Rightarrow> string \<Rightarrow> threads \<Rightarrow> threads" where
  "setName t name s =
     (let (i, s') = getId t s
      in s'\<lparr>threadNames := (threadNames s')(i := if name = [] then None else Some name)\<rparr>)"

definition getName :: "nat \<Rightarrow> threads \<Rightarrow> string \<times> threads" where
  "getName t s =
     (let (i, s') = getId t s
      in (case threadNames s' i of None \<Rightarrow> ''thread '' @ decimal (unat i) | Some name \<Rightarrow> name, s'))"

text \<open>Identifiers are different as long as there are fewer than \<open>2^64\<close> of them.\<close>

definition threads_ok :: "threads \<Rightarrow> bool" where
  "threads_ok s \<longleftrightarrow>
     nextId s \<noteq> 0 \<and> (\<forall>t. thread_id s t < nextId s) \<and>
     (\<forall>t u. thread_id s t = thread_id s u \<and> thread_id s t \<noteq> 0 \<longrightarrow> t = u)"

lemma threads_start_ok: "threads_ok threads_start"
  by (simp add: threads_ok_def threads_start_def word_less_nat_alt)

lemma getId_ok:
  assumes ok: "threads_ok s" and room: "nextId s \<noteq> - 1"
  shows "threads_ok (snd (getId t s))" "fst (getId t s) \<noteq> 0" "fst (getId t (snd (getId t s))) = fst (getId t s)"
    "u \<noteq> t \<Longrightarrow> fst (getId t s) \<noteq> thread_id s u" "threadNames (snd (getId t s)) = threadNames s"
    "thread_id (snd (getId t s)) t = fst (getId t s)"
proof -
  have n: "nextId s < nextId s + 1" using less_increment [OF room] .
  have l: "thread_id s v < nextId s" for v using ok by (simp add: threads_ok_def)
  have "nextId s + 1 \<noteq> 0" "thread_id s v \<noteq> nextId s" "nextId s \<noteq> thread_id s v" for v using n l [of v] by auto
  then show "threads_ok (snd (getId t s))"
    using ok n l less_trans [OF l n] by (auto simp: threads_ok_def getId_def assign_def Let_def)
  show "fst (getId t s) \<noteq> 0" using ok by (simp add: getId_def assign_def Let_def threads_ok_def)
  show "fst (getId t (snd (getId t s))) = fst (getId t s)" using ok by (simp add: getId_def assign_def Let_def threads_ok_def)
  show "u \<noteq> t \<Longrightarrow> fst (getId t s) \<noteq> thread_id s u"
    using ok l [of u] by (auto simp: getId_def assign_def Let_def threads_ok_def)
  show "threadNames (snd (getId t s)) = threadNames s" "thread_id (snd (getId t s)) t = fst (getId t s)"
    by (simp_all add: getId_def assign_def Let_def)
qed

lemma getName_setName:
  assumes "threads_ok s" "nextId s \<noteq> - 1"
  shows "fst (getName t (setName t name s)) = (if name = [] then ''thread '' @ decimal (unat (fst (getId t s))) else name)"
proof -
  let ?s = "snd (getId t s)" and ?i = "fst (getId t s)"
  have "getId t (?s\<lparr>threadNames := m\<rparr>) = (?i, ?s\<lparr>threadNames := m\<rparr>)" for m
    using getId_ok(2,6) [OF assms, of t] by (simp add: getId_def Let_def)
  then show ?thesis by (simp add: setName_def getName_def case_prod_beta Let_def)
qed

end
