(* ===== verification/Debug.thy ===== *)
theory Debug
  imports StringUtil
begin

text \<open>
  The log of include/Homa/Debug.h, src/Debug.h and src/Debug.cc: levels, policies, the cache of the levels
  of files and the message that is handed to a callback or printed. \<open>file\<close> is the value of
  \<open>__FILE__\<close> in src/Debug.cc; the address of a file name, a string literal, is the key of the cache,
  and \<open>literal\<close> is the string at an address.
\<close>

section \<open>Messages\<close>

record debugMessage =
  filename :: string
  linenum :: int
  function_name :: string
  logLevel :: int
  logLevelString :: string
  dm_processName :: string
  dm_threadName :: string
  dm_message :: string

definition DebugMessage_copy :: "debugMessage \<Rightarrow> debugMessage" where
  "DebugMessage_copy other =
     \<lparr>filename = filename other, linenum = linenum other, function_name = function_name other,
      logLevel = logLevel other, logLevelString = logLevelString other,
      dm_processName = dm_processName other, dm_threadName = dm_threadName other, dm_message = dm_message other\<rparr>"

text \<open>The copy assignment assigns the names of process and thread to themselves.\<close>

definition DebugMessage_assign :: "debugMessage \<Rightarrow> debugMessage \<Rightarrow> debugMessage" where
  "DebugMessage_assign m other =
     m\<lparr>filename := filename other, linenum := linenum other, function_name := function_name other,
       logLevel := logLevel other, logLevelString := logLevelString other,
       dm_processName := dm_processName m, dm_threadName := dm_threadName m, dm_message := dm_message other\<rparr>"

definition DebugMessage_move_assign :: "debugMessage \<Rightarrow> debugMessage \<Rightarrow> debugMessage" where
  "DebugMessage_move_assign m other =
     m\<lparr>filename := filename other, linenum := linenum other, function_name := function_name other,
       logLevel := logLevel other, logLevelString := logLevelString other,
       dm_processName := dm_processName other, dm_threadName := dm_threadName other, dm_message := dm_message other\<rparr>"

lemma DebugMessage_copies: "DebugMessage_copy other = other" "DebugMessage_move_assign m other = other"
  by (simp_all add: DebugMessage_copy_def DebugMessage_move_assign_def)

lemma DebugMessage_assign_keeps_names:
  "DebugMessage_assign m other = other \<longleftrightarrow>
     dm_processName m = dm_processName other \<and> dm_threadName m = dm_threadName other"
  by (cases m, cases other) (simp add: DebugMessage_assign_def)

section \<open>Levels\<close>

datatype log_level = SILENT | ERROR | WARNING | NOTICE | VERBOSE

fun level_value :: "log_level \<Rightarrow> u32" where
  "level_value SILENT = 0"
| "level_value ERROR = 10"
| "level_value WARNING = 20"
| "level_value NOTICE = 30"
| "level_value VERBOSE = 40"

fun logLevelToString :: "log_level \<Rightarrow> string" where
  "logLevelToString SILENT = ''SILENT''"
| "logLevelToString ERROR = ''ERROR''"
| "logLevelToString WARNING = ''WARNING''"
| "logLevelToString NOTICE = ''NOTICE''"
| "logLevelToString VERBOSE = ''VERBOSE''"

definition tolower :: "char \<Rightarrow> char" where
  "tolower c = (if 65 \<le> code c \<and> code c \<le> 90 then char_of (code c + 32) else c)"

definition strcasecmp_eq :: "string \<Rightarrow> string \<Rightarrow> bool" where
  "strcasecmp_eq a b \<longleftrightarrow> map tolower a = map tolower b"

definition logLevelFromString :: "string \<Rightarrow> log_level res" where
  "logLevelFromString level =
     (if strcasecmp_eq (c_str level) ''SILENT'' then Inr SILENT
      else if strcasecmp_eq (c_str level) ''ERROR'' then Inr ERROR
      else if strcasecmp_eq (c_str level) ''WARNING'' then Inr WARNING
      else if strcasecmp_eq (c_str level) ''NOTICE'' then Inr NOTICE
      else if strcasecmp_eq (c_str level) ''VERBOSE'' then Inr VERBOSE
      else Inl Panic)"

lemma level_names:
  "logLevelFromString ''SILENT'' = Inr SILENT" "logLevelFromString ''ERROR'' = Inr ERROR"
  "logLevelFromString ''WARNING'' = Inr WARNING" "logLevelFromString ''NOTICE'' = Inr NOTICE"
  "logLevelFromString ''VERBOSE'' = Inr VERBOSE"
  by (simp_all add: logLevelFromString_def strcasecmp_eq_def c_str_def tolower_def code_def)

lemma level_round_trip: "logLevelFromString (logLevelToString level) = Inr level"
  by (cases level) (simp_all only: logLevelToString.simps level_names)

section \<open>Files\<close>

definition calculateLengthFilePrefix :: "string \<Rightarrow> nat res" where
  "calculateLengthFilePrefix file =
     (case first_in file ''src/Debug.cc'' of None \<Rightarrow> Inl AssertionFailed | Some start \<Rightarrow> Inr start)"

text \<open>\<open>strncmp\<close> compares the first \<open>n\<close> characters of two strings without nulls.\<close>

definition relativeFileName :: "string \<Rightarrow> nat \<Rightarrow> string \<Rightarrow> string" where
  "relativeFileName file lengthFilePrefix fileName =
     (if take lengthFilePrefix fileName = take lengthFilePrefix file then drop lengthFilePrefix fileName
      else fileName)"

type_synonym log_policy = "(string \<times> string) list"

fun getLogLevel :: "log_policy \<Rightarrow> string \<Rightarrow> log_level res" where
  "getLogLevel [] fileName = Inr NOTICE"
| "getLogLevel ((pattern, level) # policy) fileName =
     (if startsWith fileName pattern \<or> endsWith fileName pattern then logLevelFromString level
      else getLogLevel policy fileName)"

section \<open>Policies as text\<close>

definition rule_of :: "string list \<Rightarrow> (string \<times> string) res" where
  "rule_of pair =
     (if length pair = 1 then Inr ('''', pair ! 0)
      else if length pair = 2 then Inr (pair ! 0, pair ! 1)
      else require AssertionFailed (length pair \<ge> 3) (Inr (join (butlast pair) ''@'', last pair)))"

fun rules_of :: "string list \<Rightarrow> log_policy res" where
  "rules_of [] = Inr []"
| "rules_of (rule # rules) =
     bindr (rule_of (split rule (CHR ''@''))) (\<lambda>r. bindr (rules_of rules) (\<lambda>rs. Inr (r # rs)))"

definition logPolicyFromString :: "string \<Rightarrow> log_policy res" where
  "logPolicyFromString input = rules_of (split input (CHR '',''))"

text \<open>The loop over the rules; \<open>lastPatternEmpty\<close> says whether the pattern printed last was empty.\<close>

fun policy_text :: "log_policy \<Rightarrow> bool \<Rightarrow> string \<times> bool" where
  "policy_text [] lastPatternEmpty = ([], lastPatternEmpty)"
| "policy_text ((pattern, level) # rules) lastPatternEmpty =
     (let (text, empty) = policy_text rules (pattern = [])
      in ((if pattern = [] then [] else pattern @ ''@'') @ level @ (if rules \<noteq> [] then '','' else []) @ text, empty))"

definition logPolicyToString :: "log_policy \<Rightarrow> string" where
  "logPolicyToString policy =
     (if policy = [] then logLevelToString NOTICE
      else let (text, lastPatternEmpty) = policy_text policy False
           in text @ (if \<not> lastPatternEmpty then '','' @ logLevelToString NOTICE else []))"

section \<open>State\<close>

record 'h debug =
  logPolicy :: log_policy
  isLoggingCache :: "addr \<rightharpoonup> log_level"
  log_stream :: nat
  logHandler :: "'h option"

definition setLogFile :: "nat \<Rightarrow> 'h debug \<Rightarrow> nat \<times> 'h debug" where
  "setLogFile newFile s = (log_stream s, s\<lparr>log_stream := newFile\<rparr>)"

definition setLogHandler :: "'h option \<Rightarrow> 'h debug \<Rightarrow> 'h option \<times> 'h debug" where
  "setLogHandler handler s = (logHandler s, s\<lparr>logHandler := handler\<rparr>)"

definition getLogPolicy :: "'h debug \<Rightarrow> log_policy" where
  "getLogPolicy s = logPolicy s"

definition setLogPolicy :: "log_policy \<Rightarrow> 'h debug \<Rightarrow> 'h debug" where
  "setLogPolicy newPolicy s = s\<lparr>logPolicy := newPolicy, isLoggingCache := Map.empty\<rparr>"

definition isLogging ::
  "string \<Rightarrow> nat \<Rightarrow> (addr \<Rightarrow> string) \<Rightarrow> log_level \<Rightarrow> addr \<Rightarrow> 'h debug \<Rightarrow> (bool \<times> 'h debug) res" where
  "isLogging file lengthFilePrefix literal level fileName s =
     bindr (case isLoggingCache s fileName of
         None \<Rightarrow>
           bindr (getLogLevel (logPolicy s) (relativeFileName file lengthFilePrefix (literal fileName))) (\<lambda>verbosity.
             Inr (verbosity, s\<lparr>isLoggingCache := (isLoggingCache s)(fileName \<mapsto> verbosity)\<rparr>))
       | Some verbosity \<Rightarrow> Inr (verbosity, s))
     (\<lambda>(verbosity, s'). Inr (level_value level \<le> level_value verbosity, s'))"

section \<open>Output\<close>

text \<open>A message is handed to the handler or printed to the stream.\<close>

datatype 'h log_event = Handled 'h debugMessage | Printed nat string

text \<open>The time as text: the calendar time, when \<open>gmtime_r\<close> and \<open>strftime\<close> produce one, or else the seconds
  with at least ten digits.\<close>

definition padded :: "nat \<Rightarrow> nat \<Rightarrow> string" where
  "padded width n = replicate (width - length (decimal n)) (CHR ''0'') @ decimal n"

definition formattedSeconds :: "string option \<Rightarrow> nat \<Rightarrow> string" where
  "formattedSeconds calendar tv_sec = (case calendar of Some text \<Rightarrow> text | None \<Rightarrow> padded 10 tv_sec)"

definition decimal_int :: "int \<Rightarrow> string" where
  "decimal_int i = (if i < 0 then CHR ''-'' # decimal (nat (- i)) else decimal (nat i))"

definition log_output ::
  "string \<Rightarrow> nat \<Rightarrow> string \<Rightarrow> string option \<Rightarrow> nat \<Rightarrow> nat \<Rightarrow> log_level \<Rightarrow> string \<Rightarrow> u32 \<Rightarrow> string \<Rightarrow> string \<Rightarrow>
     nat \<Rightarrow> 'h debug \<Rightarrow> threads \<Rightarrow> 'h log_event \<times> threads" where
  "log_output file lengthFilePrefix processName calendar tv_sec tv_nsec level fileName lineNum functionName message
     thread s ts =
     (let (name, ts') = getName thread ts
      in (case logHandler s of
            Some handler \<Rightarrow>
              Handled handler
                \<lparr>filename = relativeFileName file lengthFilePrefix fileName, linenum = sint lineNum,
                 function_name = functionName, logLevel = int (unat (level_value level)),
                 logLevelString = logLevelToString level, dm_processName = processName,
                 dm_threadName = name, dm_message = message\<rparr>
          | None \<Rightarrow>
              Printed (log_stream s)
                (formattedSeconds calendar tv_sec @ ''.'' @ padded 6 (tv_nsec div 1000) @ '' '' @
                 relativeFileName file lengthFilePrefix fileName @ '':'' @ decimal_int (sint lineNum) @ '' in '' @
                 functionName @ ''() '' @ logLevelToString level @ ''['' @ processName @ '':'' @ name @ '']: '' @
                 message @ [CHR 0x0A]), ts'))"

section \<open>Reading a printed policy\<close>

text \<open>Levels and patterns contain no comma, and a level is a name without the sign that ends a pattern.\<close>

definition log_policy_ok :: "log_policy \<Rightarrow> bool" where
  "log_policy_ok policy \<longleftrightarrow>
     (\<forall>(pattern, level)\<in>set policy.
        CHR '','' \<notin> set pattern \<and> CHR '','' \<notin> set level \<and> CHR ''@'' \<notin> set level \<and> level \<noteq> [])"

definition rule_text :: "string \<times> string \<Rightarrow> string" where
  "rule_text rule = (if fst rule = [] then [] else fst rule @ ''@'') @ snd rule"

text \<open>The policy with the default as its last rule, unless it ends with a rule for all files.\<close>

definition completed :: "log_policy \<Rightarrow> log_policy" where
  "completed policy =
     (if policy = [] \<or> fst (last policy) \<noteq> [] then policy @ [([], ''NOTICE'')] else policy)"

lemma join_snoc: "xs \<noteq> [] \<Longrightarrow> join (xs @ [y]) glue = join xs glue @ glue @ y"
  by (induction xs glue rule: join.induct) simp_all

lemma policy_text_eq:
  "policy_text policy b =
     (join (map rule_text policy) '','', if policy = [] then b else fst (last policy) = [])"
proof (induction policy arbitrary: b)
  case (Cons rule policy)
  then show ?case by (cases rule; cases policy) (simp_all add: rule_text_def)
qed simp

lemma logPolicyToString_eq: "logPolicyToString policy = join (map rule_text (completed policy)) '',''"
  by (simp add: logPolicyToString_def policy_text_eq completed_def join_snoc rule_text_def)

lemma split_fields:
  "\<exists>fs. fs \<noteq> [] \<and> join fs [d] = p \<and> split_loop (p @ d # l) d = fs @ split_loop l d"
proof (induction "length p" arbitrary: p rule: less_induct)
  case less
  show ?case
  proof (cases "d \<in> set p")
    case False
    then show ?thesis using split_item [of d p l] by (intro exI [of _ "[p]"]) simp
  next
    case True
    then obtain a b where p: "p = a @ d # b" "d \<notin> set a" using split_list_first by fastforce
    then obtain fs where fs: "fs \<noteq> []" "join fs [d] = b" "split_loop (b @ d # l) d = fs @ split_loop l d"
      using less [of b] by auto
    have "join (a # fs) [d] = p" using fs(1,2) p(1) by (cases fs) simp_all
    then show ?thesis using p fs(3) split_item [of d a "b @ d # l"] by (intro exI [of _ "a # fs"]) simp
  qed
qed

lemma rule_of_fields: "fs \<noteq> [] \<Longrightarrow> rule_of (fs @ [level]) = Inr (join fs ''@'', level)"
proof -
  assume "fs \<noteq> []"
  then consider f where "fs = [f]" | f g gs where "fs = f # g # gs" by (cases fs rule: list.exhaust; metis list.exhaust)
  then show ?thesis by cases (simp_all add: rule_of_def)
qed

lemma rule_round_trip:
  assumes "CHR ''@'' \<notin> set level" "level \<noteq> []"
  shows "rule_of (split (rule_text (pattern, level)) (CHR ''@'')) = Inr (pattern, level)"
proof (cases "pattern = []")
  case True
  then show ?thesis using split_last [OF assms] by (simp add: split_def rule_text_def rule_of_def)
next
  case False
  obtain fs where "fs \<noteq> []" "join fs ''@'' = pattern"
    "split_loop (pattern @ CHR ''@'' # level) (CHR ''@'') = fs @ split_loop level (CHR ''@'')"
    using split_fields by blast
  with False show ?thesis
    using rule_of_fields [of fs level] split_last [OF assms] by (simp add: split_def rule_text_def)
qed

lemma rules_round_trip: "log_policy_ok policy \<Longrightarrow> rules_of (map rule_text policy) = Inr policy"
proof (induction policy)
  case (Cons rule policy)
  then show ?case by (cases rule) (simp add: log_policy_ok_def rule_round_trip)
qed simp

lemma completed_ok: "log_policy_ok policy \<Longrightarrow> log_policy_ok (completed policy)" "completed policy \<noteq> []"
  by (auto simp: log_policy_ok_def completed_def)

lemma policy_round_trip:
  assumes "log_policy_ok policy"
  shows "logPolicyFromString (logPolicyToString policy) = Inr (completed policy)"
proof -
  let ?rules = "map rule_text (completed policy)"
  note ok = completed_ok(1) [OF assms] and ne = completed_ok(2) [of policy]
  have texts: "rule_text r \<noteq> [] \<and> CHR '','' \<notin> set (rule_text r)" if "r \<in> set (completed policy)" for r
    using ok that by (cases r) (auto simp: log_policy_ok_def rule_text_def)
  have "last ?rules \<noteq> []" using ne texts [of "last (completed policy)"] by (simp add: last_map)
  then have "split (join ?rules '','') (CHR '','') = ?rules" using ne texts by (intro split_join) auto
  then show ?thesis unfolding logPolicyFromString_def logPolicyToString_eq using rules_round_trip [OF ok] by simp
qed

lemma getLogLevel_default: "getLogLevel (policy @ [([], ''NOTICE'')]) fileName = getLogLevel policy fileName"
  by (induction policy fileName rule: getLogLevel.induct) (simp_all add: startsWith_def level_names)

lemma completed_levels: "getLogLevel (completed policy) fileName = getLogLevel policy fileName"
  by (simp add: completed_def getLogLevel_default)

text \<open>An empty rule, as between two commas, fails the assertion on the number of its parts.\<close>

lemma empty_rule_fails: "logPolicyFromString ''a,,b'' = Inl AssertionFailed"
  by (simp add: logPolicyFromString_def split_def split_loop.simps rule_of_def)

section \<open>The cache of levels\<close>

definition cache_ok :: "string \<Rightarrow> nat \<Rightarrow> (addr \<Rightarrow> string) \<Rightarrow> 'h debug \<Rightarrow> bool" where
  "cache_ok file n literal s \<longleftrightarrow>
     (\<forall>a v. isLoggingCache s a = Some v \<longrightarrow> getLogLevel (logPolicy s) (relativeFileName file n (literal a)) = Inr v)"

lemma setLogPolicy_cache: "cache_ok file n literal (setLogPolicy policy s)"
  by (simp add: cache_ok_def setLogPolicy_def)

text \<open>The answer is the one computed from the policy, whether it was cached or not.\<close>

lemma isLogging_ok:
  assumes "cache_ok file n literal s"
  shows "case getLogLevel (logPolicy s) (relativeFileName file n (literal a)) of
      Inl e \<Rightarrow> isLogging file n literal level a s = Inl e
    | Inr v \<Rightarrow> \<exists>s'. isLogging file n literal level a s = Inr (level_value level \<le> level_value v, s') \<and>
        cache_ok file n literal s' \<and> logPolicy s' = logPolicy s"
proof (cases "isLoggingCache s a")
  case None
  then show ?thesis using assms by (auto simp: isLogging_def cache_ok_def split: sum.splits)
next
  case (Some v)
  then have "getLogLevel (logPolicy s) (relativeFileName file n (literal a)) = Inr v" using assms by (simp add: cache_ok_def)
  then show ?thesis using assms Some by (simp add: isLogging_def)
qed

end
