(* ===== verification/Util.thy ===== *)
theory Util
  imports StringUtil
begin

text \<open>
  The dump of a buffer of src/Util.cc and the names of source files of src/CodeLocation.h and
  src/CodeLocation.cc.
\<close>

section \<open>Dumping a buffer\<close>

definition isprint :: "u8 \<Rightarrow> bool" where
  "isprint b \<longleftrightarrow> 32 \<le> unat b \<and> unat b < 127"

text \<open>The offset with sixteen digits.\<close>

definition offset_text :: "nat \<Rightarrow> string" where
  "offset_text i = replicate (16 - length (hexadecimal i)) (CHR ''0'') @ hexadecimal i"

definition hex_column :: "u8 list \<Rightarrow> nat \<Rightarrow> nat \<Rightarrow> string" where
  "hex_column cbuf i j = (if i + j \<ge> length cbuf then ''  '' else hex2 (cbuf ! (i + j)))"

definition ascii_column :: "u8 list \<Rightarrow> nat \<Rightarrow> nat \<Rightarrow> char" where
  "ascii_column cbuf i j =
     (if i + j \<ge> length cbuf then char_of (0 :: nat)
      else let b = cbuf ! (i + j) in if isprint b then char_of (unat b) else CHR ''.'')"

text \<open>The array \<open>ascii\<close> has a null behind its sixteen characters; it is printed up to the first null.\<close>

definition hexDump_line :: "u8 list \<Rightarrow> nat \<Rightarrow> string" where
  "hexDump_line cbuf i =
     (let hex = map (hex_column cbuf i) [0..<16]; ascii = map (ascii_column cbuf i) [0..<16] @ [char_of (0 :: nat)]
      in offset_text i @ ''  '' @ join (take 8 hex) '' '' @ ''  '' @ join (drop 8 hex) '' '' @ ''  |'' @
         c_str ascii @ ''|'' @ [CHR 0x0A])"

text \<open>The counter does not wrap around: a buffer has fewer than \<open>2^64 - 16\<close> bytes.\<close>

function hexDump_loop :: "u8 list \<Rightarrow> nat \<Rightarrow> string" where
  "hexDump_loop cbuf i = (if i < length cbuf then hexDump_line cbuf i @ hexDump_loop cbuf (i + 16) else [])"
  by auto

termination by (relation "measure (\<lambda>(cbuf, i). length cbuf - i)") auto

declare hexDump_loop.simps [simp del]

definition hexDump :: "u8 list \<Rightarrow> string" where
  "hexDump buf = hexDump_loop buf 0"

lemma code_char_of: "n < 256 \<Longrightarrow> code (char_of n) = n"
  by (simp add: code_def)

lemma ascii_column_null: "code (ascii_column cbuf i j) = 0 \<longleftrightarrow> length cbuf \<le> i + j"
proof (cases "length cbuf \<le> i + j")
  case False
  have "unat (cbuf ! (i + j)) < 256" using unsigned_less [of "cbuf ! (i + j)", where 'a = nat] by simp
  then have "code (char_of (unat (cbuf ! (i + j)))) = unat (cbuf ! (i + j))" by (rule code_char_of)
  moreover have "code (CHR ''.'') = 46" by (simp add: code_def)
  ultimately show ?thesis using False by (auto simp: ascii_column_def isprint_def Let_def)
qed (simp add: ascii_column_def code_def)

text \<open>The text of a line shows one character per byte.\<close>

lemma ascii_text:
  assumes "i < length cbuf"
  shows "c_str (map (ascii_column cbuf i) [0..<16] @ [char_of (0 :: nat)]) =
    map (\<lambda>b. if isprint b then char_of (unat b) else CHR ''.'') (take 16 (drop i cbuf))"
proof -
  let ?k = "min 16 (length cbuf - i)"
  have split: "map (ascii_column cbuf i) [0..<16] = map (ascii_column cbuf i) [0..<?k] @ map (ascii_column cbuf i) [?k..<16]"
    using upt_add_eq_append [of 0 ?k "16 - ?k"] by (simp add: map_append [symmetric] del: map_append)
  have front: "\<forall>c\<in>set (map (ascii_column cbuf i) [0..<?k]). code c \<noteq> 0"
    using ascii_column_null [of cbuf i] by (auto simp del: neq0_conv)
  have rest: "takeWhile (\<lambda>c. code c \<noteq> 0) (map (ascii_column cbuf i) [?k..<16] @ [char_of (0 :: nat)]) = []"
  proof (cases "?k < 16")
    case True
    then have "[?k..<16] = ?k # [Suc ?k..<16]" by (simp add: upt_conv_Cons)
    moreover have "code (ascii_column cbuf i ?k) = 0" using True by (simp add: ascii_column_null)
    ultimately show ?thesis by simp
  next
    case False
    then show ?thesis by (simp add: code_def)
  qed
  have "c_str (map (ascii_column cbuf i) [0..<16] @ [char_of (0 :: nat)]) = map (ascii_column cbuf i) [0..<?k]"
    unfolding c_str_def split append_assoc using front rest by (subst takeWhile_append2) auto
  also have "\<dots> = map (\<lambda>b. if isprint b then char_of (unat b) else CHR ''.'') (take 16 (drop i cbuf))"
    by (rule nth_equalityI) (auto simp: ascii_column_def Let_def)
  finally show ?thesis .
qed

section \<open>Names of source files\<close>

record codeLocation =
  cl_file :: string
  cl_line :: u32
  cl_function :: string
  prettyFunction :: string

definition length__FILE__Prefix :: "string \<Rightarrow> nat res" where
  "length__FILE__Prefix file =
     (case first_in file ''src/CodeLocation.cc'' of None \<Rightarrow> Inl AssertionFailed | Some n \<Rightarrow> Inr n)"

text \<open>\<open>strrchr\<close> finds the last slash.\<close>

definition baseFileName :: "codeLocation \<Rightarrow> string" where
  "baseFileName l =
     (let file = cl_file l
      in if CHR ''/'' \<notin> set file then file else rev (takeWhile (\<lambda>c. c \<noteq> CHR ''/'') (rev file)))"

definition relativeFile :: "string \<Rightarrow> nat \<Rightarrow> codeLocation \<Rightarrow> string" where
  "relativeFile file lengthFilePrefix l =
     (if take lengthFilePrefix (cl_file l) = take lengthFilePrefix file then drop lengthFilePrefix (cl_file l)
      else cl_file l)"

lemma baseFileName_last:
  "CHR ''/'' \<notin> set (baseFileName l) \<and> (\<exists>dir. cl_file l = dir @ baseFileName l \<and> (dir \<noteq> [] \<longrightarrow> last dir = CHR ''/''))"
proof (cases "CHR ''/'' \<in> set (cl_file l)")
  case True
  then obtain a b where f: "cl_file l = a @ CHR ''/'' # b" "CHR ''/'' \<notin> set b" using split_list_last by fastforce
  have "takeWhile (\<lambda>c. c \<noteq> CHR ''/'') (rev b @ CHR ''/'' # rev a) = rev b"
    using f(2) by (subst takeWhile_append2) auto
  then have "baseFileName l = b" using f(1) by (simp add: baseFileName_def)
  then show ?thesis using f by (intro conjI exI [of _ "a @ ''/''"]) simp_all
qed (simp add: baseFileName_def)

text \<open>The prefix of the directory in which the project was built is removed.\<close>

lemma relativeFile_prefix: "cl_file l = dir @ name \<Longrightarrow> relativeFile (dir @ rest) (length dir) l = name"
  by (simp add: relativeFile_def)

end
