(* ===== verification/Tub.thy ===== *)
theory Tub
  imports Prelude
begin

text \<open>
  The container of src/Tub.h: room for one object that may or may not be there. \<open>tub_object\<close> is what the room
  was last filled with. The destructors that a call runs are part of its result.
\<close>

record 'a tub =
  occupied :: bool
  tub_object :: "'a option"

definition Tub :: "'a tub" where
  "Tub = \<lparr>occupied = False, tub_object = None\<rparr>"

definition tub_destroy :: "'a tub \<Rightarrow> 'a list \<times> 'a tub" where
  "tub_destroy t =
     (if occupied t then (case tub_object t of Some x \<Rightarrow> [x] | None \<Rightarrow> [], t\<lparr>occupied := False\<rparr>) else ([], t))"

definition tub_construct :: "'a \<Rightarrow> 'a tub \<Rightarrow> 'a list \<times> 'a tub" where
  "tub_construct x t = (let (destroyed, t') = tub_destroy t in (destroyed, t'\<lparr>tub_object := Some x, occupied := True\<rparr>))"

definition tub_get :: "'a tub \<Rightarrow> 'a option" where
  "tub_get t = (if \<not> occupied t then None else tub_object t)"

definition Tub_of :: "'a \<Rightarrow> 'a tub" where
  "Tub_of other = snd (tub_construct other Tub)"

definition Tub_copy :: "'a tub \<Rightarrow> 'a tub" where
  "Tub_copy other =
     (if occupied other then (case tub_object other of Some x \<Rightarrow> snd (tub_construct x Tub) | None \<Rightarrow> Tub) else Tub)"

text \<open>Assignment from another container; the assignment of the elements runs no destructor.\<close>

definition tub_assign :: "'a tub \<Rightarrow> 'a tub \<Rightarrow> 'a list \<times> 'a tub" where
  "tub_assign t other =
     (if occupied other then
        (if occupied t then ([], t\<lparr>tub_object := tub_object other\<rparr>)
         else case tub_object other of Some x \<Rightarrow> tub_construct x t | None \<Rightarrow> ([], t))
      else tub_destroy t)"

text \<open>The container is an option: it holds a value exactly when it is occupied.\<close>

definition tub_ok :: "'a tub \<Rightarrow> bool" where
  "tub_ok t \<longleftrightarrow> (occupied t \<longrightarrow> tub_object t \<noteq> None)"

lemmas tub_defs = Tub_def tub_destroy_def tub_construct_def tub_get_def Tub_of_def Tub_copy_def tub_assign_def tub_ok_def

lemma tub_start: "tub_ok Tub" "tub_get Tub = None" "tub_ok (Tub_of x)" "tub_get (Tub_of x) = Some x"
  by (simp_all add: tub_defs)

lemma tub_refines_option:
  assumes "tub_ok t" "tub_ok other"
  shows "tub_ok (snd (tub_construct x t)) \<and> tub_get (snd (tub_construct x t)) = Some x"
    "tub_ok (snd (tub_destroy t)) \<and> tub_get (snd (tub_destroy t)) = None"
    "tub_ok (Tub_copy other) \<and> tub_get (Tub_copy other) = tub_get other"
    "tub_ok (snd (tub_assign t other)) \<and> tub_get (snd (tub_assign t other)) = tub_get other"
    "tub_ok t \<Longrightarrow> occupied t = (tub_get t \<noteq> None)"
  using assms by (auto simp: tub_defs split: option.splits)

text \<open>The object that is there is destroyed, once, before the room is used again or given up.\<close>

lemma tub_destroys:
  assumes "tub_ok t"
  shows "fst (tub_destroy t) = (case tub_get t of Some x \<Rightarrow> [x] | None \<Rightarrow> [])"
    "fst (tub_construct x t) = (case tub_get t of Some x \<Rightarrow> [x] | None \<Rightarrow> [])"
    "fst (tub_destroy (snd (tub_destroy t))) = []"
  using assms by (auto simp: tub_defs split: option.splits)

end
