(* ===== verification/SpinLock.thy ===== *)
theory SpinLock
  imports Prelude
begin

text \<open>
  The lock of src/SpinLock.h and the threads that compete for it. One evaluation of the condition of
  the loop in \<open>lock\<close> is one step, since \<open>test_and_set\<close> is the only access to the flag: the steps of
  different threads interleave in any order. A thread that is inside the loop does nothing else
  until it leaves it.
\<close>

record spinLock =
  sl_flag :: bool

definition SpinLock :: spinLock where
  "SpinLock = \<lparr>sl_flag = False\<rparr>"

text \<open>\<open>std::atomic_flag::test_and_set\<close> returns the value from before.\<close>

definition test_and_set :: "spinLock \<Rightarrow> bool \<times> spinLock" where
  "test_and_set l = (sl_flag l, l\<lparr>sl_flag := True\<rparr>)"

text \<open>One round of the loop: whether it goes on, and the lock afterwards.\<close>

definition lock_round :: "spinLock \<Rightarrow> bool \<times> spinLock" where
  "lock_round l = test_and_set l"

definition try_lock :: "spinLock \<Rightarrow> bool \<times> spinLock" where
  "try_lock l = (let (previous, l') = test_and_set l in (\<not> previous, l'))"

definition unlock :: "spinLock \<Rightarrow> spinLock" where
  "unlock l = l\<lparr>sl_flag := False\<rparr>"

section \<open>Threads\<close>

record lock_system =
  the_lock :: spinLock
  spinning :: "nat \<Rightarrow> bool"
  holding :: "nat \<Rightarrow> bool"

datatype lock_op = LockCall nat | LockRound nat | TryLock nat | Unlock nat

definition lock_start :: "lock_system \<Rightarrow> bool" where
  "lock_start s \<longleftrightarrow> s = \<lparr>the_lock = SpinLock, spinning = (\<lambda>_. False), holding = (\<lambda>_. False)\<rparr>"

text \<open>A thread releases the lock only if it holds it, as the class demands. It may call \<open>lock\<close> while it
  holds the lock.\<close>

fun lock_step :: "lock_op \<Rightarrow> lock_system \<Rightarrow> lock_system res" where
  "lock_step (LockCall t) s =
     require Misuse (\<not> spinning s t) (Inr (s\<lparr>spinning := (spinning s)(t := True)\<rparr>))"
| "lock_step (LockRound t) s =
     require Misuse (spinning s t)
       (let (again, l) = lock_round (the_lock s)
        in Inr (if again then s\<lparr>the_lock := l\<rparr>
                else s\<lparr>the_lock := l, spinning := (spinning s)(t := False), holding := (holding s)(t := True)\<rparr>))"
| "lock_step (TryLock t) s =
     require Misuse (\<not> spinning s t)
       (let (acquired, l) = try_lock (the_lock s)
        in Inr (s\<lparr>the_lock := l, holding := if acquired then (holding s)(t := True) else holding s\<rparr>))"
| "lock_step (Unlock t) s =
     require Misuse (\<not> spinning s t \<and> holding s t)
       (Inr (s\<lparr>the_lock := unlock (the_lock s), holding := (holding s)(t := False)\<rparr>))"

definition lock_inv :: "lock_system \<Rightarrow> bool" where
  "lock_inv s \<longleftrightarrow>
     sl_flag (the_lock s) = (\<exists>t. holding s t) \<and> (\<forall>t u. holding s t \<longrightarrow> holding s u \<longrightarrow> t = u)"

lemmas lock_defs = test_and_set_def lock_round_def try_lock_def unlock_def Let_def

lemma lock_start_inv: "lock_start s \<Longrightarrow> lock_inv s"
  by (simp add: lock_start_def lock_inv_def SpinLock_def)

lemma lock_step_inv:
  assumes "lock_inv s" "lock_step op s = Inr s'"
  shows "lock_inv s'"
  using assms by (cases op) (auto simp: lock_inv_def lock_defs res_simps split: if_splits)

interpretation spin: component lock_start lock_step lock_inv
  by unfold_locales (use lock_start_inv lock_step_inv in blast)+

text \<open>A round of a spinning thread ends the loop exactly when nobody holds the lock.\<close>

lemma round_acquires:
  assumes "lock_inv s" "spinning s t"
  shows "\<exists>s'. lock_step (LockRound t) s = Inr s' \<and>
    (if \<exists>u. holding s u then s' = s else holding s' = (\<lambda>u. u = t) \<and> \<not> spinning s' t)"
proof -
  have f: "sl_flag (the_lock s) = (\<exists>u. holding s u)" using assms(1) by (simp add: lock_inv_def)
  show ?thesis
  proof (cases "sl_flag (the_lock s)")
    case True
    then have "the_lock s\<lparr>sl_flag := True\<rparr> = the_lock s" by simp
    then show ?thesis using True f assms(2) by (simp add: lock_defs)
  next
    case False
    then show ?thesis using f assms(2) by (auto simp: lock_defs fun_eq_iff)
  qed
qed

text \<open>The locks are not recursive: a thread that calls \<open>lock\<close> while it holds the lock stays in the loop,
  whatever all threads do.\<close>

lemma self_deadlock_step:
  assumes "lock_inv s" "holding s t" "spinning s t" "lock_step op s = Inr s'"
  shows "holding s' t \<and> spinning s' t"
proof -
  have "sl_flag (the_lock s)" using assms(1,2) by (auto simp: lock_inv_def)
  then show ?thesis
    using assms(2-4) by (cases op) (auto simp: lock_defs res_simps)
qed

primrec lock_steps :: "lock_op list \<Rightarrow> lock_system \<Rightarrow> lock_system res" where
  "lock_steps [] s = Inr s"
| "lock_steps (op # ops) s = bindr (lock_step op s) (lock_steps ops)"

lemma self_deadlock:
  "lock_inv s \<Longrightarrow> holding s t \<Longrightarrow> spinning s t \<Longrightarrow> lock_steps ops s = Inr s' \<Longrightarrow> holding s' t \<and> spinning s' t"
proof (induction ops arbitrary: s)
  case (Cons op ops)
  then obtain s1 where s1: "lock_step op s = Inr s1" "lock_steps ops s1 = Inr s'" by (auto simp: res_simps)
  from self_deadlock_step [OF Cons.prems(1-3) s1(1)] lock_step_inv [OF Cons.prems(1) s1(1)] Cons.IH s1(2)
  show ?case by blast
qed simp

end
