(* ===== verification/Examples.thy ===== *)
theory Examples
  imports Transport End_To_End Receiver_Effects FakeDriver Dpdk_Transmit Debug Util Tub SpinLock "HOL-Library.Code_Target_Numeral"
begin

text \<open>
  Concrete instances on which the hypotheses of the theorems are shown to hold: a driver with small
  packets (nine bytes of data each), a sender on it that builds and sends a message of twenty
  bytes, a receiver and a transport.
\<close>

definition example_driver :: driver where
  "example_driver =
     \<lparr>maxPayloadSize = 40, localAddress = \<lparr>ip_addr = 1\<rparr>, highestPacketPriority = 7, bandwidth = 100,
      fresh = (\<lambda>_. replicate 40 0)\<rparr>"

definition example_sender :: sender where
  "example_sender = Sender 22 example_driver (Policy_Manager example_driver) 1000 100"

definition example_receiver :: receiver where
  "example_receiver = Receiver example_driver (Policy_Manager example_driver) 1000 100"

definition example_transport :: transport where
  "example_transport = TransportImpl (\<lambda>us. us) example_driver 22"

lemma example_driver_ok: "driver_ok example_driver"
  by (simp add: driver_ok_def example_driver_def sizeof_DataHeader_def)

lemma example_static_ok: "static_ok example_driver (Policy_Manager example_driver)"
  using example_driver_ok policy_ok_start [OF example_driver_ok]
  by (simp add: static_ok_def Policy_Manager_def Let_def RTT_TIME_US_def pdl_def)
    (simp add: example_driver_def sizeof_DataHeader_def)

lemma example_rstatic_ok: "rstatic_ok example_driver (Policy_Manager example_driver)"
  using example_driver_ok policy_ok_start [OF example_driver_ok]
  by (simp add: rstatic_ok_def Policy_Manager_def Let_def RTT_TIME_US_def) (simp add: example_driver_def)

lemma example_sender_start: "sender_start example_sender"
  using example_static_ok by (auto simp: sender_start_def example_sender_def)

lemma example_receiver_start: "receiver_start example_receiver"
  using example_rstatic_ok by (auto simp: receiver_start_def example_receiver_def Receiver_def)

lemma example_transport_start: "transport_start example_transport"
  using example_static_ok example_rstatic_ok by (auto simp: transport_start_def example_transport_def)

lemma example_inv: "sender_inv example_sender" "receiver_inv example_receiver" "transport_inv example_transport"
  using sender_start_inv [OF example_sender_start] receiver_start_inv [OF example_receiver_start]
    transport_start_inv [OF example_transport_start] .

section \<open>A message of twenty bytes\<close>

text \<open>The state after a call that succeeds.\<close>

definition result_or :: "'a \<Rightarrow> 'a res \<Rightarrow> 'a" where
  "result_or x r = (case r of Inl _ \<Rightarrow> x | Inr y \<Rightarrow> y)"

definition succeeds :: "'a res \<Rightarrow> bool" where
  "succeeds r = (case r of Inl _ \<Rightarrow> False | Inr _ \<Rightarrow> True)"

lemma succeeds_result: "succeeds r \<Longrightarrow> r = Inr (result_or x r)"
  by (cases r) (simp_all add: succeeds_def result_or_def)

definition example_destination :: socketAddress where
  "example_destination = \<lparr>sa_ip = \<lparr>ip_addr = 2\<rparr>, sa_port = 9\<rparr>"

definition example_bytes :: bytes where
  "example_bytes = [1, 2, 3, 4, 5, 6, 7, 8, 9, 10, 11, 12, 13, 14, 15, 16, 17, 18, 19, 20]"

definition example_s1 :: sender where
  "example_s1 = result_or example_sender (sender_step (Alloc 7) example_sender)"

definition example_s2 :: sender where
  "example_s2 = result_or example_sender (sender_step (Append 0 example_bytes 20) example_s1)"

definition example_s3 :: sender where
  "example_s3 = result_or example_sender (sendMessage (\<lambda>_. 5) 0 example_destination 0 example_s2)"

lemma example_steps:
  "sender_step (Alloc 7) example_sender = Inr example_s1"
  "sender_step (Append 0 example_bytes 20) example_s1 = Inr example_s2"
  "sendMessage (\<lambda>_. 5) 0 example_destination 0 example_s2 = Inr example_s3"
  unfolding example_s1_def example_s2_def example_s3_def
  by (rule succeeds_result, code_simp)+

lemma example_reachable:
  "sender_system.reachable example_s1" "sender_system.reachable example_s2"
  using sender_system.reach_step [OF sender_system.reach_start [OF example_sender_start] example_steps(1)]
    sender_system.reach_step [OF _ example_steps(2)] by blast+

lemma example_s_inv: "sender_inv example_s1" "sender_inv example_s2"
  using example_reachable sender_system.reachable_inv by blast+

definition example_m2 :: outMessage where
  "example_m2 = (case s_heap example_s2 0 of None \<Rightarrow> OutMessage example_driver 0 | Some m \<Rightarrow> m)"

definition example_m3 :: outMessage where
  "example_m3 = (case s_heap example_s3 0 of None \<Rightarrow> OutMessage example_driver 0 | Some m \<Rightarrow> m)"

definition is_some :: "'a option \<Rightarrow> bool" where
  "is_some v = (case v of None \<Rightarrow> False | Some _ \<Rightarrow> True)"

lemma is_some_the: "is_some v \<Longrightarrow> v = Some (case v of None \<Rightarrow> x | Some y \<Rightarrow> y)"
  by (cases v) (simp_all add: is_some_def)

lemma example_heap: "s_heap example_s2 0 = Some example_m2" "s_heap example_s3 0 = Some example_m3"
  unfolding example_m2_def example_m3_def by (rule is_some_the, code_simp)+

lemma example_m2_fields:
  "om_state example_m2 = NOT_STARTED" "om_held example_m2" "om_numPackets example_m2 = 3" "om_messageLength example_m2 = 20"
proof -
  have "(\<lambda>m. om_state m = NOT_STARTED \<and> om_held m \<and> om_numPackets m = 3 \<and> om_messageLength m = 20) example_m2" by code_simp
  then show "om_state example_m2 = NOT_STARTED" "om_held example_m2" "om_numPackets example_m2 = 3" "om_messageLength example_m2 = 20"
    by simp_all
qed

lemma example_s2_fields: "s_driver example_s2 = example_driver" "s_transportId example_s2 = 22"
  "RTT_BYTES (policyManager example_s2) = 96" "nextMessageSequenceNumber example_s2 = 1"
proof -
  have "sparams example_s2 = sparams example_sender"
    using ensuresD [OF sender_step_frame example_steps(1)] ensuresD [OF sender_step_frame example_steps(2)] by simp
  then show "s_driver example_s2 = example_driver" "s_transportId example_s2 = 22" "RTT_BYTES (policyManager example_s2) = 96"
    by (simp_all add: sparams_def example_sender_def Sender_def Policy_Manager_def Let_def RTT_TIME_US_def)
      (simp_all add: example_driver_def)
qed code_simp

section \<open>The message in progress\<close>

lemma example_send_step: "sender_step (Send (\<lambda>_. 5) 0 example_destination 0) example_s2 = Inr example_s3"
  using example_steps(3) example_heap(1) example_m2_fields example_s2_fields(4) by (simp add: sendable_def)

lemma example_s3_inv: "sender_inv example_s3"
  using sender_step_inv [OF example_s_inv(2) example_send_step] .

lemma example_s3_driver: "s_driver example_s3 = example_driver"
  using ensuresD [OF sender_step_frame example_send_step] example_s2_fields(1) by (simp add: sparams_def)

definition example_id :: messageId where
  "example_id = \<lparr>transportId = 22, sequence = 1\<rparr>"

lemma example_limit: "packets_for (s_driver example_s2) (unat (RTT_BYTES (policyManager example_s2))) = 11"
  by (simp add: example_s2_fields packets_for_def pdl_def) (simp add: example_driver_def sizeof_DataHeader_def)

lemma example_m3_eq:
  "example_m3 = (prepared example_id example_destination 0 0 11 example_m2)
     \<lparr>om_state := IN_PROGRESS, om_info := om_info example_m3\<rparr>"
  "\<exists>prio. om_info example_m3 = new_info 0 example_id example_destination 20 3 prio"
proof -
  let ?id = "\<lparr>transportId = s_transportId example_s2, sequence = nextMessageSequenceNumber example_s2\<rparr>"
  have m: "\<not> started example_m2" "0 < om_numPackets example_m2" "nextMessageSequenceNumber example_s2 \<noteq> - 1"
    using example_m2_fields example_s2_fields(4) by (simp_all add: started_def)
  have id: "?id = example_id" using example_s2_fields by (simp add: example_id_def)
  have n: "om_numPackets example_m2 \<noteq> 1" using example_m2_fields(3) by simp
  obtain s m prio where s: "sendMessage (\<lambda>_. 5) 0 example_destination 0 example_s2 = Inr s"
    "s_heap s = (s_heap example_s2)(0 \<mapsto> m)"
    and e: "m = (prepared example_id example_destination 0 0 (int 11) example_m2)
      \<lparr>om_state := if om_numPackets example_m2 = 1 then SENT else IN_PROGRESS, om_info := om_info m\<rparr>"
    and i: "om_info m = new_info 0 example_id example_destination (om_messageLength example_m2)
      (min (int 11) (om_numPackets example_m2)) prio"
    using sendMessage_ok [OF example_s_inv(2) example_heap(1) m(1) example_m2_fields(2) m(2,3), of "\<lambda>_. 5" example_destination 0,
        unfolded id example_limit] n by blast
  have "m = example_m3" using s example_steps(3) example_heap(2) by simp
  with e i n show "example_m3 = (prepared example_id example_destination 0 0 11 example_m2)
     \<lparr>om_state := IN_PROGRESS, om_info := om_info example_m3\<rparr>"
    "\<exists>prio. om_info example_m3 = new_info 0 example_id example_destination 20 3 prio"
    using example_m2_fields by (simp_all add: exI)
qed

lemma example_m3_fields:
  "om_state example_m3 = IN_PROGRESS" "om_numPackets example_m3 = 3" "om_id example_m3 = example_id"
  "om_messageLength example_m3 = 20" "om_held example_m3" "packetsSent (om_info example_m3) = 0"
  "packetsGranted (om_info example_m3) = 3" "unsentBytes (om_info example_m3) = 20"
proof -
  obtain q where e: "example_m3 = (prepared example_id example_destination 0 0 11 example_m2)\<lparr>om_state := IN_PROGRESS, om_info := q\<rparr>"
    using example_m3_eq(1) by blast
  show "om_state example_m3 = IN_PROGRESS" "om_numPackets example_m3 = 3" "om_id example_m3 = example_id"
    "om_messageLength example_m3 = 20" "om_held example_m3"
    unfolding e using example_m2_fields by simp_all
  show "packetsSent (om_info example_m3) = 0" "packetsGranted (om_info example_m3) = 3" "unsentBytes (om_info example_m3) = 20"
    using example_m3_eq(2) by (auto simp: new_info_def)
qed

lemma example_m3_started: "started example_m3"
  by (simp add: started_def example_m3_fields)

text \<open>The state after the first packet was handed to the driver, and that after the application
  released or cancelled the message.\<close>

definition example_s4 :: sender where
  "example_s4 = after_packet 0 example_m3 (the (om_packets example_m3 0)) example_s3"

definition example_m4 :: outMessage where
  "example_m4 = sent_one example_driver example_m3"

lemma example_s4: "sender_inv example_s4" "s_heap example_s4 0 = Some example_m4"
  using after_packet_inv [OF example_s3_inv example_heap(2)] example_m3_fields example_s3_driver
  by (simp_all add: example_s4_def example_m4_def after_packet_def Let_def)

lemma example_m4_fields:
  "started example_m4" "om_numPackets example_m4 = 3" "packetsSent (om_info example_m4) = 1" "om_id example_m4 = example_id"
  by (simp_all add: example_m4_def example_m3_started example_m3_fields)

definition example_released :: sender where
  "example_released = result_or example_sender (sender_step (Release 0) example_s3)"

definition example_cancelled :: sender where
  "example_cancelled = result_or example_sender (sender_step (Cancel 0) example_s3)"

lemma example_released:
  "sender_inv example_released" "s_heap example_released 0 = Some (example_m3\<lparr>om_held := False\<rparr>)"
proof -
  have s: "sender_step (Release 0) example_s3 =
      Inr (emit [PerfAdd released_tx_messages 1] (upd_message 0 (\<lambda>m. m\<lparr>om_held := False\<rparr>) example_s3))"
    using example_heap(2) example_m3_fields
    by (simp add: held_by_app_def sender_dropMessage_def Let_def)
  then have e: "example_released = emit [PerfAdd released_tx_messages 1] (upd_message 0 (\<lambda>m. m\<lparr>om_held := False\<rparr>) example_s3)"
    by (simp add: example_released_def result_or_def)
  show "sender_inv example_released" using sender_step_inv [OF example_s3_inv s] unfolding e .
  show "s_heap example_released 0 = Some (example_m3\<lparr>om_held := False\<rparr>)"
    unfolding e using example_heap(2) by (simp add: sender_defs)
qed

lemma example_cancelled:
  "sender_inv example_cancelled" "s_heap example_cancelled 0 = Some (example_m3\<lparr>om_state := CANCELED\<rparr>)"
proof -
  have "0 \<in> set (b_messages (messageBuckets example_s3 (getBucket (om_id example_m3))))"
    using inv_bucket [OF example_s3_inv, of "getBucket (om_id example_m3)"] example_heap(2) example_m3_started
    by (simp add: bucket_ok_def)
  moreover have "0 \<in> set (sendQueue example_s3)"
    using inv_queue_iff [OF example_s3_inv example_heap(2)] example_m3_fields by simp
  ultimately obtain s where s: "sender_step (Cancel 0) example_s3 = Inr s"
    "s_heap s 0 = Some (example_m3\<lparr>om_state := CANCELED\<rparr>)"
    using example_heap(2) example_m3_fields by (simp add: held_by_app_def cancelMessage_def Let_def sender_defs)
  then show "sender_inv example_cancelled" "s_heap example_cancelled 0 = Some (example_m3\<lparr>om_state := CANCELED\<rparr>)"
    using sender_step_inv [OF example_s3_inv s(1)] by (simp_all add: example_cancelled_def result_or_def)
qed

section \<open>Packets\<close>

definition control_packet :: "bytes \<Rightarrow> packet" where
  "control_packet h = \<lparr>payload = h @ replicate 10 0, plength = int (length h)\<rparr>"

definition example_ip :: ipAddress where
  "example_ip = \<lparr>ip_addr = 1\<rparr>"

text \<open>The three packets of the message as they are on the wire, and the first of three packets of a
  message of which only one packet is unscheduled.\<close>

definition example_data :: "nat \<Rightarrow> packet" where
  "example_data i =
     \<lparr>payload = encode_data (DataHeader 7 9 example_id 20 0 11 (of_nat i)) @
        take 9 (drop (i * 9) (example_bytes @ replicate 7 0)), plength = int (31 + min 9 (20 - i * 9))\<rparr>"

definition example_scheduled_packet :: packet where
  "example_scheduled_packet =
     \<lparr>payload = encode_data (DataHeader 7 9 \<lparr>transportId = 33, sequence = 4\<rparr> 20 0 1 0) @ replicate 9 5, plength = 40\<rparr>"

section \<open>The receiver\<close>

text \<open>The first packet that reaches a new receiver.\<close>

definition first_message :: "driver \<Rightarrow> packet \<Rightarrow> ipAddress \<Rightarrow> inMessage" where
  "first_message d p ip =
     (let h = decode_data (payload p) in stored d (unat (dh_index h)) p (started_message d h ip))"

lemma first_packet:
  assumes r: "receiver_start r" and p: "data_packet_ok (r_driver r) p"
  obtains r' a where "handleDataPacket tsc p ip r = Inr r'" "receiver_inv r'" "r_heap r' = [a \<mapsto> first_message (r_driver r) p ip]"
    "receivedMessages r' =
      (if completes (unat (dh_index (decode_data (payload p)))) (started_message (r_driver r) (decode_data (payload p)) ip)
       then [a] else [])"
proof -
  obtain t1 t2 where e: "r = Receiver (r_driver r) (r_policyManager r) t1 t2" using r by (auto simp: receiver_start_def)
  then have "r_messageAllocator r = ObjectPool" "r_heap r = Map.empty" "\<And>i. rb_messages (r_messageBuckets r i) = []"
    "receivedMessages r = []"
    by (metis Receiver_def receiver.select_convs rbucket.select_convs R_MessageBucket_def)+
  then have f: "pool_construct (r_messageAllocator r) \<noteq> Inl BadAlloc" "r_heap r = Map.empty" "receivedMessages r = []"
    "r_findMessage i (r_messageBuckets r j) r = Inr None" for i j
    by (simp_all add: pool_construct_def operator_new_def ObjectPool_def r_findMessage_def)
  have "message_for p ip r = started_message (r_driver r) (decode_data (payload p)) ip" "data_fits p ip r"
    using f(4) by (simp_all add: message_for_def data_fits_def Let_def)
  with handleDataPacket_ok [OF receiver_start_inv [OF r] p, of ip tsc] f(1-3) that show ?thesis
    by (auto simp: first_message_def Let_def)
qed

definition example_r1 :: receiver where
  "example_r1 = result_or example_receiver (handleDataPacket (\<lambda>_. 8) (example_data 0) example_ip example_receiver)"

definition example_scheduled :: receiver where
  "example_scheduled =
     result_or example_receiver (handleDataPacket (\<lambda>_. 8) example_scheduled_packet example_ip example_receiver)"

lemma example_r_driver: "r_driver example_receiver = example_driver"
  by (simp add: example_receiver_def Receiver_def)

lemma example_packets_ok: "data_packet_ok example_driver (example_data 0)" "data_packet_ok example_driver example_scheduled_packet"
  by (simp_all add: data_packet_ok_def example_data_def example_scheduled_packet_def DataHeader_def Let_def chunk_def
      packets_for_def pdl_def IM_MAX_MESSAGE_PACKETS_def)
    (simp_all add: example_driver_def sizeof_DataHeader_def example_bytes_def)

lemma example_received:
  "receiver_inv example_r1" "\<exists>a. r_heap example_r1 = [a \<mapsto> first_message example_driver (example_data 0) example_ip]"
  "receiver_inv example_scheduled"
  "\<exists>a. r_heap example_scheduled = [a \<mapsto> first_message example_driver example_scheduled_packet example_ip]"
proof -
  have d: "data_packet_ok (r_driver example_receiver) (example_data 0)"
    "data_packet_ok (r_driver example_receiver) example_scheduled_packet"
    using example_packets_ok by (simp_all add: example_r_driver)
  obtain r a where "handleDataPacket (\<lambda>_. 8) (example_data 0) example_ip example_receiver = Inr r" "receiver_inv r"
    "r_heap r = [a \<mapsto> first_message (r_driver example_receiver) (example_data 0) example_ip]"
    using first_packet [OF example_receiver_start d(1)] .
  then show "receiver_inv example_r1" "\<exists>a. r_heap example_r1 = [a \<mapsto> first_message example_driver (example_data 0) example_ip]"
    by (auto simp: example_r1_def result_or_def example_r_driver)
  obtain r a where "handleDataPacket (\<lambda>_. 8) example_scheduled_packet example_ip example_receiver = Inr r" "receiver_inv r"
    "r_heap r = [a \<mapsto> first_message (r_driver example_receiver) example_scheduled_packet example_ip]"
    using first_packet [OF example_receiver_start d(2)] .
  then show "receiver_inv example_scheduled"
    "\<exists>a. r_heap example_scheduled = [a \<mapsto> first_message example_driver example_scheduled_packet example_ip]"
    by (auto simp: example_scheduled_def result_or_def example_r_driver)
qed

text \<open>A packet arrives as it was sent.\<close>

lemma arrives_unchanged:
  assumes "om_wf d m" "om_packets m i = Some p"
  shows "arrives_as d m i p"
proof -
  have "packet_ok d (chunk d (nat (om_messageLength m)) i) p"
    using assms unfolding om_wf_def om_layout_def by (metis option.simps(5))
  then show ?thesis using assms(2) by (simp add: arrives_as_def packet_ok_def)
qed

lemma example_arrives: "i < 3 \<Longrightarrow> arrives_as example_driver example_m3 i (the (om_packets example_m3 i))"
proof -
  assume "i < 3"
  have wf: "om_wf example_driver example_m3"
    using inv_msg [OF example_s3_inv example_heap(2)] by (simp add: msg_ok_def example_s3_driver)
  have "int i < om_numPackets example_m3" using \<open>i < 3\<close> by (simp add: example_m3_fields)
  then obtain p where "om_packets example_m3 i = Some p"
    using getPacket_ok [OF example_driver_ok wf, of "int i"] by auto
  with arrives_unchanged [OF wf this] show ?thesis by simp
qed

text \<open>The packets of the message out of order, one of them twice.\<close>

definition example_arrivals :: "((nat \<Rightarrow> u64) \<times> nat \<times> packet) list" where
  "example_arrivals = map (\<lambda>i. ((\<lambda>_. 8), i, the (om_packets example_m3 i))) [2, 0, 2, 1]"

lemma example_received_driver: "r_driver example_r1 = example_driver" "r_driver example_scheduled = example_driver"
proof -
  obtain r where r: "handleDataPacket (\<lambda>_. 8) (example_data 0) example_ip example_receiver = Inr r"
    using first_packet [OF example_receiver_start] example_packets_ok(1) example_r_driver by metis
  then show "r_driver example_r1 = example_driver"
    using ensuresD [OF handleDataPacket_frame r] example_r_driver by (simp add: rparams_def example_r1_def result_or_def)
  obtain r where r: "handleDataPacket (\<lambda>_. 8) example_scheduled_packet example_ip example_receiver = Inr r"
    using first_packet [OF example_receiver_start] example_packets_ok(2) example_r_driver by metis
  then show "r_driver example_scheduled = example_driver"
    using ensuresD [OF handleDataPacket_frame r] example_r_driver by (simp add: rparams_def example_scheduled_def result_or_def)
qed

lemma example_packets_for: "packets_for example_driver 20 = 3" "pdl example_driver = 9"
  by (simp_all add: packets_for_def pdl_def example_driver_def sizeof_DataHeader_def)

lemma example_first_message:
  defines "n \<equiv> first_message example_driver (example_data 0) example_ip"
  shows "\<not> im_scheduled n" "numExpectedPackets n = 3" "numUnscheduledPackets n = 11" "im_packets n 2 = None" "im_id n = example_id"
  by (simp_all add: n_def first_message_def stored_def progressed_def add_packet_def started_message_def fresh_message_def
      completes_def Let_def example_data_def DataHeader_def CommonHeader_def example_packets_for ScheduledMessageInfo_def)

section \<open>A message of one packet\<close>

definition example_short_packet :: packet where
  "example_short_packet =
     \<lparr>payload = encode_data (DataHeader 7 9 \<lparr>transportId = 33, sequence = 5\<rparr> 4 0 1 0) @ replicate 9 5, plength = 35\<rparr>"

lemma example_short_ok: "data_packet_ok example_driver example_short_packet"
  by (simp add: data_packet_ok_def example_short_packet_def DataHeader_def Let_def chunk_def
      packets_for_def pdl_def IM_MAX_MESSAGE_PACKETS_def)
    (simp add: example_driver_def sizeof_DataHeader_def)

definition example_short_message :: inMessage where
  "example_short_message = first_message example_driver example_short_packet example_ip"

definition example_completed :: receiver where
  "example_completed =
     result_or example_receiver (handleDataPacket (\<lambda>_. 8) example_short_packet example_ip example_receiver)"

lemma example_short_fields:
  "numExpectedPackets example_short_message = 1" "im_id example_short_message = \<lparr>transportId = 33, sequence = 5\<rparr>"
  "im_messageLength example_short_message = 4" "im_source example_short_message = \<lparr>sa_ip = example_ip, sa_port = 7\<rparr>"
  "completes 0 (started_message example_driver (decode_data (payload example_short_packet)) example_ip)"
  by (simp_all add: example_short_message_def first_message_def stored_def progressed_def add_packet_def started_message_def
      fresh_message_def completes_def Let_def example_short_packet_def DataHeader_def CommonHeader_def ScheduledMessageInfo_def
      packets_for_def example_packets_for)

lemma example_completed:
  "handleDataPacket (\<lambda>_. 8) example_short_packet example_ip example_receiver = Inr example_completed"
  "receiver_inv example_completed"
  "\<exists>a. r_heap example_completed = [a \<mapsto> example_short_message] \<and> receivedMessages example_completed = [a]"
proof -
  have d: "data_packet_ok (r_driver example_receiver) example_short_packet"
    using example_short_ok by (simp add: example_r_driver)
  obtain r a where r: "handleDataPacket (\<lambda>_. 8) example_short_packet example_ip example_receiver = Inr r" "receiver_inv r"
    "r_heap r = [a \<mapsto> first_message (r_driver example_receiver) example_short_packet example_ip]"
    "receivedMessages r =
      (if completes (unat (dh_index (decode_data (payload example_short_packet))))
         (started_message (r_driver example_receiver) (decode_data (payload example_short_packet)) example_ip) then [a] else [])"
    using first_packet [OF example_receiver_start d] .
  have "unat (dh_index (decode_data (payload example_short_packet))) = 0"
    by (simp add: example_short_packet_def DataHeader_def Let_def)
  with r example_short_fields(5)
  show "handleDataPacket (\<lambda>_. 8) example_short_packet example_ip example_receiver = Inr example_completed"
    "receiver_inv example_completed"
    "\<exists>a. r_heap example_completed = [a \<mapsto> example_short_message] \<and> receivedMessages example_completed = [a]"
    by (auto simp: example_completed_def result_or_def example_r_driver example_short_message_def)
qed

text \<open>A packet that claims to belong to that message and lies beyond its end.\<close>

definition example_stray_packet :: packet where
  "example_stray_packet =
     \<lparr>payload = encode_data (DataHeader 7 9 \<lparr>transportId = 33, sequence = 5\<rparr> 4 0 1 3) @ replicate 9 5, plength = 35\<rparr>"

lemma example_first_state: "im_state (first_message example_driver (example_data 0) example_ip) = RX_IN_PROGRESS"
  by (simp add: first_message_def stored_def progressed_def add_packet_def started_message_def fresh_message_def
      completes_def Let_def example_data_def DataHeader_def CommonHeader_def example_packets_for ScheduledMessageInfo_def)

lemma example_scheduled_message:
  defines "n \<equiv> first_message example_driver example_scheduled_packet example_ip"
  shows "im_messageLength n = 20" "si_peer (im_info n) = Some example_ip" "im_state n = RX_IN_PROGRESS"
  by (simp_all add: n_def first_message_def stored_def progressed_def add_packet_def started_message_def fresh_message_def
      completes_def Let_def example_scheduled_packet_def DataHeader_def CommonHeader_def example_packets_for ScheduledMessageInfo_def)

lemma only_member:
  assumes "distinct xs" "\<And>y. y \<in> set xs \<longleftrightarrow> y = x"
  shows "xs = [x]"
proof (cases xs)
  case Nil
  with assms(2) [of x] show ?thesis by simp
next
  case (Cons y ys)
  then have y: "y = x" "x \<notin> set ys" using assms(1) assms(2) [of y] by auto
  moreover have "z = x" if "z \<in> set ys" for z using that assms(2) [of z] Cons by simp
  ultimately have "ys = []" by (cases ys) auto
  with Cons y(1) show ?thesis by simp
qed

lemma example_scheduled_peers: "scheduledPeers example_scheduled = [example_ip]"
proof -
  note s = rinv_parts(7) [OF example_received(3)]
  obtain a where a: "r_heap example_scheduled = [a \<mapsto> first_message example_driver example_scheduled_packet example_ip]"
    using example_received(4) by blast
  have "linked_to (r_heap example_scheduled) ip \<noteq> {} \<longleftrightarrow> ip = example_ip" for ip
    unfolding a linked_to_def using example_scheduled_message(2) by auto
  then have "ip \<in> set (scheduledPeers example_scheduled) \<longleftrightarrow> ip = example_ip" for ip
    using sched_ok_parts(1) [OF s, of ip] sched_ok_parts(3) [OF s, of ip] by (metis peer_ok_def set_empty)
  with sched_ok_parts(2) [OF s] show ?thesis by (rule only_member)
qed

lemma example_short_state: "im_state example_short_message = RX_COMPLETED" "im_start example_short_message = 0"
  by (simp_all add: example_short_message_def first_message_def stored_def progressed_def add_packet_def started_message_def
      fresh_message_def completes_def Let_def example_short_packet_def DataHeader_def CommonHeader_def ScheduledMessageInfo_def
      packets_for_def example_packets_for)

section \<open>A linked list\<close>

text \<open>Three nodes behind the root at address 0, with the keys 5, 7 and 3.\<close>

definition example_list :: "int iheap" where
  "example_list =
     \<lparr>nodes = (\<lambda>n.
        if n = 0 then \<lparr>owner = None, nlist = Some 0, nxt = 1, prv = 3\<rparr>
        else if n = 1 then \<lparr>owner = Some 5, nlist = Some 0, nxt = 2, prv = 0\<rparr>
        else if n = 2 then \<lparr>owner = Some 7, nlist = Some 0, nxt = 3, prv = 1\<rparr>
        else if n = 3 then \<lparr>owner = Some 3, nlist = Some 0, nxt = 0, prv = 2\<rparr>
        else \<lparr>owner = Some 0, nlist = None, nxt = n, prv = n\<rparr>),
      counts = (\<lambda>_. 0)(0 := 3)\<rparr>"

lemma example_list_deref: "deref (Suc 0) example_list = 5" "deref 1 example_list = 5" "deref 2 example_list = 7" "deref 3 example_list = 3"
  by (simp_all add: deref_def example_list_def)

lemma example_list:
  "is_list example_list 0 [1, 2, 3]"
  "rekeyed ((\<lambda>a. deref a example_list)(3 := 9)) (\<lambda>a. deref a example_list) 3 [1, 2, 3]"
  "rekeyed ((\<lambda>a. - deref a example_list)(1 := - 9)) (\<lambda>a. - deref a example_list) 1 [1, 2, 3]"
  by (simp_all add: is_list_def ring_def rekeyed_def example_list_deref) (simp add: example_list_def)

section \<open>Two drivers on one network\<close>

definition example_net :: "(fakeDriver \<times> fakeDriver) \<times> fakeNetwork" where
  "example_net =
     (let (d1, n1) = FakeDriver (\<lambda>x. x) 0 0 FakeNetwork; (d2, n2) = FakeDriver (\<lambda>x. x) 0 1 n1 in ((d1, d2), n2))"

definition example_d1 :: fakeDriver where "example_d1 = fst (fst example_net)"
definition example_d2 :: fakeDriver where "example_d2 = snd (fst example_net)"
definition example_network :: fakeNetwork where "example_network = snd example_net"

lemma example_net_facts:
  "estimator_ok (queueEstimator example_d1)" "lastUpdateTime (queueEstimator example_d1) = 0"
  "network example_network (fd_getLocalAddress example_d2) = Some (fd_nic example_d2)"
  "priorityQueue (nics example_network (fd_nic example_d2)) = replicate NUM_PRIORITIES []" "packetLossRate example_network = 0"
  by (simp_all add: example_d1_def example_d2_def example_network_def example_net_def FakeDriver_def registerNIC_def FakeNetwork_def
      fd_getLocalAddress_def FakeNIC_def Let_def QueueEstimator_ok [OF exact_rounding])
    (simp_all add: QueueEstimator_def)

text \<open>Two packets, the second one with the higher priority.\<close>

definition example_low :: packet where "example_low = fd_allocPacket\<lparr>plength := 1\<rparr>"
definition example_high :: packet where "example_high = fd_allocPacket\<lparr>plength := 2\<rparr>"

definition example_sendings :: "sending list" where
  "example_sendings = [(1, 0, example_low, 2), (5, 0, example_high, 7)]"

lemma example_sendings_ok:
  "\<forall>x\<in>set example_sendings. sending_ok x" "sorted_wrt (\<le>) (0 # map fst example_sendings)"
  by (simp_all add: example_sendings_def sending_ok_def example_low_def example_high_def fd_allocPacket_def FakePacket_def NUM_PRIORITIES_def)

lemma example_of_priority:
  "concat (map (\<lambda>i. map (\<lambda>p. (p, ip)) (of_priority example_sendings i)) (rev [0..<NUM_PRIORITIES])) =
     [(example_high, ip), (example_low, ip)]"
  by (simp add: of_priority_def example_sendings_def NUM_PRIORITIES_def upt_rec)

text \<open>A transport can be built on such a driver.\<close>

lemma fake_transport_start: "transport_start (TransportImpl conv (fake_driver d) tid)"
proof -
  have d: "driver_ok (fake_driver d)" by (rule fake_driver_ok)
  have rtt: "unat (RTT_BYTES (Policy_Manager (fake_driver d))) = 10000" "MAX_PRIORITY (Policy_Manager (fake_driver d)) = 7"
    by (simp_all add: Policy_Manager_def Let_def RTT_TIME_US_def fake_driver_def fd_getBandwidth_def
        fd_getHighestPacketPriority_def NUM_PRIORITIES_def)
  have "pdl (fake_driver d) = 1469"
    by (simp add: pdl_def fake_driver_def fd_getMaxPayloadSize_def MAX_PAYLOAD_SIZE_def sizeof_DataHeader_def)
  with d rtt policy_ok_start [OF d] have "static_ok (fake_driver d) (Policy_Manager (fake_driver d))"
    "rstatic_ok (fake_driver d) (Policy_Manager (fake_driver d))"
    by (simp_all add: static_ok_def rstatic_ok_def)
  then show ?thesis by (auto simp: transport_start_def)
qed

section \<open>A library under the DPDK driver\<close>

text \<open>Buffers of 2048 bytes; the burst is transmitted when it reaches 32 packets. A new buffer is one that
  does not wait.\<close>

record simple_rte =
  sr_data :: "addr \<Rightarrow> bytes"
  sr_waiting :: "addr list"

definition sr_buffered :: "simple_rte \<Rightarrow> addr list" where
  "sr_buffered e = take 31 (sr_waiting e)"

definition sr_bytes :: "addr \<Rightarrow> simple_rte \<Rightarrow> bytes" where
  "sr_bytes m e = take 2048 (sr_data e m)"

definition sr_set :: "addr \<Rightarrow> bytes \<Rightarrow> simple_rte \<Rightarrow> simple_rte" where
  "sr_set m bs e = e\<lparr>sr_data := (sr_data e)(m := bs)\<rparr>"

definition simple_library :: "simple_rte rte" where
  "simple_library =
     \<lparr>rte_pktmbuf_alloc = (\<lambda>e. (Some (Suc (sum_list (sr_buffered e))), e)),
      rte_pktmbuf_append = (\<lambda>m n e. (Some (length (sr_bytes m e)), sr_set m (sr_bytes m e @ replicate (unat n) 0) e)),
      rte_pktmbuf_free = (\<lambda>m e. e),
      rte_mbuf_refcnt_read = (\<lambda>m e. if m \<in> set (sr_buffered e) then 2 else 1),
      rte_pktmbuf_refcnt_update = (\<lambda>m i e. e),
      mbuf_data = sr_bytes,
      mbuf_store = (\<lambda>m off bs e. sr_set m (memcpy (sr_bytes m e) off bs) e),
      nb_segs = (\<lambda>m e. 1),
      rte_pktmbuf_trim = (\<lambda>m n e. (0, sr_set m (take (length (sr_bytes m e) - unat n) (sr_bytes m e)) e)),
      rte_pktmbuf_clone = (\<lambda>m e. (None, e)),
      rte_ring_enqueue = (\<lambda>m e. (0, e)),
      rte_ring_count = (\<lambda>e. 0),
      rte_ring_dequeue = (\<lambda>e. (None, e)),
      rte_eth_rx_burst = (\<lambda>n e. ([], e)),
      rte_eth_tx_buffer = (\<lambda>m e. if length (sr_waiting e) < 31 then ([], e\<lparr>sr_waiting := sr_waiting e @ [m]\<rparr>)
        else (sr_buffered e @ [m], e\<lparr>sr_waiting := []\<rparr>)),
      rte_eth_tx_buffer_flush = (\<lambda>e. (sr_buffered e, e\<lparr>sr_waiting := []\<rparr>))\<rparr>"

lemma sr_set_simps [simp]:
  "sr_buffered (sr_set m bs e) = sr_buffered e" "sr_bytes x (sr_set m bs e) = (if x = m then take 2048 bs else sr_bytes x e)"
  by (simp_all add: sr_set_def sr_buffered_def sr_bytes_def)

lemma sr_new: "Suc (sum_list (xs :: nat list)) \<notin> set xs"
  using member_le_sum_list by fastforce

lemma simple_library_ok: "rte_ok simple_library sr_buffered"
proof -
  have len: "length (sr_bytes m e) < 2 ^ 32" for m e by (simp add: sr_bytes_def)
  have tx: "burst = [] \<and> sr_buffered e' = sr_buffered e @ [m] \<and> (\<forall>x\<in>set (sr_buffered e @ [m]). sr_bytes x e' = sr_bytes x e) \<or>
      burst = sr_buffered e @ [m] \<and> sr_buffered e' = []"
    if "rte_eth_tx_buffer simple_library m e = (burst, e')" for m e burst e'
    using that by (auto simp: simple_library_def sr_buffered_def sr_bytes_def split: if_splits)
  have fl: "burst = sr_buffered e \<and> sr_buffered e' = []"
    if "rte_eth_tx_buffer_flush simple_library e = (burst, e')" for e burst e'
    using that by (auto simp: simple_library_def sr_buffered_def)
  have d: "mbuf_data simple_library = sr_bytes" by (simp add: simple_library_def)
  have n: "length (sr_buffered e) \<le> 32" for e by (simp add: sr_buffered_def)
  show ?thesis
    unfolding rte_ok_def keeps_def d
    by (intro conjI allI impI;
        (rule len | rule n | erule tx | drule fl, erule conjunct1 | drule fl, erule conjunct2 |
         simp add: simple_library_def sr_new | fastforce simp: simple_library_def sr_new))
qed

lemma simple_data_ok: "data_ok simple_library"
proof -
  have l: "length (sr_bytes m e) \<le> 2048" for m e by (simp add: sr_bytes_def)
  have "min 2048 (length (sr_bytes m e) - k) = length (sr_bytes m e) - k" for m e k
    using le_trans [OF diff_le_self l] by (rule min.absorb2)
  with l show ?thesis by (simp add: data_ok_def simple_library_def take_all)
qed

text \<open>A driver that knows one other host, and a packet of 3 bytes in a buffer.\<close>

definition example_mac :: macAddress where "example_mac = \<lparr>address = [1, 2, 3, 4, 5, 6]\<rparr>"
definition example_mac2 :: macAddress where "example_mac2 = \<lparr>address = [1, 2, 3, 4, 5, 7]\<rparr>"

definition example_dpdk :: dpdk where
  "example_dpdk =
     \<lparr>arpTable = [\<lparr>ip_addr = 7\<rparr> \<mapsto> example_mac2], localIp = \<lparr>ip_addr = 5\<rparr>, localMac = example_mac,
      HIGHEST_PACKET_PRIORITY = dd_highest_priority None, packetPool = ObjectPool, overflowBufferPool = ObjectPool,
      mbufsOutstanding = 0, hasHardwareFilter = False, corked = 0, bandwidthMbps = 10000, bufferedBytes = 0,
      tx_estimator = QueueEstimator (\<lambda>x. x) 0 10000, dd_packets = Map.empty, dd_overflow = (\<lambda>_. [])\<rparr>"

definition example_dpdk_packet :: dpdkPacket where
  "example_dpdk_packet = (Packet_mbuf 1 PACKET_HDR_LEN)\<lparr>dp_length := 3\<rparr>"

definition example_rte :: simple_rte where
  "example_rte = \<lparr>sr_data = (\<lambda>_. replicate 1522 8), sr_waiting = []\<rparr>"

definition example_sending :: dpdk where
  "example_sending = example_dpdk\<lparr>dd_packets := [0 \<mapsto> example_dpdk_packet]\<rparr>"

lemma example_macs: "length (address example_mac) = 6" "length (address example_mac2) = 6"
  by (simp_all add: example_mac_def example_mac2_def)

lemma example_dpdk_inv: "dd_inv example_dpdk"
  by (simp add: dd_inv_def example_dpdk_def mbuf_packets_def overflow_used_def pool_ok_start MBUF_ALLOC_LIMIT_def
      NB_MBUF_def NB_MBUF_RESERVED_def)

lemma example_tx_inv: "tx_inv simple_library sr_buffered example_sending example_rte"
  by (simp add: tx_inv_def example_sending_def example_dpdk_def example_rte_def sr_buffered_def QueueEstimator_ok [OF exact_rounding])

lemma example_rte_data: "mbuf_data simple_library m example_rte = replicate 1522 8"
  by (simp add: simple_library_def sr_bytes_def example_rte_def)

end
