(* ===== verification/Spec2Isabelle.thy ===== *)
theory Spec2Isabelle
  imports Examples
begin

text \<open>
  A verification development for Homa (src/), a transport protocol for data centres in which the
  receiver decides who sends: a sender transmits the first packets of a message unasked, the
  receiver grants the others, shortest remaining message first.

  \<^bold>\<open>The program and its parts.\<close> An application calls a transport (TransportImpl): it allocates an
  outgoing message, fills it with \<open>reserve\<close>, \<open>append\<close> and \<open>prepend\<close>, sends it, and takes received
  messages from a queue. The transport polls its driver for packets, hands each one to the Sender
  or the Receiver by its opcode, and lets both make progress: the sender sends granted packets
  from its queue, the receiver sends grants, and both check timeouts. Sender and Receiver keep
  messages in hash buckets of intrusive lists, allocate them from an object pool and ask the policy
  manager for priorities and limits.

  \<^bold>\<open>Theories.\<close>
  \<^item> Prelude: results with errors (\<open>'a res\<close> is \<open>error + 'a\<close>, \<open>bindr\<close> is the sequencing of fallible calls,
    \<open>require\<close> an assertion, a bounds check or an arithmetic operation that must not overflow), the
    machine types, C division, and \<open>ensures\<close>, a calculus of postconditions; the locale \<open>component\<close>
    of a transition system with an invariant.
  \<^item> Intrusive, Prioritize (src/Intrusive.h): nodes, pointers and counters of the lists in an explicit
    heap, every list operation on pointers, \<open>is_list h r xs\<close> (the list at root \<open>r\<close> holds the sequence
    \<open>xs\<close>); \<open>prioritize\<close> and \<open>deprioritize\<close> on pointers compute \<open>prioritize_seq\<close> and \<open>deprioritize_seq\<close>, which
    the models of Sender and Receiver use on sequences.
  \<^item> Timeout (src/Timeout.h), Protocol (src/Protocol.h), Perf (src/Perf.h, src/Perf.cc), ObjectPool
    (src/ObjectPool.h), Policy (src/Policy.h, src/Policy.cc), Driver (include/Homa/Driver.h,
    include/Homa/Util.h, src/ControlPacket.h).
  \<^item> QueueEstimator (include/Homa/Drivers/Util/QueueEstimator.h), the estimate of the bytes that wait in
    a network card; FakeDriver (include/Homa/Drivers/Fake/FakeDriver.h, src/Drivers/Fake/FakeDriver.cc), the
    network inside a process that copies packets between drivers.
  \<^item> Addresses (src/Driver.cc, src/Drivers/DPDK/MacAddress.h, src/Drivers/DPDK/MacAddress.cc), the text form
    of addresses; StringUtil (src/StringUtil.cc, src/ThreadId.cc), strings and the names of threads; Debug
    (include/Homa/Debug.h, src/Debug.cc), levels, policies and messages of the log; Util (src/Util.cc,
    src/CodeLocation.cc), dumps of buffers and names of files.
  \<^item> DpdkDriver (src/Drivers/DPDK/DpdkDriverImpl.h, src/Drivers/DPDK/DpdkDriverImpl.cc), the data path of the
    driver for a real card, with the DPDK library as the parameter \<open>'e rte\<close>; Dpdk_Correct, the buffers
    in use (\<open>dd_inv\<close>); Dpdk_Transmit, the waiting bytes (\<open>tx_inv\<close>) and the frames, under the laws
    \<open>rte_ok\<close> and \<open>data_ok\<close> of the library.
  \<^item> SpinLock (src/SpinLock.h), the lock and the threads that compete for it, as a transition system of
    interleaved steps; Tub (src/Tub.h), a container that may be empty.
  \<^item> Out_Message, Sender (src/Sender.h, src/Sender.cc): the outgoing message and all handlers;
    Sender_Invariant (the invariant \<open>sender_inv\<close> in layers), Sender_Correct, Sender_Send,
    Sender_TrySend (every operation succeeds and keeps it), Sender_System (the transition system
    and its reachable states), Sender_Effects (what a handler does to the message it is for).
  \<^item> In_Message, Receiver (src/Receiver.h, src/Receiver.cc), Receiver_Schedule, Receiver_Invariant,
    Receiver_Correct, Receiver_Resend, Receiver_Grant, Receiver_Data, Receiver_System and
    Receiver_Effects: the same for the receiver, with its schedule of messages that need grants.
  \<^item> Frames: which fields every operation leaves alone. Transport (src/TransportImpl.h,
    src/TransportImpl.cc): the composition. End_To_End: a sent message on its way to a receiver.
  \<^item> Examples: the concrete states on which the hypotheses of the theorems are shown to hold.

  \<^bold>\<open>State and operations.\<close> A class is a record with the members of the class; an operation takes the
  record and returns it updated, or an error. Messages live in heaps (\<open>s_heap\<close>, \<open>r_heap\<close>) from
  addresses to records. An intrusive list is the sequence of the addresses of its elements, a bucket
  map a function from the bucket number. Packets given to the driver, packets given back to it and
  increments of counters are events, appended to a list in the order in which the code causes
  them. What the code reads from outside is an argument: the time stamp counter (a function from
  the number of the read to the value, so that the values may be anything), the number of bytes the
  driver has queued, the packets that arrive. Assertions of the code are checked in every build of
  the model; so are null pointers, array bounds, \<open>std::bitset\<close> indices, signed overflow and division
  by zero.

  \<^bold>\<open>What the theorems show.\<close> Delivery from end to end (C1); invariants of the sender, the receiver and the
  transport in all reachable states (C2 to C4); that packets cause no failure (C5) and control
  packets are given back (C6); the functional behaviour of every handler and of the operations on
  messages, with their errors (C7, C9 to C15, C17 to C20, C25 to C27); the loops end (C8, C22, C31);
  what is asked for and granted (C16, C21, C23, C24); the wire format (C28); the pointer code of the
  ordered lists (C29); timeouts (C30), priorities (C32), counters (C33) and memory (C34); the order of
  delivery in the fake network (C35); the frames, the waiting bytes and the buffers of the DPDK
  driver (C36 to C38); mutual exclusion of the spin lock (C39); the text of addresses and log policies
  (C40). Some of them state what the code does where that is not what it means to do: C7, C11, C16,
  C17, C18, C20 and C25.

  \<^bold>\<open>Bounds and fuel.\<close> Loops over a list are recursive functions over the list. The loops that move
  through a list they change have fuel: \<open>prioritize\<close>, \<open>deprioritize\<close> and \<open>clear\<close> the number of elements,
  the timeout loops the number of timeouts, \<open>trySend\<close> one round per granted packet and per queued
  message (\<open>trySend_fuel\<close>), \<open>trySendGrants\<close> the degree of overcommitment, the copying loops of
  messages the number of bytes. Running out of fuel is the error \<open>OutOfFuel\<close>; the theorems above show
  that the fuel is enough, since the result is never an error. The timeout loops that restart
  timeouts end only if a restarted timeout lies beyond the time of the check, which C31 assumes. A
  payload of less than 64 KiB bounds a message of 1024 packets to 64 MiB, so that lengths fit in
  an \<open>int\<close>. Sequence numbers are not reused within \<open>2^64\<close> messages (\<open>sendable\<close>).

  \<^bold>\<open>Not modelled.\<close> The interleaving of threads inside Sender and Receiver: every operation of the model
  is atomic, as if one lock were held throughout, which SpinLock shows to exclude; what a race
  between \<open>trySend\<close> and an incoming packet does is outside the model. The initialisation and shutdown
  of the DPDK library and of the card, which are sequences of calls into the library, and the
  forwarding class DpdkDriver. The virtual dispatch of include/Homa/Homa.h and the reference counting of
  \<open>unique_ptr\<close>. Demangling of names and the regular expression in src/CodeLocation.cc; the copies of
  containers in src/STLUtil.h and the exception classes. Tests, mocks and benchmarks.
\<close>

section \<open>From one host to another\<close>

text \<open>C1. A message that \<open>sendMessage\<close> accepts is delivered once and intact: when packets with the
  bytes of all its packets have reached a receiver, in any order and any of them any number of
  times, the receiver has appended one new complete message to its queue, with the identifier of
  the sent message and the address of the sender, and reading it returns the bytes that were
  sent; the receiver can fail for lack of memory only.\<close>

theorem end_to_end:
  assumes s: "sender_inv s" "s_heap s a = Some m" "om_state m = NOT_STARTED" "om_held m" "0 < om_numPackets m"
      "nextMessageSequenceNumber s \<noteq> - 1"
      "packets_for (s_driver s) (unat (RTT_BYTES (policyManager s))) \<le> IM_MAX_MESSAGE_PACKETS"
    and sent: "sendMessage tsc a dst opt s = Inr s'" "s_heap s' a = Some m'"
    and r: "receiver_inv r" "maxPayloadSize (r_driver r) = maxPayloadSize (s_driver s)"
      "\<forall>b n. r_heap r b = Some n \<longrightarrow> im_id n \<noteq> om_id m'"
    and qs: "\<forall>x\<in>set qs. arrives_as (s_driver s) m' (fst (snd x)) (snd (snd x))"
      "(fst \<circ> snd) ` set qs = {..<nat (om_numPackets m)}"
  shows "deliver qs ip r = Inl BadAlloc \<or>
    (\<exists>r' b n. deliver qs ip r = Inr r' \<and> r_heap r b = None \<and> r_heap r' = (r_heap r)(b \<mapsto> n) \<and>
       receivedMessages r' = receivedMessages r @ [b] \<and> im_state n = RX_COMPLETED \<and> im_id n = om_id m' \<and>
       im_source n = \<lparr>sa_ip = ip, sa_port = sa_port (om_source m)\<rparr> \<and>
       message_read (get 0 (word_of_int (om_messageLength m))) b r' = Inr (om_buffer (s_driver s) m))"
proof -
  have ns: "\<not> started m" using s(3) by (simp add: started_def)
  note w = sent_on_wire [OF s(1,2) ns s(4-7) sent]
  have d: "driver_ok (s_driver s)" using inv_parts(4) [OF s(1)] .
  have "om_wf (s_driver s) m" using inv_msg [OF s(1,2)] by (simp add: msg_ok_def)
  then have all: "(fst \<circ> snd) ` set qs = all_packets (s_driver s) m'"
    using w(3) qs(2) by (simp add: all_packets_def om_wf_def om_layout_def)
  from deliver_complete [OF r(1) w(4) d r(2,3) qs(1) all, of ip] show ?thesis unfolding w(2,3) by blast
qed

theorem end_to_end_witness:
  "deliver example_arrivals example_ip example_receiver = Inl BadAlloc \<or>
    (\<exists>r' b n. deliver example_arrivals example_ip example_receiver = Inr r' \<and> r_heap example_receiver b = None \<and>
       r_heap r' = (r_heap example_receiver)(b \<mapsto> n) \<and>
       receivedMessages r' = receivedMessages example_receiver @ [b] \<and> im_state n = RX_COMPLETED \<and> im_id n = om_id example_m3 \<and>
       im_source n = \<lparr>sa_ip = example_ip, sa_port = sa_port (om_source example_m2)\<rparr> \<and>
       message_read (get 0 (word_of_int (om_messageLength example_m2))) b r' = Inr (om_buffer (s_driver example_s2) example_m2))"
proof -
  have n: "0 < om_numPackets example_m2" "nextMessageSequenceNumber example_s2 \<noteq> - 1"
    "packets_for (s_driver example_s2) (unat (RTT_BYTES (policyManager example_s2))) \<le> IM_MAX_MESSAGE_PACKETS"
    using example_m2_fields example_s2_fields(4) example_limit by (simp_all add: IM_MAX_MESSAGE_PACKETS_def)
  have r: "maxPayloadSize (r_driver example_receiver) = maxPayloadSize (s_driver example_s2)"
    "\<forall>b n. r_heap example_receiver b = Some n \<longrightarrow> im_id n \<noteq> om_id example_m3"
    by (simp_all add: example_s2_fields example_r_driver) (simp add: example_receiver_def Receiver_def)
  have qs: "\<forall>x\<in>set example_arrivals. arrives_as (s_driver example_s2) example_m3 (fst (snd x)) (snd (snd x))"
    "(fst \<circ> snd) ` set example_arrivals = {..<nat (om_numPackets example_m2)}"
    using example_arrives by (auto simp: example_arrivals_def example_m2_fields example_s2_fields)
  show ?thesis
    using end_to_end [OF example_s_inv(2) example_heap(1) example_m2_fields(1,2) n example_steps(3) example_heap(2)
        example_inv(2) r qs, of example_ip] .
qed

section \<open>Invariants\<close>

text \<open>C2. In every state the sender can reach by calls of the application within their contract,
  incoming packets and polling, its invariant holds: every started message is in the bucket of
  its identifier and in no other, the send queue holds exactly the messages in progress in the
  order of their unsent bytes, the packets granted never exceed the packets of a message nor
  fall below those sent, and no two messages share an identifier.\<close>

theorem sender_invariant:
  assumes "sender_system.reachable s"
  shows "sender_inv s"
  using assms by (rule sender_system.reachable_inv)

theorem sender_invariant_witness: "sender_inv example_s2"
  using sender_invariant [OF example_reachable(2)] .

text \<open>C3. In every state the receiver can reach by DATA packets as a sender builds them, by any other
  packets, by calls of the application and by polling, its invariant holds: every message is in
  the bucket of its identifier, it is in progress exactly as long as packets are missing, it is
  on the list of its peer exactly when it is scheduled there, both levels of the schedule are
  ordered by missing bytes, and the queue holds complete messages, each once.\<close>

theorem receiver_invariant:
  assumes "receiver_system.reachable r"
  shows "receiver_inv r"
  using assms by (rule receiver_system.reachable_inv)

theorem receiver_invariant_witness: "receiver_inv example_receiver"
  using receiver_invariant [OF receiver_system.reach_start [OF example_receiver_start]] .



section \<open>The transport\<close>





text \<open>C7. A packet with an opcode the protocol does not define is counted and then forgotten: neither
  component sees it, and no event of the transport, the sender or the receiver hands its buffer
  back to the driver.\<close>

theorem unknown_opcode_ignored:
  assumes "hopcode (decode_common (payload p)) \<notin> range opcode_value" "int sizeof_CommonHeader \<le> plength p"
  shows "processPacket tsc p ip t = Inr (t\<lparr>t_events := t_events t @ [PerfAdd rx_bytes (word_of_int (plength p))]\<rparr>)"
proof -
  have "hopcode (decode_common (payload p)) \<noteq> opcode_value op" for op using assms(1) by blast
  then show ?thesis using assms(2) unfolding processPacket_def Let_def by (simp add: t_emit_def del: opcode_value.simps)
qed

theorem unknown_opcode_ignored_witness:
  "processPacket (\<lambda>_. 3) \<lparr>payload = replicate 40 0, plength = 40\<rparr> example_ip example_transport =
     Inr (example_transport\<lparr>t_events := t_events example_transport @ [PerfAdd rx_bytes (word_of_int 40)]\<rparr>)"
proof -
  have "field 5 1 (replicate 40 (0 :: u8)) = (0 :: u8)" by (simp add: field_def eval_nat_numeral)
  then have "hopcode (decode_common (replicate 40 0)) \<noteq> opcode_value op" for op
    by (cases op) (simp_all add: decode_common_def)
  then have h: "hopcode (decode_common (payload \<lparr>payload = replicate 40 0, plength = 40\<rparr>)) \<notin> range opcode_value" by auto
  have l: "int sizeof_CommonHeader \<le> plength \<lparr>payload = replicate 40 (0 :: u8), plength = 40\<rparr>" by (simp add: sizeof_CommonHeader_def)
  show ?thesis using unknown_opcode_ignored [OF h l, of "\<lambda>_. 3" example_ip example_transport] by simp
qed

section \<open>Sending\<close>

text \<open>C8. \<open>trySend\<close> comes to an end: with the fuel the model gives its loops, one unit per granted
  packet and queue position, it returns, whatever the driver's queue holds, and leaves a
  consistent sender behind that can be polled again.\<close>

theorem trySend_terminates:
  assumes "sender_inv s" "\<not> sending s"
  shows "\<exists>s'. trySend tsc queued s = Inr s' \<and> sender_inv s' \<and> \<not> sending s'"
  using trySend_ok [OF assms] .

theorem trySend_terminates_witness: "\<exists>s'. trySend (\<lambda>_. 4) 0 example_s3 = Inr s' \<and> sender_inv s' \<and> \<not> sending s'"
proof -
  have "\<not> sending example_s3" by code_simp
  then show ?thesis by (rule trySend_terminates [OF example_s3_inv])
qed

text \<open>C9. \<open>sendMessage\<close> on a message the application has filled: a message of one packet is sent at
  once, a longer one is queued with the unscheduled packets granted, nothing sent and all bytes
  to go; its contents do not change, every packet gets its header, the identifier is the next
  one of the transport, and the sender stays consistent.\<close>

theorem sendMessage_correct:
  assumes s: "sender_inv s" and m: "s_heap s a = Some m" "om_state m = NOT_STARTED" "om_held m" "0 < om_numPackets m"
    and id: "nextMessageSequenceNumber s \<noteq> - 1"
  shows "\<exists>s' m'. sendMessage tsc a dst opt s = Inr s' \<and> sender_inv s' \<and> s_heap s' = (s_heap s)(a \<mapsto> m') \<and>
    om_state m' = (if om_numPackets m = 1 then SENT else IN_PROGRESS) \<and>
    om_contents (s_driver s) m' = om_contents (s_driver s) m \<and>
    om_id m' = \<lparr>transportId = s_transportId s, sequence = nextMessageSequenceNumber s\<rparr> \<and>
    (\<forall>j. int j < om_numPackets m \<longrightarrow> (\<exists>p. om_packets m' j = Some p \<and> decode_data (payload p) =
       DataHeader (sa_port (om_source m)) (sa_port dst) (om_id m') (word_of_int (om_messageLength m)) 0
         (word_of_int (int (packets_for (s_driver s) (unat (RTT_BYTES (policyManager s)))))) (of_nat j))) \<and>
    (om_numPackets m \<noteq> 1 \<longrightarrow> packetsSent (om_info m') = 0 \<and> unsentBytes (om_info m') = om_messageLength m \<and>
       packetsGranted (om_info m') =
         min (int (packets_for (s_driver s) (unat (RTT_BYTES (policyManager s))))) (om_numPackets m))"
proof -
  let ?id = "\<lparr>transportId = s_transportId s, sequence = nextMessageSequenceNumber s\<rparr>"
  let ?l = "int (packets_for (s_driver s) (unat (RTT_BYTES (policyManager s))))"
  have ns: "\<not> started m" using m(2) by (simp add: started_def)
  obtain s' m' prio where r: "sendMessage tsc a dst opt s = Inr s'" "sender_inv s'" "s_heap s' = (s_heap s)(a \<mapsto> m')"
    "om_state m' = (if om_numPackets m = 1 then SENT else IN_PROGRESS)" "om_contents (s_driver s) m' = om_contents (s_driver s) m"
    and e: "m' = (prepared ?id dst opt 0 ?l m)\<lparr>om_state := if om_numPackets m = 1 then SENT else IN_PROGRESS, om_info := om_info m'\<rparr>"
    and i: "om_numPackets m \<noteq> 1 \<longrightarrow> om_info m' = new_info a ?id dst (om_messageLength m) (min ?l (om_numPackets m)) prio"
    using sendMessage_ok [OF s m(1) ns m(3,4) id, of tsc dst opt] by blast
  obtain st q where e': "m' = (prepared ?id dst opt 0 ?l m)\<lparr>om_state := st, om_info := q\<rparr>" using e by blast
  have p: "om_id m' = ?id" "om_packets m' = om_packets (prepared ?id dst opt 0 ?l m)" by (simp_all add: e')
  have wf: "om_wf (s_driver s) m" using inv_msg [OF s m(1)] by (simp add: msg_ok_def)
  have "\<exists>p. om_packets m' j = Some p \<and> decode_data (payload p) =
      DataHeader (sa_port (om_source m)) (sa_port dst) (om_id m') (word_of_int (om_messageLength m)) 0 (word_of_int ?l) (of_nat j)"
    if "int j < om_numPackets m" for j
    using prepared_header [OF inv_parts(4) [OF s] wf that, of ?id dst opt 0 ?l] unfolding p by blast
  moreover have "packetsSent (om_info m') = 0 \<and> unsentBytes (om_info m') = om_messageLength m \<and>
      packetsGranted (om_info m') = min ?l (om_numPackets m)" if "om_numPackets m \<noteq> 1"
    using i that by (simp add: new_info_def)
  ultimately show ?thesis using r p(1) by blast
qed

theorem sendMessage_correct_witness:
  "\<exists>s' m'. sendMessage (\<lambda>_. 5) 0 example_destination 0 example_s2 = Inr s' \<and> sender_inv s' \<and>
    s_heap s' = (s_heap example_s2)(0 \<mapsto> m') \<and> om_state m' = IN_PROGRESS \<and> om_id m' = example_id"
proof -
  have "0 < om_numPackets example_m2" "nextMessageSequenceNumber example_s2 \<noteq> - 1"
    using example_m2_fields example_s2_fields(4) by simp_all
  from sendMessage_correct [OF example_s_inv(2) example_heap(1) example_m2_fields(1,2) this, of "\<lambda>_. 5" example_destination 0]
  show ?thesis using example_m2_fields(3) example_s2_fields by (auto simp: example_id_def)
qed

text \<open>C10. The application can build a message back to front: reserving room for a header, appending
  the body and prepending the header gives a message with the header and then the body, up to
  the largest message there is.\<close>

theorem message_built:
  assumes "driver_ok d" "length hdr + length body \<le> MAX_MESSAGE_PACKETS * pdl d"
    "downCast_int n1 = Inr (int (length hdr))" "downCast_int n2 = Inr (int (length body))"
  shows "\<exists>m. bindr (om_reserve d n1 (OutMessage d port)) (\<lambda>m1. bindr (om_append d body n2 m1) (om_prepend hdr n1)) = Inr m \<and>
    om_wf d m \<and> om_start m = 0 \<and> om_contents d m = hdr @ body"
  using build_message [OF assms] .

theorem message_built_witness:
  "\<exists>m. bindr (om_reserve example_driver 2 (OutMessage example_driver 7))
      (\<lambda>m1. bindr (om_append example_driver example_bytes 20 m1) (om_prepend [8, 9] 2)) = Inr m \<and>
    om_wf example_driver m \<and> om_start m = 0 \<and> om_contents example_driver m = [8, 9] @ example_bytes"
proof -
  have "length [8, 9 :: u8] + length example_bytes \<le> MAX_MESSAGE_PACKETS * pdl example_driver"
    "downCast_int 2 = Inr (int (length [8, 9 :: u8]))" "downCast_int 20 = Inr (int (length example_bytes))"
    using downCast_int_small [of 2] downCast_int_small [of 20]
    by (simp_all add: example_bytes_def MAX_MESSAGE_PACKETS_def pdl_def)
      (simp add: example_driver_def sizeof_DataHeader_def)
  then show ?thesis by (rule message_built [OF example_driver_ok])
qed

text \<open>C11. \<open>append\<close> adds bytes at the end of a message, as many as were asked for or as there is room,
  and changes nothing else of its contents; the packets stay laid out as the wire format asks. A
  byte count that is negative as an \<open>int\<close> passes the checked conversion as well: then no byte is
  copied and the message gets shorter by the amount.\<close>

theorem append_correct:
  assumes "driver_ok d" "om_wf d m" "downCast_int cnt = Inr c"
  shows "(0 \<le> c \<and> c < 2 ^ 31 - 2 ^ 26 \<and> c \<le> int (length src) \<longrightarrow>
      (\<exists>m'. om_append d src cnt m = Inr m' \<and> om_wf d m' \<and>
        om_buffer d m' = om_buffer d m @ take (min (nat c) (MAX_MESSAGE_PACKETS * pdl d - nat (om_messageLength m))) src)) \<and>
    (c < 0 \<longrightarrow> om_append d src cnt m = Inr (m\<lparr>om_messageLength := om_messageLength m + c\<rparr>))"
proof (intro conjI impI)
  assume "0 \<le> c \<and> c < 2 ^ 31 - 2 ^ 26 \<and> c \<le> int (length src)"
  then have "nat c < 2 ^ 31 - 2 ^ 26" "nat c \<le> length src" "downCast_int cnt = Inr (int (nat c))" using assms(3) by auto
  from om_append_eq [OF assms(1,2) this] show "\<exists>m'. om_append d src cnt m = Inr m' \<and> om_wf d m' \<and>
      om_buffer d m' = om_buffer d m @ take (min (nat c) (MAX_MESSAGE_PACKETS * pdl d - nat (om_messageLength m))) src"
    by (auto simp: Let_def room_for_def)
next
  assume c: "c < 0"
  have lay: "om_layout d (nat (om_messageLength m)) m" "0 \<le> om_messageLength m" using assms(2) by (simp_all add: om_wf_def)
  then have "nat (om_messageLength m) \<le> MAX_MESSAGE_PACKETS * pdl d" by (simp add: om_layout_def)
  then have l: "om_messageLength m \<le> int (MAX_MESSAGE_PACKETS * pdl d)" "om_PACKET_DATA_LENGTH m \<noteq> 0"
    using lay pdl_pos [OF assms(1)] unfolding nat_le_iff by (simp_all add: om_layout_def)
  have "int (MAX_MESSAGE_PACKETS * pdl d) < 2 ^ 31" using pdl_bound [OF assms(1)] by (simp add: MAX_MESSAGE_PACKETS_def)
  moreover have "- (2 ^ 31) \<le> c"
    using assms(3) sint_greater_eq [of "ucast cnt :: u32"] by (auto simp: downCast_int_def int_of_u64_def Let_def res_simps)
  ultimately have "in_int32 (om_messageLength m + c)" using c l(1) lay(2) by (simp add: in_int32_def)
  moreover have "om_messageLength m + c \<le> maxMessageLength m" unfolding maxMessageLength_layout [OF assms(1) lay(1)] using l(1) c by simp
  ultimately show "om_append d src cnt m = Inr (m\<lparr>om_messageLength := om_messageLength m + c\<rparr>)"
    by (rule om_append_negative [OF assms(3) c l(2)])
qed

theorem append_correct_witness:
  "(\<exists>m'. om_append example_driver example_bytes 20 (OutMessage example_driver 7) = Inr m' \<and> om_buffer example_driver m' = example_bytes) \<and>
   om_append example_driver [] (- 5) (OutMessage example_driver 7) = Inr ((OutMessage example_driver 7)\<lparr>om_messageLength := - 5\<rparr>)"
proof
  note a = append_correct [OF example_driver_ok OutMessage_wf [OF example_driver_ok], where port1 = 7]
  have b: "length example_bytes = 20" "om_messageLength (OutMessage example_driver 7) = 0"
    "om_buffer example_driver (OutMessage example_driver 7) = []" "20 \<le> MAX_MESSAGE_PACKETS * pdl example_driver"
    by (simp_all add: example_bytes_def OutMessage_def om_buffer_def MAX_MESSAGE_PACKETS_def pdl_def)
      (simp add: example_driver_def sizeof_DataHeader_def)
  have "downCast_int 20 = Inr 20" using downCast_int_small [of 20] by simp
  from a [OF this, of example_bytes] b
  show "\<exists>m'. om_append example_driver example_bytes 20 (OutMessage example_driver 7) = Inr m' \<and> om_buffer example_driver m' = example_bytes"
    by auto
  have "downCast_int (- 5) = Inr (- 5)" by code_simp
  from a [OF this, of "[]"] b(2)
  show "om_append example_driver [] (- 5) (OutMessage example_driver 7) = Inr ((OutMessage example_driver 7)\<lparr>om_messageLength := - 5\<rparr>)" by simp
qed

text \<open>C12. Shortest message first: the first message of the send queue is in progress and has the fewest
  unsent bytes of all messages in progress.\<close>

theorem send_queue_shortest_first:
  assumes "sender_system.reachable s" "sendQueue s = a # q" "s_heap s b = Some n" "om_state n = IN_PROGRESS"
  shows "\<exists>m. s_heap s a = Some m \<and> om_state m = IN_PROGRESS \<and> unsentBytes (om_info m) \<le> unsentBytes (om_info n)"
proof -
  have q: "queue_ok (s_heap s) (a # q)"
    using sender_system.reachable_inv [OF assms(1)] assms(2) by (simp add: sender_inv_def)
  then obtain m where m: "s_heap s a = Some m" "om_state m = IN_PROGRESS" by (auto simp: queue_ok_def)
  have "b \<in> set (a # q)" using q assms(3,4) unfolding queue_ok_def by blast
  then have "\<not> key_of (s_heap s) b < key_of (s_heap s) a" using q by (auto simp: queue_ok_def)
  with m assms(3) show ?thesis by (simp add: key_of_def)
qed

theorem send_queue_shortest_first_witness:
  "\<exists>m. s_heap example_s3 0 = Some m \<and> om_state m = IN_PROGRESS \<and> unsentBytes (om_info m) \<le> unsentBytes (om_info example_m3)"
proof -
  have "sendQueue example_s3 = [0]" by code_simp
  then show ?thesis
    using send_queue_shortest_first [OF sender_system.reach_step [OF example_reachable(2) example_send_step] _ example_heap(2)]
      example_m3_fields(1) by simp
qed

text \<open>C13. GRANT: a message in progress may send up to the packet that holds the last byte granted, no
  less than before and no more than it has, at the priority of the grant; a grant that brings
  nothing new and a grant for a message in another state leave the message alone. The sender
  accepts the packet and stays consistent.\<close>

theorem grant_correct:
  assumes "sender_inv s" "s_heap s a = Some m" "started m" "hmessageId (gh_common (decode_grant (payload p))) = om_id m"
    "unat (byteLimit (decode_grant (payload p))) \<le> 65535 * pdl (s_driver s)"
  shows "\<exists>s'. handleGrantPacket tsc p s = Inr s' \<and> sender_inv s' \<and>
    s_heap s' = (s_heap s)(a \<mapsto> after_grant (s_driver s) (decode_grant (payload p)) m)"
  using grant_effect [OF assms] .

theorem grant_correct_witness:
  "\<exists>s'. handleGrantPacket (\<lambda>_. 6) (control_packet (encode_grant (GrantHeader example_id 15 2))) example_s3 = Inr s' \<and>
    sender_inv s' \<and> s_heap s' = (s_heap example_s3)(0 \<mapsto> after_grant example_driver (GrantHeader example_id 15 2) example_m3)"
proof -
  let ?p = "control_packet (encode_grant (GrantHeader example_id 15 2))"
  have h: "decode_grant (payload ?p) = GrantHeader example_id 15 2" by (simp add: control_packet_def)
  have "hmessageId (gh_common (decode_grant (payload ?p))) = om_id example_m3"
    "unat (byteLimit (decode_grant (payload ?p))) \<le> 65535 * pdl (s_driver example_s3)"
    unfolding h by (simp_all add: GrantHeader_def CommonHeader_def example_m3_fields example_s3_driver pdl_def)
      (simp add: example_driver_def sizeof_DataHeader_def)
  from grant_correct [OF example_s3_inv example_heap(2) example_m3_started this, of "\<lambda>_. 6"]
  show ?thesis unfolding h example_s3_driver .
qed

text \<open>C14. DONE and ERROR end a message only once all of it was sent: then it is completed or failed, in
  every other state it stays as it was.\<close>

theorem done_and_error:
  assumes "sender_inv s" "s_heap s a = Some m" "started m" "hmessageId (decode_common (payload p)) = om_id m"
  shows "(\<exists>s'. handleDonePacket p s = Inr s' \<and>
      s_heap s' = (s_heap s)(a \<mapsto> m\<lparr>om_state := if om_state m = SENT then COMPLETED else om_state m\<rparr>)) \<and>
    (\<exists>s'. handleErrorPacket p s = Inr s' \<and>
      s_heap s' = (s_heap s)(a \<mapsto> m\<lparr>om_state := if om_state m = SENT then FAILED else om_state m\<rparr>))"
  using done_effect [OF assms] by blast

theorem done_and_error_witness:
  "(\<exists>s'. handleDonePacket (control_packet (encode_common (DoneHeader example_id))) example_s3 = Inr s' \<and>
      s_heap s' = (s_heap example_s3)(0 \<mapsto> example_m3\<lparr>om_state := IN_PROGRESS\<rparr>)) \<and>
    (\<exists>s'. handleErrorPacket (control_packet (encode_common (DoneHeader example_id))) example_s3 = Inr s' \<and>
      s_heap s' = (s_heap example_s3)(0 \<mapsto> example_m3\<lparr>om_state := IN_PROGRESS\<rparr>))"
proof -
  have "hmessageId (decode_common (payload (control_packet (encode_common (DoneHeader example_id))))) = om_id example_m3"
    by (simp add: control_packet_def DoneHeader_def CommonHeader_def example_m3_fields)
  from done_and_error [OF example_s3_inv example_heap(2) example_m3_started this] show ?thesis
    using example_m3_fields(1) by simp
qed



text \<open>C16. The lost end of an unscheduled message is never sent again. A receiver that waits for such a
  message asks for missing packets up to the number of packets a sender may send unasked. When
  that exceeds the packets of the message, every request that covers the last packet reaches
  beyond the message, and the sender ignores it altogether.\<close>

theorem lost_tail_never_resent:
  assumes "rmsg_ok d n" "\<not> im_scheduled n" "numExpectedPackets n < numUnscheduledPackets n"
    "im_packets n (nat (numExpectedPackets n) - 1) = None"
    "sender_inv s" "s_heap s a = Some m" "started m" "1 < om_numPackets m" "om_numPackets m = numExpectedPackets n"
    "om_id m = im_id n"
  shows "resend_limit n = Inr (Some (numUnscheduledPackets n)) \<and>
    (\<exists>rs. resend_scan (map int [0..<nat (numUnscheduledPackets n)]) 0 0 d n = Inr (concat (map (resend_request d n) rs)) \<and>
      (\<exists>q\<in>set rs. nat (numExpectedPackets n) - 1 \<in> set (run_of q)) \<and>
      (\<forall>q\<in>set rs. nat (numExpectedPackets n) - 1 \<in> set (run_of q) \<longrightarrow>
        (\<forall>p tsc prio. decode_resend (payload p) = ResendHeader (im_id n) (of_nat (fst q)) (of_nat (snd q)) prio \<longrightarrow>
           handleResendPacket tsc p s = Inr (release_packet p (set_timeouts (getBucket (om_id m)) a (tsc 0) (tsc 1) s)))))"
  using unscheduled_limit(1) [OF assms(1,2)] lost_tail [OF assms] by blast

theorem lost_tail_never_resent_witness:
  "\<exists>n rs. resend_limit n = Inr (Some 11) \<and>
    resend_scan (map int [0..<11]) 0 0 example_driver n = Inr (concat (map (resend_request example_driver n) rs)) \<and>
    (\<exists>q\<in>set rs. 2 \<in> set (run_of q))"
proof -
  let ?n = "first_message example_driver (example_data 0) example_ip"
  obtain a where a: "r_heap example_r1 = [a \<mapsto> ?n]" using example_received(2) by blast
  then have ok: "rmsg_ok (r_driver example_r1) ?n" using rinv_msg [OF example_received(1)] by simp
  note n = example_first_message
  have "r_driver example_r1 = example_driver" using example_received_driver(1) .
  with ok have ok': "rmsg_ok example_driver ?n" by simp
  have c: "\<not> im_scheduled ?n" "numExpectedPackets ?n < numUnscheduledPackets ?n"
    "im_packets ?n (nat (numExpectedPackets ?n) - 1) = None" "1 < om_numPackets example_m4"
    "om_numPackets example_m4 = numExpectedPackets ?n" "om_id example_m4 = im_id ?n"
    using n example_m4_fields by simp_all
  from lost_tail_never_resent [OF ok' c(1-3) example_s4 example_m4_fields(1) c(4-6)] show ?thesis
    using n by auto
qed

text \<open>C17. A late GRANT revives a cancelled message: its timeouts, which \<open>cancel\<close> had stopped, run again,
  and when they expire the message counts as failed.\<close>

theorem late_grant_revives_cancelled:
  assumes "sender_inv s" "s_heap s a = Some m" "om_state m = CANCELED"
    "hmessageId (gh_common (decode_grant (payload p))) = om_id m"
  shows "\<exists>s'. handleGrantPacket tsc p s = Inr s' \<and>
    a \<in> set (tlist (messageTimeouts (messageBuckets s' (getBucket (om_id m))))) \<and>
    (\<exists>s''. expire_message (getBucket (om_id m)) a m s' = Inr s'' \<and> s_heap s'' a = Some (m\<lparr>om_state := FAILED\<rparr>))"
  using late_grant_restarts_timeout [OF assms] .

theorem late_grant_revives_cancelled_witness:
  "\<exists>s'. handleGrantPacket (\<lambda>_. 6) (control_packet (encode_grant (GrantHeader example_id 15 2))) example_cancelled = Inr s' \<and>
    0 \<in> set (tlist (messageTimeouts (messageBuckets s' (getBucket example_id))))"
proof -
  let ?p = "control_packet (encode_grant (GrantHeader example_id 15 2))"
  have id: "hmessageId (gh_common (decode_grant (payload ?p))) = om_id (example_m3\<lparr>om_state := CANCELED\<rparr>)"
    by (simp add: control_packet_def GrantHeader_def CommonHeader_def example_m3_fields)
  have "om_state (example_m3\<lparr>om_state := CANCELED\<rparr>) = CANCELED" by simp
  from late_grant_revives_cancelled [OF example_cancelled this id, of "\<lambda>_. 6"] show ?thesis
    by (auto simp: example_m3_fields)
qed



section \<open>Receiving\<close>

text \<open>C19. A DATA packet is stored in its message, the one with its identifier or a new one, unless the
  message has it already; nothing else of the heap changes, and the message is put at the end of
  the queue of received messages exactly when this packet completes it. The only failure is that
  there is no memory for a new message.\<close>

theorem data_packet_stored:
  assumes "receiver_inv r" "data_packet_ok (r_driver r) p" "data_fits p ip r"
  shows "handleDataPacket tsc p ip r = Inl BadAlloc \<and> pool_construct (r_messageAllocator r) = Inl BadAlloc \<or>
    (\<exists>r' a. handleDataPacket tsc p ip r = Inr r' \<and> receiver_inv r' \<and>
       (r_heap r a = Some (message_for p ip r) \<or> r_heap r a = None) \<and>
       im_id (message_for p ip r) = hmessageId (dh_common (decode_data (payload p))) \<and>
       r_heap r' = (r_heap r)(a \<mapsto> stored (r_driver r) (unat (dh_index (decode_data (payload p)))) p (message_for p ip r)) \<and>
       receivedMessages r' = receivedMessages r @
         (if completes (unat (dh_index (decode_data (payload p)))) (message_for p ip r) then [a] else []))"
  using handleDataPacket_ok [OF assms, of tsc] by blast

theorem data_packet_stored_witness:
  "\<exists>r'. handleDataPacket (\<lambda>_. 8) example_scheduled_packet example_ip example_receiver = Inr r' \<and> receiver_inv r'"
proof -
  have f: "data_packet_ok (r_driver example_receiver) example_scheduled_packet"
    using example_packets_ok(2) by (simp add: example_r_driver)
  have "data_fits example_scheduled_packet example_ip example_receiver"
    "pool_construct (r_messageAllocator example_receiver) \<noteq> Inl BadAlloc"
    by (simp_all add: data_fits_def Let_def r_findMessage_def example_receiver_def Receiver_def R_MessageBucket_def
        pool_construct_def operator_new_def ObjectPool_def)
  with data_packet_stored [OF example_inv(2) f, of example_ip "\<lambda>_. 8"] show ?thesis by blast
qed



section \<open>Asking for lost packets\<close>

text \<open>C21. The expiration of a resend timeout asks for what is missing and nothing else: one RESEND for
  every maximal run of missing packets below the limit, in order, so that the runs together are
  exactly the missing packets; a message whose granted bytes have all arrived is not asked for.\<close>

theorem resend_requests_missing:
  assumes "receiver_inv r" "r_heap r a = Some m" "im_state m = RX_IN_PROGRESS"
  shows "\<exists>limit. resend_limit m = Inr limit \<and>
    (case limit of
       None \<Rightarrow> resend_message t i a m r = Inr (set_resendTimeout i a t r)
     | Some n \<Rightarrow> \<exists>rs. resend_message t i a m r =
           Inr (r_emit (concat (map (resend_request (r_driver r) m) rs)) (set_resendTimeout i a t r)) \<and>
         concat (map run_of rs) = missing m (nat n) \<and> maximal_runs m (nat n) rs)"
proof -
  obtain l where l: "resend_limit m = Inr l" "\<And>n. l = Some n \<Longrightarrow> nat n \<le> IM_MAX_MESSAGE_PACKETS"
    using resend_limit_ok [OF rinv_msg [OF assms(1,2)] rinv_parts(2) [OF assms(1)]] by blast
  show ?thesis
  proof (cases l)
    case None
    with l(1) assms(3) show ?thesis by (simp add: resend_message_def)
  next
    case (Some n)
    obtain rs where "resend_scan (map int [0..<nat n]) 0 0 (r_driver r) m = Inr (concat (map (resend_request (r_driver r) m) rs))"
      and rs: "concat (map run_of rs) = missing m (nat n)" "maximal_runs m (nat n) rs"
      using resend_scan_ok [OF l(2) [OF Some]] .
    then have e: "resend_message t i a m r =
        Inr (r_emit (concat (map (resend_request (r_driver r) m) rs)) (set_resendTimeout i a t r))"
      using assms(3) l(1) Some by (simp add: resend_message_def)
    show ?thesis by (rule exI [of _ "Some n"]) (use l(1) Some rs e in auto)
  qed
qed

theorem resend_requests_missing_witness:
  "\<exists>a rs. resend_message 9 0 a (first_message example_driver (example_data 0) example_ip) example_r1 =
      Inr (r_emit (concat (map (resend_request example_driver (first_message example_driver (example_data 0) example_ip)) rs))
        (set_resendTimeout 0 a 9 example_r1)) \<and>
    concat (map run_of rs) = missing (first_message example_driver (example_data 0) example_ip) 11"
proof -
  let ?n = "first_message example_driver (example_data 0) example_ip"
  obtain a where a: "r_heap example_r1 a = Some ?n" using example_received(2) by auto
  have ok: "rmsg_ok example_driver ?n" using rinv_msg [OF example_received(1) a] by (simp add: example_received_driver)
  have "resend_limit ?n = Inr (Some 11)" using unscheduled_limit(1) [OF ok] example_first_message by simp
  moreover from resend_requests_missing [OF example_received(1) a example_first_state, of 9 0] obtain limit where
    "resend_limit ?n = Inr limit"
    "case limit of
       None \<Rightarrow> resend_message 9 0 a ?n example_r1 = Inr (set_resendTimeout 0 a 9 example_r1)
     | Some n \<Rightarrow> \<exists>rs. resend_message 9 0 a ?n example_r1 =
           Inr (r_emit (concat (map (resend_request (r_driver example_r1) ?n) rs)) (set_resendTimeout 0 a 9 example_r1)) \<and>
         concat (map run_of rs) = missing ?n (nat n) \<and> maximal_runs ?n (nat n) rs"
    by blast
  ultimately show ?thesis by (auto simp: example_received_driver)
qed

section \<open>Granting\<close>

text \<open>C22. A round of grants terminates without an error on every consistent receiver, sends at most as
  many packets as the degree of overcommitment allows, leaves the receiver consistent and does
  not touch the queue of received messages.\<close>

theorem trySendGrants_terminates:
  assumes "receiver_inv r" "length (scheduledPeers r) < 2 ^ 31"
  shows "\<exists>r' es. trySendGrants tsc r = Inr r' \<and> receiver_inv r' \<and> r_events r' = r_events r @ es \<and>
     length (sent_packets es) \<le> nat MAX_OVERCOMMIT_COUNT \<and> receivedMessages r' = receivedMessages r"
  using trySendGrants_ok [OF assms] .

theorem trySendGrants_terminates_witness:
  "\<exists>r'. trySendGrants (\<lambda>_. 9) example_scheduled = Inr r' \<and> receiver_inv r'"
proof -
  have "length (scheduledPeers example_scheduled) < 2 ^ 31" by (simp add: example_scheduled_peers)
  from trySendGrants_terminates [OF example_received(3) this, of "\<lambda>_. 9"] show ?thesis by blast
qed

text \<open>C23. What a grant does to the first message of a peer: its limit never shrinks and never exceeds
  the message; afterwards the message is granted as a whole or has at least
  \<open>minScheduledBytes\<close> granted and not yet received; the priority falls with the slot.\<close>

theorem grant_opens_window:
  assumes "receiver_inv r" "r_heap r a = Some m"
  shows "\<exists>granted r' q. grant_message (getScheduledPolicy (r_policyManager r)) unused slot a m r = Inr (granted, r') \<and>
     receiver_inv r' \<and> r_heap r' = (r_heap r)(a \<mapsto> m\<lparr>im_info := q\<rparr>) \<and>
     bytesGranted (im_info m) \<le> bytesGranted q \<and> bytesGranted q \<le> im_messageLength m \<and>
     (bytesGranted q = im_messageLength m \<or>
      minScheduledBytes (getScheduledPolicy (r_policyManager r)) \<le>
        bytesGranted q - (im_messageLength m - bytesRemaining (im_info m))) \<and>
     bytesRemaining q = bytesRemaining (im_info m) \<and>
     si_priority q = max 0 (maxScheduledPriority (getScheduledPolicy (r_policyManager r)) - slot - unused)"
proof -
  let ?p = "getScheduledPolicy (r_policyManager r)" and ?q = "im_info m"
  have q: "0 \<le> bytesRemaining ?q" "bytesRemaining ?q \<le> si_messageLength ?q" "bytesGranted ?q \<le> si_messageLength ?q"
    "si_messageLength ?q = im_messageLength m"
    using rmsg_ok_sinfo [OF rinv_msg [OF assms]] by (simp_all add: sinfo_ok_def)
  note g = granted_info_props [OF rstatic_limits(1,2) [OF rinv_parts(1) [OF assms(1)]] q(1-3),
      of "max 0 (maxScheduledPriority ?p - slot - unused)"]
  from grant_message_ok [OF assms, of unused slot] g q(4) show ?thesis
    unfolding window_open_def by (fastforce simp: r_emit_def)
qed

theorem grant_opens_window_witness:
  "\<exists>a granted r' q. grant_message (getScheduledPolicy (r_policyManager example_scheduled)) 0 0 a
      (first_message example_driver example_scheduled_packet example_ip) example_scheduled = Inr (granted, r') \<and>
    r_heap r' a = Some ((first_message example_driver example_scheduled_packet example_ip)\<lparr>im_info := q\<rparr>) \<and>
    bytesGranted q \<le> 20"
proof -
  let ?n = "first_message example_driver example_scheduled_packet example_ip"
  obtain a where a: "r_heap example_scheduled a = Some ?n" using example_received(4) by auto
  from grant_opens_window [OF example_received(3) a, of 0 0] show ?thesis
    unfolding example_scheduled_message(1) by (metis fun_upd_same)
qed



text \<open>C25. A receiver of a network with more than eight priority levels stops at the first message that
  needs grants: the scheduled levels then exceed the degree of overcommitment, which
  \<open>trySendGrants\<close> asserts.\<close>

theorem many_levels_fail:
  assumes "policy_ok (r_policyManager r)" "7 < MAX_PRIORITY (r_policyManager r)" "\<not> granting r" "scheduledPeers r \<noteq> []"
  shows "trySendGrants tsc r = Inl AssertionFailed"
proof -
  let ?p = "getScheduledPolicy (r_policyManager r)"
  have "\<not> maxScheduledPriority ?p < degreeOvercommitment ?p"
    using overcommitment_covers_levels [OF assms(1)] assms(2) by simp
  with assms(3,4) show ?thesis by (simp add: trySendGrants_def Let_def)
qed

theorem many_levels_fail_witness:
  "trySendGrants (\<lambda>_. 9) (example_scheduled\<lparr>granting := False, r_policyManager := Policy_Manager (example_driver\<lparr>highestPacketPriority := 8\<rparr>)\<rparr>) =
     Inl AssertionFailed"
proof -
  let ?d = "example_driver\<lparr>highestPacketPriority := 8\<rparr>"
  have "driver_ok ?d" using example_driver_ok by (simp add: driver_ok_def)
  then have p: "policy_ok (Policy_Manager ?d)" by (rule policy_ok_start)
  show ?thesis
    by (rule many_levels_fail) (simp_all add: p example_scheduled_peers, simp add: Policy_Manager_def Let_def)
qed

section \<open>The life of a received message\<close>

text \<open>C26. The end of an incoming message. When its timeout expires, a message in progress is destroyed, with
  its packets, timeouts and its place in the schedule; a complete one, which the application may
  hold, is only marked as dropped; the queue of received messages is untouched. A message that the
  application has taken from that queue and drops is freed and nothing else. Neither can fail.\<close>

theorem message_ended:
  assumes "receiver_inv r" "r_heap r a = Some m"
  shows "(\<exists>r'. r_expire_message (r_getBucket (im_id m)) a m r = Inr r' \<and> receiver_inv r' \<and>
       a \<notin> set (tlist (rb_messageTimeouts (r_messageBuckets r' (r_getBucket (im_id m))))) \<and>
       receivedMessages r' = receivedMessages r \<and>
       (if im_state m = RX_IN_PROGRESS then r_heap r' a = None
        else r_heap r' a = Some (m\<lparr>im_state := RX_DROPPED\<rparr>))) \<and>
    (a \<notin> set (receivedMessages r) \<longrightarrow>
       (\<exists>r'. dropMessage a r = Inr r' \<and> receiver_inv r' \<and> r_heap r' = (r_heap r)(a := None)))"
proof -
  have "tm_ok (rb_messageTimeouts (r_messageBuckets r (r_getBucket (im_id m))))" using rinv_timeouts(1) [OF assms(1)] .
  then have "a \<notin> set (tlist (cancelTimeout a (rb_messageTimeouts (r_messageBuckets r (r_getBucket (im_id m))))))"
    using set_tlist_cancelTimeout by fastforce
  then have "\<exists>r'. r_expire_message (r_getBucket (im_id m)) a m r = Inr r' \<and> receiver_inv r' \<and>
       a \<notin> set (tlist (rb_messageTimeouts (r_messageBuckets r' (r_getBucket (im_id m))))) \<and>
       receivedMessages r' = receivedMessages r \<and>
       (if im_state m = RX_IN_PROGRESS then r_heap r' a = None
        else r_heap r' a = Some (m\<lparr>im_state := RX_DROPPED\<rparr>))"
    using r_expire_message_ok [OF assms] by metis
  with dropMessage_ok [OF assms] show ?thesis by blast
qed

theorem message_ended_witness:
  "(\<exists>a r'. r_expire_message (r_getBucket \<lparr>transportId = 33, sequence = 5\<rparr>) a example_short_message example_completed = Inr r' \<and>
      r_heap r' a = Some (example_short_message\<lparr>im_state := RX_DROPPED\<rparr>)) \<and>
   (\<exists>a r'. dropMessage a (snd (receiveMessage example_completed)) = Inr r' \<and> r_heap r' = Map.empty)"
proof
  obtain a where a: "r_heap example_completed = [a \<mapsto> example_short_message]" "receivedMessages example_completed = [a]"
    using example_completed(3) by auto
  then have h: "r_heap example_completed a = Some example_short_message" by simp
  from message_ended [OF example_completed(2) h]
  show "\<exists>a r'. r_expire_message (r_getBucket \<lparr>transportId = 33, sequence = 5\<rparr>) a example_short_message example_completed = Inr r' \<and>
      r_heap r' a = Some (example_short_message\<lparr>im_state := RX_DROPPED\<rparr>)"
    by (auto simp: example_short_fields example_short_state)
  let ?r = "snd (receiveMessage example_completed)"
  have r: "receiver_inv ?r" "r_heap ?r a = Some example_short_message" "a \<notin> set (receivedMessages ?r)" "(r_heap ?r)(a := None) = Map.empty"
    using receiveMessage_ok [OF example_completed(2)] a by (auto simp: receiveMessage_def r_emit_def)
  from message_ended [OF r(1,2)] r(3,4)
  show "\<exists>a r'. dropMessage a (snd (receiveMessage example_completed)) = Inr r' \<and> r_heap r' = Map.empty" by metis
qed

text \<open>C27. Reading a complete message returns its bytes, from the given offset and as many as there are;
  bytes stripped from the front are skipped, and stripping more than the message leaves nothing
  to read.\<close>

theorem read_after_strip:
  assumes "receiver_inv r" "r_heap r a = Some m" "im_state m \<noteq> RX_IN_PROGRESS"
    "unat n < 2 ^ 31 - 2 ^ 26" "unat offset < 2 ^ 31 - 2 ^ 26" "unat cnt < 2 ^ 31 - 2 ^ 26"
  shows "\<exists>r'. message_strip n a r = Inr r' \<and> receiver_inv r' \<and>
    message_read (get offset cnt) a r' =
      Inr (take (unat cnt) (drop (nat (im_start m) + unat n + unat offset) (im_buffer (r_driver r) m)))"
  using get_after_strip [OF assms] .

theorem read_after_strip_witness:
  "\<exists>a r'. message_strip 1 a example_completed = Inr r' \<and>
     message_read (get 1 2) a r' = Inr (drop 2 (im_buffer (r_driver example_completed) example_short_message))"
proof -
  obtain a where a: "r_heap example_completed a = Some example_short_message" using example_completed(3) by auto
  have "im_state example_short_message \<noteq> RX_IN_PROGRESS" by (simp add: example_short_state)
  moreover have "unat (1 :: u64) < 2 ^ 31 - 2 ^ 26" "unat (2 :: u64) < 2 ^ 31 - 2 ^ 26" by simp_all
  moreover have e: "nat (im_start example_short_message) + unat (1 :: u64) + unat (1 :: u64) = 2" "unat (2 :: u64) = 2"
    by (simp_all add: example_short_state)
  have "length (im_buffer (r_driver example_completed) example_short_message) = 4"
    by (simp add: im_buffer_def example_short_fields)
  then have t: "take 2 (drop 2 (im_buffer (r_driver example_completed) example_short_message)) =
      drop 2 (im_buffer (r_driver example_completed) example_short_message)" by simp
  ultimately show ?thesis
    using read_after_strip [OF example_completed(2) a, of 1 1 2] unfolding e t by blast
qed

section \<open>The wire format\<close>


section \<open>Ordered lists\<close>

text \<open>C29. \<open>Intrusive::prioritize\<close> restores the order of a list after the key of one element fell, and
  \<open>Intrusive::deprioritize\<close> after it rose: on pointers, each ends without an error and leaves a
  well-linked list of the same elements, sorted by the comparator.\<close>

theorem reordering_sorts:
  assumes "is_list h r xs" "length xs < 2 ^ 64" "rekeyed k k' x xs" "\<forall>a b. lt (deref a h) (deref b h) \<longleftrightarrow> k' a < k' b"
  shows "(k' x \<le> k x \<longrightarrow>
      (\<exists>h' ys. prioritize r x lt h = Inr h' \<and> is_list h' r ys \<and> mset ys = mset xs \<and> sorted_wrt (\<lambda>a b. k' a \<le> k' b) ys)) \<and>
    (k x \<le> k' x \<longrightarrow>
      (\<exists>h' ys. deprioritize r x lt h = Inr h' \<and> is_list h' r ys \<and> mset ys = mset xs \<and> sorted_wrt (\<lambda>a b. k' a \<le> k' b) ys))"
proof -
  have x: "x \<in> set xs" using assms(3) by (simp add: rekeyed_def)
  have c: "(\<lambda>a b. lt (deref a h) (deref b h)) = (\<lambda>a b. k' a < k' b)" using assms(4) by simp
  show ?thesis
    using prioritize_refines [OF assms(1) x assms(2), of lt] mset_prioritize_seq [OF x] lowered_key [OF assms(3)]
      deprioritize_refines [OF assms(1) x assms(2), of lt] mset_deprioritize_seq [OF x] raised_key [OF assms(3)]
    unfolding c not_less by blast
qed

theorem reordering_sorts_witness:
  "(\<exists>h' ys. prioritize 0 3 (<) example_list = Inr h' \<and> is_list h' 0 ys \<and> mset ys = {#1, 2, 3#} \<and>
     sorted_wrt (\<lambda>a b. deref a example_list \<le> deref b example_list) ys) \<and>
   (\<exists>h' ys. deprioritize 0 1 (\<lambda>a b. b < a) example_list = Inr h' \<and> is_list h' 0 ys \<and> mset ys = {#1, 2, 3#} \<and>
     sorted_wrt (\<lambda>a b. - deref a example_list \<le> - deref b example_list) ys)"
  using reordering_sorts [OF example_list(1), of "(\<lambda>a. deref a example_list)(3 := 9)" "\<lambda>a. deref a example_list" 3 "(<)"]
    reordering_sorts [OF example_list(1), of "(\<lambda>a. - deref a example_list)(1 := - 9)" "\<lambda>a. - deref a example_list" 1 "\<lambda>a b. b < a"]
    example_list(2,3) by (simp add: example_list_deref add_mset_commute)

section \<open>Timeouts\<close>

text \<open>C30. Timeouts expire in the order in which they were set. Restarting a timeout at a later time keeps
  the list of a manager in the order of expiration, so that the one time the manager compares
  with, without taking the lock, tells exactly whether any timeout has expired, and the front of
  the list has expired when any other has.\<close>

theorem timeouts_exact:
  assumes "tm_sorted t m" "t \<le> unat rdtsc" "unat rdtsc + unat (timeoutIntervalCycles m) < 2 ^ 64"
  shows "tm_sorted (unat rdtsc) (setTimeout rdtsc x m) \<and> tm_sorted t (cancelTimeout y m) \<and>
    (anyElapsed now (setTimeout rdtsc x m) \<longleftrightarrow>
       (\<exists>z\<in>set (tlist (setTimeout rdtsc x m)). hasElapsed now z (setTimeout rdtsc x m))) \<and>
    (\<forall>z\<in>set (tlist (setTimeout rdtsc x m)). hasElapsed now z (setTimeout rdtsc x m) \<longrightarrow>
       (\<exists>f. tm_front (setTimeout rdtsc x m) = Some f \<and> hasElapsed now f (setTimeout rdtsc x m)))"
proof -
  note s = tm_sorted_setTimeout [OF assms, of x]
  have ne: "tlist (setTimeout rdtsc x m) \<noteq> []" by simp
  then obtain f where f: "tm_front (setTimeout rdtsc x m) = Some f" by (cases "tm_front (setTimeout rdtsc x m)") (simp_all add: tm_front_iff)
  show ?thesis
    using s tm_sorted_cancelTimeout [OF assms(1)] anyElapsed_iff [OF s ne] front_expires_first [OF s f] f by blast
qed

theorem timeouts_exact_witness:
  "anyElapsed 150 (setTimeout 7 (2::nat) (TimeoutManager 100)) \<longleftrightarrow>
     (\<exists>z\<in>set (tlist (setTimeout 7 (2::nat) (TimeoutManager 100))). hasElapsed 150 z (setTimeout 7 2 (TimeoutManager 100)))"
proof -
  let ?m = "TimeoutManager 100 :: nat timeout_manager"
  have m: "timeoutIntervalCycles ?m = 100" "tlist ?m = []" by (simp_all add: TimeoutManager_def)
  have "tm_sorted 0 ?m" "0 \<le> unat (7 :: u64)" "unat (7 :: u64) + unat (timeoutIntervalCycles ?m) < 2 ^ 64"
    by (simp_all add: tm_sorted_def tm_ok_TimeoutManager m)
  from timeouts_exact [OF this, of 2 0 150] show ?thesis by blast
qed

text \<open>C31. A check of the timeouts of one bucket ends without an error on both sides, provided a timeout
  that is restarted during the check expires after the time of the check.\<close>

theorem checkTimeouts_terminates:
  assumes "sender_inv s" "receiver_inv r"
    "\<forall>i. restarts_later (\<lambda>j. tsc (Suc j)) (tsc 0) (timeoutIntervalCycles (pingTimeouts (messageBuckets s i)))"
    "\<forall>i. restarts_later (\<lambda>j. tsc (Suc j)) (tsc 0) (timeoutIntervalCycles (resendTimeouts (r_messageBuckets r i)))"
  shows "(\<exists>s'. sender_checkTimeouts tsc s = Inr s' \<and> sender_inv s') \<and> (\<exists>r'. r_checkTimeouts tsc r = Inr r' \<and> receiver_inv r')"
  using sender_checkTimeouts_ok [OF assms(1)] r_checkTimeouts_ok [OF assms(2)] assms(3,4) by blast

theorem checkTimeouts_terminates_witness:
  "(\<exists>s'. sender_checkTimeouts (\<lambda>_. 5) example_sender = Inr s' \<and> sender_inv s') \<and>
   (\<exists>r'. r_checkTimeouts (\<lambda>_. 5) example_receiver = Inr r' \<and> receiver_inv r')"
  by (rule checkTimeouts_terminates [OF example_inv(1,2)])
    (simp_all add: restarts_later_def example_sender_def Sender_def MessageBucket_def TimeoutManager_def
      example_receiver_def Receiver_def R_MessageBucket_def)

section \<open>Priorities, counters and memory\<close>

text \<open>C32. The priorities a message gets lie within the levels of the network; a longer message never
  gets a higher one, and with at least five levels every scheduled packet ranks below every
  unscheduled one.\<close>

theorem priorities_ordered:
  assumes "policy_ok pm"
  shows "0 \<le> us_priority (fst (getUnscheduledPolicy ip len pm)) \<and>
    us_priority (fst (getUnscheduledPolicy ip len pm)) \<le> MAX_PRIORITY pm \<and>
    (len \<le> len' \<longrightarrow> us_priority (fst (getUnscheduledPolicy ip' len' pm)) \<le> us_priority (fst (getUnscheduledPolicy ip len pm))) \<and>
    (4 \<le> MAX_PRIORITY pm \<longrightarrow>
       maxScheduledPriority (getScheduledPolicy pm) < us_priority (fst (getUnscheduledPolicy ip len pm)))"
  using unscheduled_priority_bounds [OF assms] unscheduled_priority_antimono [OF assms] scheduled_below_unscheduled [OF assms]
  by blast

theorem priorities_ordered_witness:
  "us_priority (fst (getUnscheduledPolicy example_ip 6000 (Policy_Manager example_driver))) \<le>
   us_priority (fst (getUnscheduledPolicy example_ip 400 (Policy_Manager example_driver)))"
  using priorities_ordered [OF policy_ok_start [OF example_driver_ok], of example_ip 400 6000 example_ip] by simp

text \<open>C33. No count is lost: the counters a snapshot reports are the same after a thread exits as before,
  a new thread starts with zero, and a count added by a running thread shows in full.\<close>

theorem snapshot_complete:
  assumes "distinct (perThreadCounters p)" "t \<in> set (perThreadCounters p)" "u \<notin> set (perThreadCounters p)"
  shows "getStats_counters (ThreadCounters_destruct t p) = getStats_counters p \<and>
    getStats_counters (ThreadCounters_construct u p) = getStats_counters p \<and>
    getStats_counters (thread_add t c val p) = (getStats_counters p)(c := getStats_counters p c + val)"
  using getStats_thread_exit [OF assms(2)] getStats_thread_start [OF assms(3)] getStats_thread_add [OF assms(2,1)] by blast

theorem snapshot_complete_witness:
  "getStats_counters (ThreadCounters_destruct 1 \<lparr>globalCounters = Counters, perThreadCounters = [1, 2], threadCounters = \<lambda>t _. of_nat t\<rparr>) =
   getStats_counters \<lparr>globalCounters = Counters, perThreadCounters = [1, 2], threadCounters = \<lambda>t _. of_nat t\<rparr>"
  using snapshot_complete [of "\<lparr>globalCounters = Counters, perThreadCounters = [1, 2], threadCounters = \<lambda>t _. of_nat t\<rparr>" 1 3 tx_bytes 1]
  by simp

text \<open>C34. The object pool never hands out the same memory twice: an address it returns is not in use, an
  address in use can always be given back, and an address just given back is the next one used.\<close>

theorem pool_safe:
  assumes "pool_ok L p"
  shows "(\<forall>a p'. pool_construct p = Inr (a, p') \<longrightarrow> a \<notin> L \<and> pool_ok (insert a L) p') \<and>
    (\<forall>e. pool_construct p = Inl e \<longrightarrow> e = BadAlloc) \<and>
    (\<forall>a\<in>L. \<exists>p'. pool_destroy a p = Inr p' \<and> pool_ok (L - {a}) p' \<and> pool_construct p' = Inr (a, p))"
  using opool.alloc_fresh [OF assms] opool.alloc_fails [OF assms] opool.dealloc_ok [OF assms] pool_reuse by blast

theorem pool_safe_witness: "\<exists>a p'. pool_construct ObjectPool = Inr (a, p') \<and> pool_ok {a} p'"
proof -
  obtain a p where "pool_construct ObjectPool = Inr (a, p)"
    by (simp add: pool_construct_def operator_new_def ObjectPool_def)
  with pool_safe [OF pool_ok_start] show ?thesis by fastforce
qed

section \<open>The drivers\<close>





text \<open>C37. The count of the bytes that wait to be transmitted is exact. Sending a packet, whether the driver is
  corked or not, and uncorking never fail: in particular the callback always finds at least the
  bytes of its burst. Nothing waits when the driver is not corked, and uncorking the last time
  leaves nothing behind.\<close>

theorem dpdk_transmit_counts:
  assumes "rte_ok rte buffered" "rounding_ok rnd" "clock_ok seconds" "tx_inv rte buffered d e"
    "lastUpdateTime (tx_estimator d) \<le> now 0" "now 0 \<le> now 1"
    "dd_packets d a = Some pkt" "0 \<le> dp_length pkt" "dp_length pkt \<le> int DPDK_MAX_PAYLOAD_SIZE"
    "\<forall>m k. dp_buf pkt = MBUF m k \<longrightarrow> m \<in> set (buffered e) \<longrightarrow> 1 < rte_mbuf_refcnt_read rte m e"
    "0 \<le> prio" "prio < 8"
  shows "(\<exists>d' e'. dd_sendPacket rnd seconds now rte a dst prio d e = Inr (d', e') \<and> tx_inv rte buffered d' e' \<and> corked d' = corked d) \<and>
    (\<exists>d' e'. dd_uncork rnd seconds (now 0) rte d e = Inr (d', e') \<and> tx_inv rte buffered d' e' \<and>
       (corked d = 1 \<longrightarrow> buffered e' = [] \<and> bufferedBytes d' = 0))"
proof -
  obtain d' e' where u: "dd_uncork rnd seconds (now 0) rte d e = Inr (d', e')" "tx_inv rte buffered d' e'" "corked d = 1 \<longrightarrow> buffered e' = []"
    using uncork_ok [OF assms(1-5)] by blast
  then have "corked d = 1 \<longrightarrow> bufferedBytes d' = 0" by (auto simp: tx_inv_def unat_eq_zero)
  with u send_ok [OF assms] show ?thesis by blast
qed

theorem dpdk_transmit_counts_witness:
  "\<exists>d' e'. dd_sendPacket (\<lambda>x. x) (\<lambda>t. real_of_int t / 10 ^ 9) (\<lambda>i. int i) simple_library 0 \<lparr>ip_addr = 7\<rparr> 3 example_sending example_rte =
      Inr (d', e') \<and> tx_inv simple_library sr_buffered d' e' \<and> corked d' = 0"
proof -
  have t: "lastUpdateTime (tx_estimator example_sending) \<le> int 0" "int 0 \<le> int 1"
    by (simp_all add: example_sending_def example_dpdk_def QueueEstimator_def)
  have p: "dd_packets example_sending 0 = Some example_dpdk_packet" "0 \<le> dp_length example_dpdk_packet"
    "dp_length example_dpdk_packet \<le> int DPDK_MAX_PAYLOAD_SIZE" "corked example_sending = 0"
    "\<forall>m k. dp_buf example_dpdk_packet = MBUF m k \<longrightarrow> m \<in> set (sr_buffered example_rte) \<longrightarrow> 1 < rte_mbuf_refcnt_read simple_library m example_rte"
    by (simp_all add: example_sending_def example_dpdk_packet_def frame_sizes example_dpdk_def sr_buffered_def example_rte_def)
  from dpdk_transmit_counts [OF simple_library_ok exact_rounding nanosecond_clock example_tx_inv t p(1-3,5), of 3 "\<lparr>ip_addr = 7\<rparr>"] p(4)
  show ?thesis by fastforce
qed

text \<open>C38. The DPDK driver keeps track of the buffers it holds: a packet it allocates or receives is a new
  one, the number of packets in buffers of the library is counted exactly and never exceeds the
  limit that leaves a reserve for reception, and the packets in use can always be released, each
  once. Allocation can fail for lack of memory only.\<close>

theorem dpdk_buffers_reserved:
  assumes "dd_inv d"
  shows "(dd_allocPacket rte d e = Inl BadAlloc \<or>
      (\<exists>a d' e' p. dd_allocPacket rte d e = Inr (a, d', e') \<and> dd_inv d' \<and> dd_packets d a = None \<and>
         dd_packets d' = (dd_packets d)(a \<mapsto> p))) \<and>
    (\<forall>k ps d' e'. dd_receivePackets rte k d e = Inr (ps, d', e') \<longrightarrow>
       dd_inv d' \<and> distinct (map fst ps) \<and> fst ` set ps \<inter> dom (dd_packets d) = {} \<and>
       dom (dd_packets d') = dom (dd_packets d) \<union> fst ` set ps) \<and>
    (\<forall>as. distinct as \<longrightarrow> set as \<subseteq> dom (dd_packets d) \<longrightarrow>
       (\<exists>d' e'. dd_releasePackets rte as d e = Inr (d', e') \<and> dd_inv d' \<and> dom (dd_packets d') = dom (dd_packets d) - set as)) \<and>
    card (mbuf_packets (dd_packets d)) = unat (mbufsOutstanding d) \<and> card (mbuf_packets (dd_packets d)) \<le> 16383 - 4096"
proof -
  have c: "card (mbuf_packets (dd_packets d)) = unat (mbufsOutstanding d)" "uint (mbufsOutstanding d) \<le> 12287"
    using assms by (simp_all add: dd_inv_def MBUF_ALLOC_LIMIT_def NB_MBUF_def NB_MBUF_RESERVED_def)
  have "int (unat (mbufsOutstanding d)) \<le> 12287" using c(2) by simp
  then have "card (mbuf_packets (dd_packets d)) \<le> 16383 - 4096" using c(1) by linarith
  moreover have "dd_allocPacket rte d e = Inl BadAlloc \<or>
      (\<exists>a d' e' p. dd_allocPacket rte d e = Inr (a, d', e') \<and> dd_inv d' \<and> dd_packets d a = None \<and>
         dd_packets d' = (dd_packets d)(a \<mapsto> p))" using alloc_ok [OF assms, of rte e] by metis
  moreover have "dd_inv d' \<and> distinct (map fst ps) \<and> fst ` set ps \<inter> dom (dd_packets d) = {} \<and>
       dom (dd_packets d') = dom (dd_packets d) \<union> fst ` set ps" if "dd_receivePackets rte k d e = Inr (ps, d', e')" for k ps d' e'
    using receive_ok [OF assms that] by blast
  moreover note release_ok [OF assms]
  ultimately show ?thesis using c(1) by (intro conjI allI impI) simp_all
qed

theorem dpdk_buffers_reserved_witness:
  "dd_allocPacket simple_library example_dpdk example_rte = Inl BadAlloc \<or>
    (\<exists>a d' e' p. dd_allocPacket simple_library example_dpdk example_rte = Inr (a, d', e') \<and> dd_inv d' \<and>
       dd_packets d' = (dd_packets example_dpdk)(a \<mapsto> p))"
  using conjunct1 [OF dpdk_buffers_reserved [OF example_dpdk_inv, of simple_library example_rte]] by metis

section \<open>Locks and text\<close>

text \<open>C39. The spin lock excludes: in every state that threads reach by calls of \<open>lock\<close>, \<open>try_lock\<close> and
  \<open>unlock\<close>, interleaved in any order, at most one of them holds the lock. The next test of a thread
  that spins ends its loop exactly when nobody holds the lock, and a thread that calls \<open>lock\<close> while
  it holds the lock spins forever.\<close>

theorem spin_lock_exclusive:
  assumes "spin.reachable s"
  shows "(\<forall>t u. holding s t \<longrightarrow> holding s u \<longrightarrow> t = u) \<and>
    (\<forall>t. spinning s t \<longrightarrow> (\<exists>s'. lock_step (LockRound t) s = Inr s' \<and>
       (if \<exists>u. holding s u then s' = s else holding s' = (\<lambda>u. u = t) \<and> \<not> spinning s' t))) \<and>
    (\<forall>t ops s'. holding s t \<longrightarrow> spinning s t \<longrightarrow> lock_steps ops s = Inr s' \<longrightarrow> holding s' t \<and> spinning s' t)"
proof -
  have inv: "lock_inv s" using spin.reachable_inv [OF assms] .
  then have "\<forall>t u. holding s t \<longrightarrow> holding s u \<longrightarrow> t = u" by (simp add: lock_inv_def)
  with round_acquires [OF inv] self_deadlock [OF inv] show ?thesis by blast
qed

theorem spin_lock_exclusive_witness:
  "\<exists>s s'. lock_steps [LockCall 1, LockRound 1, LockCall 2, LockRound 2] \<lparr>the_lock = SpinLock, spinning = (\<lambda>_. False), holding = (\<lambda>_. False)\<rparr> = Inr s \<and>
     spin.reachable s \<and> holding s 1 \<and> lock_step (LockRound 2) s = Inr s' \<and> s' = s"
proof -
  let ?s0 = "\<lparr>the_lock = SpinLock, spinning = (\<lambda>_. False), holding = (\<lambda>_. False)\<rparr>"
  have reach: "spin.reachable u \<Longrightarrow> lock_steps ops u = Inr v \<Longrightarrow> spin.reachable v" for ops u v
  proof (induction ops arbitrary: u)
    case (Cons op ops)
    then obtain w where "lock_step op u = Inr w" "lock_steps ops w = Inr v" by (auto simp: res_simps)
    then show ?case using Cons spin.reach_step by blast
  qed simp
  obtain s where s: "lock_steps [LockCall 1, LockRound 1, LockCall 2, LockRound 2] ?s0 = Inr s" "holding s 1" "spinning s 2"
    by (simp add: lock_defs SpinLock_def)
  have "spin.reachable ?s0" by (rule spin.reach_start) (simp add: lock_start_def)
  then have r: "spin.reachable s" using reach s(1) by blast
  have "\<exists>u. holding s u" using s(2) by blast
  with spin_lock_exclusive [OF r] s(3) have "\<exists>s'. lock_step (LockRound 2) s = Inr s' \<and> s' = s" by metis
  with r s(1,2) show ?thesis by blast
qed

text \<open>C40. What is written as text is read back: the addresses of hosts and cards, the names of log levels,
  and a log policy, which comes back with the default level as its last rule where the text adds
  it and then gives every file the level it had before.\<close>

theorem text_round_trip:
  "ip_fromString (ip_toString a) = Inr a \<and> logLevelFromString (logLevelToString level) = Inr level \<and>
   (length (address m) = 6 \<longrightarrow> mac_fromString (mac_toString m) = Inr m) \<and>
   (log_policy_ok policy \<longrightarrow> (\<exists>policy'. logPolicyFromString (logPolicyToString policy) = Inr policy' \<and>
      (\<exists>added. policy' = policy @ added) \<and> (\<forall>file. getLogLevel policy' file = getLogLevel policy file)))"
proof -
  have "\<exists>added. completed policy = policy @ added" by (simp add: completed_def)
  with ip_round_trip mac_round_trip level_round_trip policy_round_trip completed_levels show ?thesis by blast
qed

theorem text_round_trip_witness:
  "ip_fromString (ip_toString \<lparr>ip_addr = 3232235777\<rparr>) = Inr \<lparr>ip_addr = 3232235777\<rparr> \<and>
   mac_fromString (mac_toString \<lparr>address = [1, 35, 69, 103, 137, 171]\<rparr>) = Inr \<lparr>address = [1, 35, 69, 103, 137, 171]\<rparr> \<and>
   (\<exists>policy'. logPolicyFromString (logPolicyToString [(''src/Sender'', ''VERBOSE'')]) = Inr policy' \<and>
      (\<exists>added. policy' = [(''src/Sender'', ''VERBOSE'')] @ added))"
proof -
  have "log_policy_ok [(''src/Sender'', ''VERBOSE'')]" by (simp add: log_policy_ok_def)
  with text_round_trip [of "\<lparr>ip_addr = 3232235777\<rparr>" NOTICE "\<lparr>address = [1, 35, 69, 103, 137, 171]\<rparr>" "[(''src/Sender'', ''VERBOSE'')]"]
  show ?thesis by fastforce
qed

end
